(* ===== verification/Prelude.thy ===== *)
theory Prelude
  imports Main "HOL-Library.Word" "HOL-Library.Monad_Syntax"
begin

text \<open>
  Shared vocabulary of the development: bytes and machine words, checked
  memory primitives, and the list facts the components use.

  A C or C++ operation whose behaviour the language leaves undefined (a read past the end
  of an array, a shift by the width of the type, a null dereference) is the value
  \<open>None\<close> of an option; \<open>Some\<close> is a defined result.
\<close>

unbundle bit_operations_syntax

named_theorems c_mem "facts about the checked memory primitives"

type_synonym byte = "8 word"
type_synonym u32 = "32 word"
type_synonym addr = nat

section \<open>Checked memory primitives\<close>

text \<open>\<open>buf[i]\<close> on a buffer of known size.\<close>

definition rd :: "byte list \<Rightarrow> nat \<Rightarrow> byte option" where
  "rd b i = (if i < length b then Some (b ! i) else None)"

text \<open>The bytes \<open>buf[off .. off + n)\<close>; undefined when the range leaves the buffer.\<close>

definition bytes_at :: "byte list \<Rightarrow> nat \<Rightarrow> nat \<Rightarrow> byte list option" where
  "bytes_at b off n = (if off + n \<le> length b then Some (take n (drop off b)) else None)"

text \<open>\<open>memcpy(buf + off, src, length src)\<close>.\<close>

definition store :: "byte list \<Rightarrow> nat \<Rightarrow> byte list \<Rightarrow> byte list option" where
  "store b off src =
     (if off + length src \<le> length b
      then Some (take off b @ src @ drop (off + length src) b) else None)"

text \<open>\<open>memmove(buf, buf + from, n)\<close>.\<close>

definition move_down :: "byte list \<Rightarrow> nat \<Rightarrow> nat \<Rightarrow> byte list option" where
  "move_down b from n = do { s \<leftarrow> bytes_at b from n; store b 0 s }"

lemma rd_Some [c_mem]: "i < length b \<Longrightarrow> rd b i = Some (b ! i)"
  by (simp add: rd_def)

lemma bytes_at_Some [c_mem]: "off + n \<le> length b \<Longrightarrow> bytes_at b off n = Some (take n (drop off b))"
  by (simp add: bytes_at_def)

lemma store_Some [c_mem]:
  "off + length src \<le> length b \<Longrightarrow>
   store b off src = Some (take off b @ src @ drop (off + length src) b)"
  by (simp add: store_def)

lemma length_store: "store b off src = Some b' \<Longrightarrow> length b' = length b"
  by (auto simp: store_def split: if_splits)

lemma length_bytes_at: "bytes_at b off n = Some s \<Longrightarrow> length s = n"
  by (auto simp: bytes_at_def split: if_splits)

lemma move_down_Some [c_mem]:
  "from + n \<le> length b \<Longrightarrow>
   move_down b from n = Some (take n (drop from b) @ drop n b)"
  by (simp add: move_down_def bytes_at_def store_def)

lemma length_move_down: "move_down b from n = Some b' \<Longrightarrow> length b' = length b"
  by (auto simp: move_down_def bind_eq_Some_conv dest: length_store)

lemma move_down_None: "move_down b from n = None \<longleftrightarrow> \<not> from + n \<le> length b"
  by (auto simp: move_down_def bytes_at_def store_def)

section \<open>Integer arithmetic on bytes\<close>

text \<open>Assigning an \<open>int\<close> to an \<open>unsigned char\<close> keeps its low eight bits.\<close>

definition to_byte :: "int \<Rightarrow> byte" where
  "to_byte x = word_of_int x"

text \<open>\<open>lo | (hi << 8)\<close> with both bytes promoted to \<open>int\<close>.\<close>

definition le16 :: "byte \<Rightarrow> byte \<Rightarrow> int" where
  "le16 lo hi = uint lo OR push_bit 8 (uint hi)"

text \<open>\<open>b0 | (b1 << 8) | (b2 << 16) | (b3 << 24)\<close> stored in an \<open>unsigned int\<close>.\<close>

definition le32 :: "byte \<Rightarrow> byte \<Rightarrow> byte \<Rightarrow> byte \<Rightarrow> u32" where
  "le32 b0 b1 b2 b3 =
     ucast b0 OR push_bit 8 (ucast b1) OR push_bit 16 (ucast b2) OR push_bit 24 (ucast b3)"

text \<open>The four bytes of an \<open>unsigned int\<close> in memory order (little-endian host).\<close>

definition bytes32 :: "u32 \<Rightarrow> byte list" where
  "bytes32 w = [ucast w, ucast (drop_bit 8 w), ucast (drop_bit 16 w), ucast (drop_bit 24 w)]"

lemma uint_byte_bounds [simp]: "0 \<le> uint (b :: byte)" "uint (b :: byte) < 256"
  using uint_lt2p [of b] by simp_all

lemma or_push_bit_8: "(a::int) OR push_bit 8 b = a + 256 * b" if "0 \<le> a" "a < 256"
proof -
  have "take_bit 8 a = a" using that by (simp add: take_bit_int_eq_self)
  then have small: "n < 8" if "bit a n" for n using that by (metis bit_take_bit_iff)
  have "a AND push_bit 8 b = 0"
    by (rule bit_eqI) (auto simp: bit_simps dest: small)
  then have "a + push_bit 8 b = a OR push_bit 8 b"
    by (rule disjunctive_add_eq_or)
  then show ?thesis by (simp add: push_bit_eq_mult)
qed

lemma le16_sum: "le16 lo hi = uint lo + 256 * uint hi"
  by (simp add: le16_def or_push_bit_8)

lemma le16_bounds: "0 \<le> le16 lo hi" "le16 lo hi < 65536"
proof -
  have "0 \<le> uint lo" "uint lo < 256" "0 \<le> uint hi" "uint hi < 256" by simp_all
  then show "0 \<le> le16 lo hi" "le16 lo hi < 65536" unfolding le16_sum by linarith+
qed

lemma uint_to_byte: "uint (to_byte x) = x mod 256"
  by (simp add: to_byte_def uint_word_of_int)

lemma and_255: "(x::int) AND 255 = x mod 256"
  using take_bit_eq_mask [of 8 x] by (simp add: take_bit_eq_mod mask_eq_exp_minus_1)

lemma le16_split: "le16 (to_byte (x AND 255)) (to_byte (drop_bit 8 x AND 255)) = x mod 65536"
proof -
  have "x mod 65536 = x mod 256 + 256 * (x div 256 mod 256)"
    using zmod_zmult2_eq [of 256 x 256] by simp
  then show ?thesis by (simp add: le16_sum uint_to_byte and_255 drop_bit_eq_div)
qed

lemma byte_bit: "bit (x :: byte) n \<Longrightarrow> n < 8"
  using bit_imp_le_length [of x n] by simp

lemma length_bytes32 [simp]: "length (bytes32 w) = 4"
  by (simp add: bytes32_def)

lemma le32_bytes32:
  "le32 (ucast w) (ucast (drop_bit 8 w)) (ucast (drop_bit 16 w)) (ucast (drop_bit 24 w)) = w"
proof (rule bit_word_eqI)
  fix n assume "n < LENGTH(32)"
  then have "n < 32" by simp
  moreover have "n < 8 \<or> 8 \<le> n \<and> n < 16 \<or> 16 \<le> n \<and> n < 24 \<or> 24 \<le> n" by linarith
  ultimately show "bit (le32 (ucast w) (ucast (drop_bit 8 w)) (ucast (drop_bit 16 w))
      (ucast (drop_bit 24 w))) n = bit w n"
    by (elim disjE; simp add: le32_def bit_simps; arith)
qed

section \<open>Shifts\<close>

text \<open>Shifting an \<open>int\<close> (32 bits on every supported platform) by 32 or more is undefined.\<close>

definition shl32 :: "int \<Rightarrow> nat \<Rightarrow> int option" where
  "shl32 x n = (if n < 32 then Some (push_bit n x) else None)"

definition shr32 :: "int \<Rightarrow> nat \<Rightarrow> int option" where
  "shr32 x n = (if n < 32 then Some (drop_bit n x) else None)"

definition header_byte :: "int \<Rightarrow> byte" where
  "header_byte x = to_byte (x AND 255)"

lemma uint_header_byte: "uint (header_byte x) = x mod 256"
  by (simp add: header_byte_def uint_to_byte and_255)

text \<open>The outcome of a frame-header reader: \<open>return false\<close>, or the two out-parameters
  (header length, payload length).\<close>

datatype header_result = No_Header | Header (head_len: int) (body_len: int)

text \<open>The bytes of a C string literal.\<close>

definition ascii :: "string \<Rightarrow> byte list" where
  "ascii s = map (\<lambda>c. word_of_nat (of_char c)) s"

section \<open>Lists\<close>

lemma take_eq_prefix: "length a = n \<Longrightarrow> take n (a @ b) = a"
  by simp

lemma drop_eq_suffix: "length a = n \<Longrightarrow> drop n (a @ b) = b"
  by simp

lemma fold_const_id: "fold (\<lambda>_ x. x) xs y = y"
  by (induction xs) auto

section \<open>Printed numbers\<close>

text \<open>The decimal digits of a number: \<open>%u\<close>, and \<open>%d\<close> with its sign.\<close>

function dec :: "nat \<Rightarrow> string" where
  "dec n = (if n < 10 then [char_of (48 + n)] else dec (n div 10) @ [char_of (48 + n mod 10)])"
  by pat_completeness auto
termination by (relation "measure id") auto

declare dec.simps [simp del]

definition dec_int :: "int \<Rightarrow> string" where
  "dec_int n = (if n < 0 then ''-'' else []) @ dec (nat \<bar>n\<bar>)"

text \<open>\<open>sprintf\<close> into a buffer of \<open>bytes\<close> bytes, which must hold the terminating NUL too.\<close>

definition sprintf :: "nat \<Rightarrow> string \<Rightarrow> string option" where
  "sprintf bytes s = (if length s < bytes then Some s else None)"

lemma length_dec: "n < 10 ^ Suc k \<Longrightarrow> length (dec n) \<le> Suc k"
proof (induction k arbitrary: n)
  case 0
  then show ?case by (simp add: dec.simps)
next
  case (Suc k)
  then have "n div 10 < 10 ^ Suc k" by (simp add: less_mult_imp_div_less)
  from Suc.IH [OF this] show ?case by (subst dec.simps) simp
qed

lemma length_dec_u32: "length (dec (unat (w :: u32))) \<le> 10"
proof -
  have "unat w < 2 ^ 32" using unsigned_less [of w] by simp
  then show ?thesis using length_dec [of "unat w" 9] by simp
qed

end
