(* ===== verification/Cache_Alloc.thy ===== *)
theory Cache_Alloc
  imports Prelude "HOL-Library.Multiset"
begin

text \<open>
  utils/cache_alloc.c: a fixed-size block allocator with an intrusive free list, and its
  \<open>malloc\<close> fallback; utils/small_alloc.c on top of it.

  The C heap an allocator draws from is a record: the next unused address, the \<open>next\<close>
  field stored in every block, and the blocks \<open>malloc\<close> has handed out. \<open>malloc\<close> never
  fails and never returns an address twice; \<open>free\<close> of an address that is not a live
  \<open>malloc\<close> block is undefined.

  The concrete free list is a chain of addresses linked through the heap. \<open>chain\<close> relates
  it to the abstract list of free blocks, \<open>pool_inv\<close> is the representation invariant,
  and \<open>block_pool\<close> is the interface the rest of the program relies on.
\<close>

section \<open>The heap\<close>

record heap =
  brk :: addr
  nxt :: "addr \<Rightarrow> addr"
  blocks :: "addr \<rightharpoonup> nat"

definition empty_heap :: heap where
  "empty_heap = \<lparr>brk = 8, nxt = (\<lambda>_. 0), blocks = Map.empty\<rparr>"

definition malloc :: "nat \<Rightarrow> heap \<Rightarrow> addr \<times> heap" where
  "malloc n h = (brk h, h\<lparr>brk := brk h + max 1 n, blocks := (blocks h)(brk h \<mapsto> n)\<rparr>)"

definition c_free :: "addr \<Rightarrow> heap \<Rightarrow> heap option" where
  "c_free p h =
     (case blocks h p of None \<Rightarrow> None | Some _ \<Rightarrow> Some (h\<lparr>blocks := (blocks h)(p := None)\<rparr>))"

section \<open>The allocator\<close>

definition sizeof_node :: nat where "sizeof_node = 8"
definition sizeof_allocator :: nat where "sizeof_allocator = 32"

record cache_allocator =
  self_addr :: addr
  cache_mem :: addr
  capacity :: nat
  free_list :: addr
  element_size :: nat

text \<open>One iteration of the loop that threads the blocks onto the free list.\<close>

definition link_node :: "nat \<Rightarrow> cache_allocator \<times> heap \<Rightarrow> cache_allocator \<times> heap" where
  "link_node i s = (case s of (a, h) \<Rightarrow>
     let n = cache_mem a + i * element_size a in
     (a\<lparr>free_list := n\<rparr>, h\<lparr>nxt := (nxt h)(n := free_list a)\<rparr>))"

definition create_cache_allocator :: "nat \<Rightarrow> nat \<Rightarrow> heap \<Rightarrow> cache_allocator \<times> heap" where
  "create_cache_allocator cap esz h =
     (let (self, h) = malloc sizeof_allocator h;
          esz = (if esz < sizeof_node then sizeof_node else esz);
          (m, h) = malloc (cap * esz) h;
          a = \<lparr>self_addr = self, cache_mem = m, capacity = cap, free_list = 0,
               element_size = esz\<rparr>
      in fold link_node [0..<cap] (a, h))"

definition destroy_cache_allocator :: "cache_allocator \<times> heap \<Rightarrow> heap option" where
  "destroy_cache_allocator s = (case s of (a, h) \<Rightarrow> do {
     h \<leftarrow> (if cache_mem a \<noteq> 0 then c_free (cache_mem a) h else Some h);
     c_free (self_addr a) h })"

definition cache_alloc :: "nat \<Rightarrow> cache_allocator \<times> heap \<Rightarrow> addr \<times> cache_allocator \<times> heap" where
  "cache_alloc n s = (case s of (a, h) \<Rightarrow>
     if element_size a < n then (case malloc n h of (p, h) \<Rightarrow> (p, a, h))
     else if free_list a = 0 then (case malloc n h of (p, h) \<Rightarrow> (p, a, h))
     else (free_list a, a\<lparr>free_list := nxt h (free_list a)\<rparr>, h))"

definition in_region :: "cache_allocator \<Rightarrow> addr \<Rightarrow> bool" where
  "in_region a p \<longleftrightarrow> cache_mem a \<le> p \<and> p < cache_mem a + capacity a * element_size a"

definition cache_free :: "addr \<Rightarrow> cache_allocator \<times> heap \<Rightarrow> (cache_allocator \<times> heap) option" where
  "cache_free p s = (case s of (a, h) \<Rightarrow>
     if p = 0 then Some (a, h)
     else if in_region a p
     then Some (a\<lparr>free_list := p\<rparr>, h\<lparr>nxt := (nxt h)(p := free_list a)\<rparr>)
     else map_option (Pair a) (c_free p h))"

section \<open>Abstraction of the free list\<close>

text \<open>\<open>chain f p xs\<close>: following \<open>next\<close> from \<open>p\<close> visits exactly \<open>xs\<close> and ends in NULL.\<close>

primrec chain :: "(addr \<Rightarrow> addr) \<Rightarrow> addr \<Rightarrow> addr list \<Rightarrow> bool" where
  "chain f p [] \<longleftrightarrow> p = 0"
| "chain f p (x # xs) \<longleftrightarrow> p = x \<and> x \<noteq> 0 \<and> chain f (f x) xs"

text \<open>The executable walk along the list, cut off after \<open>n\<close> nodes.\<close>

fun walk :: "(addr \<Rightarrow> addr) \<Rightarrow> addr \<Rightarrow> nat \<Rightarrow> addr list" where
  "walk f p 0 = []"
| "walk f p (Suc n) = (if p = 0 then [] else p # walk f (f p) n)"

lemma chain_upd [simp]: "x \<notin> set xs \<Longrightarrow> chain (f(x := y)) p xs = chain f p xs"
  by (induction xs arbitrary: p) auto

lemma walk_chain: "chain f p xs \<Longrightarrow> length xs \<le> n \<Longrightarrow> walk f p n = xs"
proof (induction xs arbitrary: p n)
  case Nil
  then show ?case by (cases n) auto
next
  case (Cons x xs)
  then show ?case by (cases n) auto
qed

definition node_list :: "cache_allocator \<Rightarrow> addr list" where
  "node_list a = map (\<lambda>i. cache_mem a + i * element_size a) [0..<capacity a]"

definition free_nodes :: "cache_allocator \<times> heap \<Rightarrow> addr list" where
  "free_nodes s = walk (nxt (snd s)) (free_list (fst s)) (capacity (fst s))"

text \<open>What the client owns: pool blocks that are not free, and \<open>malloc\<close> blocks other than
  the allocator's own two.\<close>

definition live :: "cache_allocator \<times> heap \<Rightarrow> addr set" where
  "live s = (set (node_list (fst s)) - set (free_nodes s)) \<union>
     (dom (blocks (snd s)) - {cache_mem (fst s), self_addr (fst s)})"

definition pool_inv :: "cache_allocator \<times> heap \<Rightarrow> bool" where
  "pool_inv s = (case s of (a, h) \<Rightarrow>
     sizeof_node \<le> element_size a \<and> 0 < self_addr a \<and> self_addr a < cache_mem a \<and>
     cache_mem a + capacity a * element_size a \<le> brk h \<and> cache_mem a < brk h \<and>
     (\<exists>xs. chain (nxt h) (free_list a) xs \<and> distinct xs \<and> set xs \<subseteq> set (node_list a)) \<and>
     {cache_mem a, self_addr a} \<subseteq> dom (blocks h) \<and>
     (\<forall>p \<in> dom (blocks h). 0 < p \<and> p < brk h \<and> (in_region a p \<longrightarrow> p = cache_mem a)))"

lemma distinct_node_list: "0 < element_size a \<Longrightarrow> distinct (node_list a)"
  by (auto simp: node_list_def distinct_map inj_on_def)

lemma length_node_list [simp]: "length (node_list a) = capacity a"
  by (simp add: node_list_def)

lemma node_in_region:
  assumes "p \<in> set (node_list a)" "0 < element_size a" shows "in_region a p"
proof -
  from assms(1) obtain i where "i < capacity a" "p = cache_mem a + i * element_size a"
    by (auto simp: node_list_def)
  moreover have "i * element_size a < capacity a * element_size a"
    using \<open>i < capacity a\<close> assms(2) by simp
  ultimately show ?thesis by (simp add: in_region_def)
qed

lemma node_list_update [simp]: "node_list (a\<lparr>free_list := p\<rparr>) = node_list a"
  by (simp add: node_list_def)

lemma in_region_update [simp]: "in_region (a\<lparr>free_list := p\<rparr>) q = in_region a q"
  by (simp add: in_region_def)

lemma sublist_length:
  assumes "distinct xs" "set xs \<subseteq> set (node_list a)" shows "length xs \<le> capacity a"
proof -
  have "length xs = card (set xs)" using assms(1) by (simp add: distinct_card)
  also have "\<dots> \<le> card (set (node_list a))" using assms(2) by (simp add: card_mono)
  also have "\<dots> \<le> capacity a" using card_length [of "node_list a"] by simp
  finally show ?thesis .
qed

lemma free_nodes_eq:
  assumes "chain (nxt h) (free_list a) xs" "distinct xs" "set xs \<subseteq> set (node_list a)"
  shows "free_nodes (a, h) = xs"
  using walk_chain [OF assms(1)] sublist_length [OF assms(2,3)] by (simp add: free_nodes_def)

lemma pool_invE:
  assumes "pool_inv (a, h)"
  obtains xs where "free_nodes (a, h) = xs" "chain (nxt h) (free_list a) xs" "distinct xs"
    "set xs \<subseteq> set (node_list a)"
proof -
  from assms obtain xs where xs: "chain (nxt h) (free_list a) xs" "distinct xs"
    "set xs \<subseteq> set (node_list a)"
    unfolding pool_inv_def by blast
  show thesis by (rule that [OF free_nodes_eq [OF xs] xs])
qed

lemma pool_invD:
  assumes "pool_inv (a, h)"
  shows "0 < element_size a" "0 < cache_mem a" "0 < self_addr a" "self_addr a < cache_mem a"
    "cache_mem a + capacity a * element_size a \<le> brk h" "cache_mem a < brk h"
    "\<And>p. in_region a p \<Longrightarrow> p < brk h"
    "\<And>p n. blocks h p = Some n \<Longrightarrow> 0 < p \<and> p < brk h \<and> (in_region a p \<longrightarrow> p = cache_mem a)"
  using assms by (auto simp: pool_inv_def sizeof_node_def in_region_def dom_def)

section \<open>Each operation keeps the invariant\<close>

lemma pool_invI:
  assumes "pool_inv (a, h)" "chain (nxt h') p xs" "distinct xs" "set xs \<subseteq> set (node_list a)"
    "brk h' = brk h" "blocks h' = blocks h"
  shows "pool_inv (a\<lparr>free_list := p\<rparr>, h')" "free_nodes (a\<lparr>free_list := p\<rparr>, h') = xs"
proof -
  have c: "chain (nxt h') (free_list (a\<lparr>free_list := p\<rparr>)) xs"
    "set xs \<subseteq> set (node_list (a\<lparr>free_list := p\<rparr>))"
    using assms(2,4) by simp_all
  show "free_nodes (a\<lparr>free_list := p\<rparr>, h') = xs"
    by (rule free_nodes_eq [OF c(1) assms(3) c(2)])
  show "pool_inv (a\<lparr>free_list := p\<rparr>, h')"
    using assms(1,5,6) c assms(3) unfolding pool_inv_def prod.case
    by (intro conjI) (simp, simp, simp, simp, simp, blast, simp, simp)
qed

lemma malloc_inv:
  assumes inv: "pool_inv (a, h)" and m: "malloc n h = (p, h')"
  shows "pool_inv (a, h')" "free_nodes (a, h') = free_nodes (a, h)" "p \<notin> live (a, h)"
    "live (a, h') = insert p (live (a, h))" "p \<noteq> 0"
proof -
  note D = pool_invD [OF inv]
  obtain xs where xs: "free_nodes (a, h) = xs" "chain (nxt h) (free_list a) xs" "distinct xs"
    "set xs \<subseteq> set (node_list a)" using inv by (rule pool_invE)
  have h': "p = brk h" "nxt h' = nxt h" "blocks h' = (blocks h)(brk h \<mapsto> n)"
    "brk h < brk h'"
    using m by (auto simp: malloc_def)
  have out: "\<not> in_region a (brk h)" using D(7) by blast
  show fn: "free_nodes (a, h') = free_nodes (a, h)" by (simp add: free_nodes_def h')
  show "pool_inv (a, h')"
    unfolding pool_inv_def prod.case
  proof (intro conjI)
    show "\<exists>xs. chain (nxt h') (free_list a) xs \<and> distinct xs \<and> set xs \<subseteq> set (node_list a)"
      using xs h' by auto
    show "\<forall>q \<in> dom (blocks h'). 0 < q \<and> q < brk h' \<and> (in_region a q \<longrightarrow> q = cache_mem a)"
    proof (rule ballI)
      fix q assume "q \<in> dom (blocks h')"
      then consider "q = brk h" | k where "blocks h q = Some k" by (auto simp: h' split: if_splits)
      then show "0 < q \<and> q < brk h' \<and> (in_region a q \<longrightarrow> q = cache_mem a)"
      proof cases
        case 1
        then show ?thesis using D(6) h'(4) out by simp
      next
        case 2
        then show ?thesis using D(8) [of q k] h'(4) by simp
      qed
    qed
  qed (use inv D h' in \<open>auto simp: pool_inv_def\<close>)
  have no: "brk h \<notin> set (node_list a)" using out node_in_region D(1) by blast
  have nb: "brk h \<notin> dom (blocks h)" using D(8) by fastforce
  show "p \<notin> live (a, h)" using no nb h' by (auto simp: live_def)
  show "live (a, h') = insert p (live (a, h))"
    using h' fn D(4,6) by (auto simp: live_def)
  show "p \<noteq> 0" using h' D(6) by simp
qed

lemma node_block: "pool_inv (a, h) \<Longrightarrow> p \<in> set (node_list a) \<Longrightarrow> p \<in> dom (blocks h) \<Longrightarrow> p = cache_mem a"
  by (auto dest: pool_invD(8) node_in_region [OF _ pool_invD(1)])

lemma cache_alloc_ok:
  assumes inv: "pool_inv s" and al: "cache_alloc n s = (p, s')"
  shows "pool_inv s'" "p \<notin> live s" "live s' = insert p (live s)" "p \<noteq> 0"
proof -
  obtain a h where s: "s = (a, h)" by (cases s)
  have "pool_inv s' \<and> p \<notin> live s \<and> live s' = insert p (live s) \<and> p \<noteq> 0"
  proof (cases "element_size a < n \<or> free_list a = 0")
    case True
    obtain q h' where m: "malloc n h = (q, h')" by (cases "malloc n h")
    with al True have "p = q" "s' = (a, h')" by (auto simp: cache_alloc_def s split: if_splits)
    with malloc_inv [OF inv [unfolded s] m] show ?thesis by (simp add: s)
  next
    case False
    obtain xs where xs: "free_nodes (a, h) = xs" "chain (nxt h) (free_list a) xs" "distinct xs"
      "set xs \<subseteq> set (node_list a)" using inv unfolding s by (rule pool_invE)
    from False xs(2) obtain ys where ys: "xs = free_list a # ys"
      "chain (nxt h) (nxt h (free_list a)) ys" by (cases xs) auto
    have s': "p = free_list a" "s' = (a\<lparr>free_list := nxt h p\<rparr>, h)"
      using al False by (auto simp: cache_alloc_def s)
    have new: "pool_inv s'" "free_nodes s' = ys"
      unfolding s' using pool_invI [OF inv [unfolded s] ys(2)] xs(3,4) ys(1) by auto
    have pn: "p \<in> set (node_list a)" using xs(4) ys(1) s' by simp
    then have "p \<in> dom (blocks h) \<Longrightarrow> p = cache_mem a"
      using node_block inv s by blast
    then have "p \<notin> live s" using xs(1) ys(1) s' by (auto simp: live_def s)
    moreover have "live s' = insert p (live s)"
      using xs(1,3) ys(1) new(2) s' pn by (auto simp: live_def s)
    ultimately show ?thesis using new(1) False s' by simp
  qed
  then show "pool_inv s'" "p \<notin> live s" "live s' = insert p (live s)" "p \<noteq> 0" by auto
qed

lemma cache_free_ok:
  assumes inv: "pool_inv s" and p: "p \<in> live s"
  shows "\<exists>s'. cache_free p s = Some s' \<and> pool_inv s' \<and> live s' = live s - {p}"
proof -
  obtain a h where s: "s = (a, h)" by (cases s)
  note D = pool_invD [OF inv [unfolded s]]
  obtain xs where xs: "free_nodes (a, h) = xs" "chain (nxt h) (free_list a) xs" "distinct xs"
    "set xs \<subseteq> set (node_list a)" using inv unfolding s by (rule pool_invE)
  show ?thesis
  proof (cases "p \<in> set (node_list a)")
    case True
    then have reg: "in_region a p" using D(1) node_in_region by blast
    then have p0: "p \<noteq> 0" using D(2) by (simp add: in_region_def)
    have notfree: "p \<notin> set xs"
    proof
      assume "p \<in> set xs"
      with p xs(1) have "p \<in> dom (blocks h)" "p \<noteq> cache_mem a" by (auto simp: live_def s)
      with True node_block inv s show False by blast
    qed
    define s' where "s' = (a\<lparr>free_list := p\<rparr>, h\<lparr>nxt := (nxt h)(p := free_list a)\<rparr>)"
    have "chain (nxt (h\<lparr>nxt := (nxt h)(p := free_list a)\<rparr>)) p (p # xs)"
      using xs(2) notfree p0 by simp
    then have new: "pool_inv s'" "free_nodes s' = p # xs"
      unfolding s'_def using pool_invI [OF inv [unfolded s]] xs(3,4) notfree True
      by (metis distinct.simps(2) heap.select_convs heap.update_convs(2) insert_subset
          list.simps(15) heap.ext_inject heap.surjective)+
    have "cache_free p s = Some s'" using reg p0 by (simp add: cache_free_def s s'_def)
    moreover have "live s' = live s - {p}"
    proof -
      have "p \<in> dom (blocks h) \<Longrightarrow> p = cache_mem a" using True node_block inv s by blast
      moreover have "fst s' = a\<lparr>free_list := p\<rparr>" "blocks (snd s') = blocks h"
        by (simp_all add: s'_def)
      ultimately show ?thesis using new(2) xs(1) by (auto simp: live_def s)
    qed
    ultimately show ?thesis using new(1) by blast
  next
    case False
    with p xs(1) obtain n where b: "blocks h p = Some n" "p \<noteq> cache_mem a" "p \<noteq> self_addr a"
      by (auto simp: live_def s)
    have p0: "p \<noteq> 0" and reg: "\<not> in_region a p" using D(8) [OF b(1)] b(2) by auto
    define s' where "s' = (a, h\<lparr>blocks := (blocks h)(p := None)\<rparr>)"
    have "cache_free p s = Some s'" using reg p0 b(1) by (simp add: cache_free_def c_free_def s s'_def)
    moreover have "pool_inv s'"
      using inv b(2,3) by (auto simp: s'_def s pool_inv_def)
    moreover have "live s' = live s - {p}"
      using False by (auto simp: s'_def s live_def free_nodes_def)
    ultimately show ?thesis by blast
  qed
qed

text \<open>Creation: every block is free, nothing is owned by the client.\<close>

lemma link_node_upd:
  "link_node i (a\<lparr>free_list := f\<rparr>, h\<lparr>nxt := g\<rparr>) =
   (a\<lparr>free_list := cache_mem a + i * element_size a\<rparr>,
    h\<lparr>nxt := g(cache_mem a + i * element_size a := f)\<rparr>)"
  by (simp add: link_node_def Let_def)

lemma fold_link_nodes:
  assumes "0 < cache_mem a" "0 < element_size a" "free_list a = 0" "n \<le> capacity a"
  shows "\<exists>f. fold link_node [0..<n] (a, h) = (a\<lparr>free_list := f\<rparr>, h\<lparr>nxt := nxt (snd (fold link_node [0..<n] (a, h)))\<rparr>)
     \<and> chain (nxt (snd (fold link_node [0..<n] (a, h)))) f
         (rev (map (\<lambda>i. cache_mem a + i * element_size a) [0..<n]))"
  using assms(4)
proof (induction n)
  case 0
  then show ?case using assms(3) by (intro exI [of _ 0]) simp
next
  case (Suc n)
  let ?r = "fold link_node [0..<n] (a, h)"
  from Suc obtain f where f: "?r = (a\<lparr>free_list := f\<rparr>, h\<lparr>nxt := nxt (snd ?r)\<rparr>)"
    "chain (nxt (snd ?r)) f (rev (map (\<lambda>i. cache_mem a + i * element_size a) [0..<n]))" by auto
  define g where "g = nxt (snd ?r)"
  have fr: "?r = (a\<lparr>free_list := f\<rparr>, h\<lparr>nxt := g\<rparr>)" using f(1) by (simp add: g_def)
  have "cache_mem a + n * element_size a \<notin>
      set (rev (map (\<lambda>i. cache_mem a + i * element_size a) [0..<n]))" using assms(2) by auto
  with f(2) assms(1) show ?case
    unfolding g_def [symmetric] by (simp add: fr link_node_upd fun_upd_same del: fun_upd_apply)
qed

definition heap_ok :: "heap \<Rightarrow> bool" where
  "heap_ok h \<longleftrightarrow> 0 < brk h \<and> (\<forall>p \<in> dom (blocks h). 0 < p \<and> p < brk h)"

lemma create_ok:
  assumes "heap_ok h" and c: "create_cache_allocator cap esz h = s"
  shows "pool_inv s" "live s = dom (blocks h)" "mset (free_nodes s) = mset (node_list (fst s))"
    "capacity (fst s) = cap" "element_size (fst s) = max sizeof_node esz"
proof -
  let ?esz = "max sizeof_node esz"
  obtain self h1 where m1: "malloc sizeof_allocator h = (self, h1)" by (cases "malloc sizeof_allocator h")
  obtain m h2 where m2: "malloc (cap * ?esz) h1 = (m, h2)" by (cases "malloc (cap * ?esz) h1")
  let ?a = "\<lparr>self_addr = self, cache_mem = m, capacity = cap, free_list = 0, element_size = ?esz\<rparr>"
  have s: "s = fold link_node [0..<cap] (?a, h2)"
  proof -
    have "(if esz < sizeof_node then sizeof_node else esz) = ?esz" by simp
    with c m1 m2 show ?thesis by (simp only: create_cache_allocator_def prod.case Let_def)
  qed
  have e: "0 < ?esz" by (simp add: sizeof_node_def max_def)
  have h: "self = brk h" "m = brk h + 32" "brk h2 = m + max 1 (cap * ?esz)"
    "blocks h2 = (blocks h)(self \<mapsto> 32, m \<mapsto> cap * ?esz)"
    using m1 m2 by (auto simp: malloc_def sizeof_allocator_def)
  have b: "0 < brk h" "\<And>p. p \<in> dom (blocks h) \<Longrightarrow> 0 < p \<and> p < brk h"
    using assms(1) by (auto simp: heap_ok_def)
  obtain f where f: "s = (?a\<lparr>free_list := f\<rparr>, h2\<lparr>nxt := nxt (snd s)\<rparr>)"
      "chain (nxt (snd s)) f (rev (map (\<lambda>i. m + i * ?esz) [0..<cap]))"
    using fold_link_nodes [of ?a cap h2] h b e s by auto
  define g where "g = nxt (snd s)"
  have fs: "s = (?a\<lparr>free_list := f\<rparr>, h2\<lparr>nxt := g\<rparr>)" using f(1) by (simp add: g_def)
  let ?xs = "rev (node_list (fst s))"
  have nl: "node_list (fst s) = map (\<lambda>i. m + i * ?esz) [0..<cap]" by (simp add: fs node_list_def)
  have ch: "chain g f ?xs" using f(2) by (simp add: nl g_def)
  have d: "distinct ?xs" using distinct_node_list [of "fst s"] e by (simp add: fs)
  have fn: "free_nodes s = ?xs"
    using free_nodes_eq [of "snd s" "fst s" ?xs] ch d by (simp add: fs)
  show "pool_inv s"
    unfolding fs pool_inv_def prod.case
  proof (intro conjI)
    show "\<exists>xs. chain (nxt (h2\<lparr>nxt := g\<rparr>)) (free_list (?a\<lparr>free_list := f\<rparr>)) xs \<and> distinct xs \<and>
        set xs \<subseteq> set (node_list (?a\<lparr>free_list := f\<rparr>))"
      using ch d nl by (intro exI [of _ ?xs]) (simp add: fs)
    show "\<forall>p\<in>dom (blocks (h2\<lparr>nxt := g\<rparr>)). 0 < p \<and> p < brk (h2\<lparr>nxt := g\<rparr>) \<and>
        (in_region (?a\<lparr>free_list := f\<rparr>) p \<longrightarrow> p = cache_mem (?a\<lparr>free_list := f\<rparr>))"
    proof (rule ballI)
      fix p assume "p \<in> dom (blocks (h2\<lparr>nxt := g\<rparr>))"
      then consider "p = self" | "p = m" | "p \<in> dom (blocks h)"
        by (auto simp: h(4) split: if_splits)
      then have "0 < p \<and> p \<le> m \<and> m < brk h2" using h b(1) b(2) [of p] by cases auto
      then show "0 < p \<and> p < brk (h2\<lparr>nxt := g\<rparr>) \<and>
        (in_region (?a\<lparr>free_list := f\<rparr>) p \<longrightarrow> p = cache_mem (?a\<lparr>free_list := f\<rparr>))"
        by (simp add: in_region_def)
    qed
  qed (use h b in \<open>auto simp: sizeof_node_def\<close>)
  show "live s = dom (blocks h)"
  proof -
    have "self \<notin> dom (blocks h)" "m \<notin> dom (blocks h)" using b(2) h by fastforce+
    then have "dom (blocks h2) - {m, self} = dom (blocks h)" by (auto simp: h(4))
    then show ?thesis using fn by (simp add: live_def fs)
  qed
  show "mset (free_nodes s) = mset (node_list (fst s))" using fn by simp
  show "capacity (fst s) = cap" "element_size (fst s) = max sizeof_node esz" by (simp_all add: fs)
qed

section \<open>The interface: a block pool\<close>

text \<open>Any sequence of requests, and any sequence of returns, through given operations.\<close>

fun alloc_all :: "(nat \<Rightarrow> 's \<Rightarrow> addr \<times> 's) \<Rightarrow> nat list \<Rightarrow> 's \<Rightarrow> addr list \<times> 's" where
  "alloc_all alloc [] s = ([], s)"
| "alloc_all alloc (n # ns) s =
     (case alloc n s of (p, s) \<Rightarrow> (case alloc_all alloc ns s of (ps, s) \<Rightarrow> (p # ps, s)))"

fun dealloc_all :: "(addr \<Rightarrow> 's \<Rightarrow> 's option) \<Rightarrow> addr list \<Rightarrow> 's \<Rightarrow> 's option" where
  "dealloc_all dealloc [] s = Some s"
| "dealloc_all dealloc (p # ps) s =
     (case dealloc p s of None \<Rightarrow> None | Some s \<Rightarrow> dealloc_all dealloc ps s)"


text \<open>
  What every user of an allocator relies on: a fresh, non-null block from \<open>alloc\<close>, and a
  \<open>dealloc\<close> that is defined on every block the client owns and gives it back.
\<close>

text \<open>
  What a pool promises: a set of owned blocks; a request returns a block that is not owned and not
  null, and a free gives an owned block back. \<open>pool_spec\<close> relates requests, the
  blocks returned and the sets before and after; \<open>pool_run\<close> is the same for an implementation.
\<close>

datatype pool_op = Alloc nat | Free addr

inductive pool_spec :: "addr set \<Rightarrow> pool_op list \<Rightarrow> addr list \<Rightarrow> addr set \<Rightarrow> bool" where
  spec_done: "pool_spec S [] [] S"
| spec_alloc: "p \<notin> S \<Longrightarrow> p \<noteq> 0 \<Longrightarrow> pool_spec (insert p S) ops outs S' \<Longrightarrow> pool_spec S (Alloc n # ops) (p # outs) S'"
| spec_free: "p \<in> S \<Longrightarrow> pool_spec (S - {p}) ops outs S' \<Longrightarrow> pool_spec S (Free p # ops) outs S'"

inductive_simps pool_spec_simps [simp]:
  "pool_spec S [] outs S'" "pool_spec S (Alloc n # ops) outs S'" "pool_spec S (Free p # ops) outs S'"

fun pool_run :: "(nat \<Rightarrow> 's \<Rightarrow> addr \<times> 's) \<Rightarrow> (addr \<Rightarrow> 's \<Rightarrow> 's option) \<Rightarrow> pool_op list \<Rightarrow> 's \<Rightarrow>
    (addr list \<times> 's) option" where
  "pool_run alloc dealloc [] s = Some ([], s)"
| "pool_run alloc dealloc (Alloc n # ops) s =
     (let (p, s') = alloc n s in map_option (\<lambda>(outs, t). (p # outs, t)) (pool_run alloc dealloc ops s'))"
| "pool_run alloc dealloc (Free p # ops) s = (case dealloc p s of None \<Rightarrow> None | Some s' \<Rightarrow> pool_run alloc dealloc ops s')"

text \<open>Every free of the sequence names a block that is owned when its turn comes.\<close>

fun frees_owned :: "(nat \<Rightarrow> 's \<Rightarrow> addr \<times> 's) \<Rightarrow> (addr \<Rightarrow> 's \<Rightarrow> 's option) \<Rightarrow> ('s \<Rightarrow> addr set) \<Rightarrow>
    pool_op list \<Rightarrow> 's \<Rightarrow> bool" where
  "frees_owned alloc dealloc owned [] s \<longleftrightarrow> True"
| "frees_owned alloc dealloc owned (Alloc n # ops) s \<longleftrightarrow> frees_owned alloc dealloc owned ops (snd (alloc n s))"
| "frees_owned alloc dealloc owned (Free p # ops) s \<longleftrightarrow>
     p \<in> owned s \<and> (case dealloc p s of None \<Rightarrow> False | Some s' \<Rightarrow> frees_owned alloc dealloc owned ops s')"

locale block_pool =
  fixes alloc :: "nat \<Rightarrow> 's \<Rightarrow> addr \<times> 's"
    and dealloc :: "addr \<Rightarrow> 's \<Rightarrow> 's option"
    and owned :: "'s \<Rightarrow> addr set"
    and invar :: "'s \<Rightarrow> bool"
  assumes alloc_invar: "invar s \<Longrightarrow> alloc n s = (p, s') \<Longrightarrow> invar s'"
    and alloc_fresh: "invar s \<Longrightarrow> alloc n s = (p, s') \<Longrightarrow> p \<notin> owned s \<and> p \<noteq> 0"
    and alloc_owned: "invar s \<Longrightarrow> alloc n s = (p, s') \<Longrightarrow> owned s' = insert p (owned s)"
    and dealloc_ok: "invar s \<Longrightarrow> p \<in> owned s \<Longrightarrow>
      \<exists>s'. dealloc p s = Some s' \<and> invar s' \<and> owned s' = owned s - {p}"
begin

lemma alloc_all_ok:
  assumes "invar s" "alloc_all alloc ns s = (ps, s')"
  shows "invar s' \<and> distinct ps \<and> set ps \<inter> owned s = {} \<and> owned s' = set ps \<union> owned s \<and>
    length ps = length ns \<and> 0 \<notin> set ps"
  using assms
proof (induction ns arbitrary: s ps)
  case Nil
  then show ?case by simp
next
  case (Cons n ns)
  obtain p s1 where a: "alloc n s = (p, s1)" by (cases "alloc n s")
  obtain qs where q: "alloc_all alloc ns s1 = (qs, s')" "ps = p # qs"
    using Cons.prems(2) a by (cases "alloc_all alloc ns s1") auto
  note s1 = alloc_invar [OF Cons.prems(1) a] alloc_fresh [OF Cons.prems(1) a]
    alloc_owned [OF Cons.prems(1) a]
  from Cons.IH [OF s1(1) q(1)] show ?case using s1(2,3) q(2) by auto
qed

lemma run_refines:
  assumes "invar s" "frees_owned alloc dealloc owned ops s"
  shows "\<exists>outs s'. pool_run alloc dealloc ops s = Some (outs, s') \<and> invar s' \<and>
    pool_spec (owned s) ops outs (owned s')"
  using assms
proof (induction ops arbitrary: s)
  case (Cons op ops)
  show ?case
  proof (cases op)
    case (Alloc n)
    obtain p s1 where a: "alloc n s = (p, s1)" by (cases "alloc n s")
    note s1 = alloc_invar [OF Cons.prems(1) a] alloc_fresh [OF Cons.prems(1) a] alloc_owned [OF Cons.prems(1) a]
    have "frees_owned alloc dealloc owned ops s1" using Cons.prems(2) Alloc a by simp
    from Cons.IH [OF s1(1) this] show ?thesis using s1(2,3) Alloc a by auto
  next
    case (Free p)
    with Cons.prems(2) have p: "p \<in> owned s" by simp
    from dealloc_ok [OF Cons.prems(1) p] obtain s1 where s1: "dealloc p s = Some s1" "invar s1" "owned s1 = owned s - {p}"
      by blast
    with Cons.IH [OF s1(2)] Cons.prems(2) Free p show ?thesis by auto
  qed
qed simp

lemma dealloc_all_ok:
  assumes "invar s" "set ps \<subseteq> owned s" "distinct ps"
  shows "\<exists>s'. dealloc_all dealloc ps s = Some s' \<and> invar s' \<and> owned s' = owned s - set ps"
  using assms
proof (induction ps arbitrary: s)
  case Nil
  then show ?case by simp
next
  case (Cons p ps)
  from Cons.prems obtain s1 where s1: "dealloc p s = Some s1" "invar s1" "owned s1 = owned s - {p}"
    using dealloc_ok [of s p] by auto
  with Cons.prems have "set ps \<subseteq> owned s1" "distinct ps" by auto
  with Cons.IH [OF s1(2)] s1 show ?case by fastforce
qed

lemma alloc_dealloc_balanced:
  assumes "invar s" "alloc_all alloc ns s = (ps, s')" "mset qs = mset ps"
  shows "\<exists>s''. dealloc_all dealloc qs s' = Some s'' \<and> invar s'' \<and> owned s'' = owned s"
proof -
  note A = alloc_all_ok [OF assms(1,2)]
  have "set qs = set ps" "distinct qs"
    using assms(3) A mset_eq_setD mset_eq_imp_distinct_iff by blast+
  with A dealloc_all_ok [of s' qs] show ?thesis by auto
qed

end

interpretation cache: block_pool cache_alloc cache_free live pool_inv
  by unfold_locales (blast dest: cache_alloc_ok cache_free_ok)+

section \<open>utils/small_alloc.c\<close>

text \<open>\<open>SMALL_ELEM_COUNT\<close> is \<open>1024 * 10\<close>, \<open>SMALL_ELEM_SIZE\<close> is 128. The state is the
  static pointer \<open>small_allocator\<close> (\<open>None\<close> is NULL) and the heap it draws from.\<close>

definition small_elem_count :: nat where "small_elem_count = 1024 * 10"
definition small_elem_size :: nat where "small_elem_size = 128"

type_synonym small_state = "cache_allocator option \<times> heap"

definition small_ready :: "small_state \<Rightarrow> cache_allocator \<times> heap" where
  "small_ready s = (case s of
     (None, h) \<Rightarrow> create_cache_allocator small_elem_count small_elem_size h
   | (Some a, h) \<Rightarrow> (a, h))"

definition small_alloc :: "nat \<Rightarrow> small_state \<Rightarrow> addr \<times> small_state" where
  "small_alloc n s = (case cache_alloc n (small_ready s) of (p, a, h) \<Rightarrow> (p, Some a, h))"

definition small_free :: "addr \<Rightarrow> small_state \<Rightarrow> small_state option" where
  "small_free p s = map_option (\<lambda>(a, h). (Some a, h)) (cache_free p (small_ready s))"

definition small_inv :: "small_state \<Rightarrow> bool" where
  "small_inv s = (case s of (None, h) \<Rightarrow> heap_ok h | (Some a, h) \<Rightarrow> pool_inv (a, h))"

definition small_live :: "small_state \<Rightarrow> addr set" where
  "small_live s = (case s of (None, h) \<Rightarrow> dom (blocks h) | (Some a, h) \<Rightarrow> live (a, h))"

lemma small_ready_ok: "small_inv s \<Longrightarrow> pool_inv (small_ready s) \<and> live (small_ready s) = small_live s"
  by (auto simp: small_inv_def small_ready_def small_live_def create_ok split: prod.splits option.splits)

interpretation small: block_pool small_alloc small_free small_live small_inv
proof unfold_locales
  fix s n p s' assume inv: "small_inv s" and al: "small_alloc n s = (p, s')"
  obtain q a h where c: "cache_alloc n (small_ready s) = (q, a, h)"
    by (cases "cache_alloc n (small_ready s)") auto
  with al have r: "p = q" "s' = (Some a, h)" by (simp_all add: small_alloc_def)
  note R = small_ready_ok [OF inv] and C = cache_alloc_ok [OF _ c]
  show "small_inv s'" using R C by (simp add: r small_inv_def)
  show "p \<notin> small_live s \<and> p \<noteq> 0" using R C by (simp add: r)
  show "small_live s' = insert p (small_live s)" using R C by (simp add: r small_live_def)
next
  fix s p assume inv: "small_inv s" and p: "p \<in> small_live s"
  note R = small_ready_ok [OF inv]
  with p obtain a h where "cache_free p (small_ready s) = Some (a, h)" "pool_inv (a, h)"
    "live (a, h) = small_live s - {p}" using cache_free_ok [of "small_ready s" p] by auto
  then show "\<exists>s'. small_free p s = Some s' \<and> small_inv s' \<and> small_live s' = small_live s - {p}"
    by (intro exI [of _ "(Some a, h)"]) (simp add: small_free_def small_inv_def small_live_def)
qed

section \<open>Properties\<close>

text \<open>While the free list is not exhausted, requests that fit are served from it: no
  \<open>malloc\<close>, one free block less.\<close>

lemma cache_alloc_pooled:
  assumes inv: "pool_inv (a, h)" and n: "n \<le> element_size a" and ne: "free_nodes (a, h) \<noteq> []"
    and al: "cache_alloc n (a, h) = (p, a', h')"
  shows "p \<in> set (node_list a)" "h' = h" "pool_inv (a', h')"
    "length (free_nodes (a', h')) + 1 = length (free_nodes (a, h))"
    "node_list a' = node_list a" "element_size a' = element_size a"
proof -
  obtain xs where xs: "free_nodes (a, h) = xs" "chain (nxt h) (free_list a) xs" "distinct xs"
    "set xs \<subseteq> set (node_list a)" using inv by (rule pool_invE)
  with ne obtain ys where ys: "xs = free_list a # ys" "free_list a \<noteq> 0"
    "chain (nxt h) (nxt h (free_list a)) ys" by (cases xs) auto
  have r: "p = free_list a" "a' = a\<lparr>free_list := nxt h (free_list a)\<rparr>" "h' = h"
    using al n ys(2) by (auto simp: cache_alloc_def)
  have new: "pool_inv (a', h')" "free_nodes (a', h') = ys"
    using pool_invI [OF inv ys(3)] xs(3,4) ys(1) unfolding r by auto
  show "p \<in> set (node_list a)" "h' = h" "pool_inv (a', h')"
    "length (free_nodes (a', h')) + 1 = length (free_nodes (a, h))"
    "node_list a' = node_list a" "element_size a' = element_size a"
    using new xs(1,4) ys(1) r by auto
qed

lemma alloc_all_pooled:
  assumes "pool_inv (a, h)" "\<forall>n \<in> set ns. n \<le> element_size a"
    "length ns \<le> length (free_nodes (a, h))" "alloc_all cache_alloc ns (a, h) = (ps, a', h')"
  shows "set ps \<subseteq> set (node_list a) \<and> h' = h"
  using assms
proof (induction ns arbitrary: a h ps)
  case Nil
  then show ?case by simp
next
  case (Cons n ns)
  obtain p a1 h1 where c: "cache_alloc n (a, h) = (p, a1, h1)" by (cases "cache_alloc n (a, h)") auto
  obtain qs where q: "alloc_all cache_alloc ns (a1, h1) = (qs, a', h')" "ps = p # qs"
    using Cons.prems(4) c by (cases "alloc_all cache_alloc ns (a1, h1)") auto
  have ne: "free_nodes (a, h) \<noteq> []" using Cons.prems(3) by auto
  note P = cache_alloc_pooled [OF Cons.prems(1) _ ne c]
  have "set qs \<subseteq> set (node_list a1) \<and> h' = h1"
    using Cons.IH [OF P(3) _ _ q(1)] P Cons.prems(2,3) by auto
  then show ?case using P Cons.prems(2) q(2) by auto
qed

text \<open>Starting from a freshly created allocator, any sequence of
  \<open>cache_alloc\<close> requests yields pairwise distinct non-null blocks, and handing them back
  through \<open>cache_free\<close> in any order is defined and leaves the client owning nothing new:
  no block is lost, none is handed out twice.\<close>

theorem cache_alloc_balanced:
  assumes "heap_ok h" "create_cache_allocator cap esz h = s"
    "alloc_all cache_alloc ns s = (ps, s')" "mset qs = mset ps"
  shows "distinct ps \<and> 0 \<notin> set ps \<and> set ps \<inter> dom (blocks h) = {} \<and>
    (\<exists>s''. dealloc_all cache_free qs s' = Some s'' \<and> live s'' = dom (blocks h))"
  using create_ok [OF assms(1,2)] cache.alloc_all_ok [OF _ assms(3)]
    cache.alloc_dealloc_balanced [OF _ assms(3,4)] by auto

theorem cache_alloc_balanced_witness:
  "\<exists>s''. dealloc_all cache_free [40, 120, 56]
      (snd (alloc_all cache_alloc [64, 4, 100] (create_cache_allocator 1 16 empty_heap))) = Some s''
    \<and> live s'' = {}"
proof -
  let ?s = "create_cache_allocator 1 16 empty_heap"
  have ok: "heap_ok empty_heap" by (simp add: heap_ok_def empty_heap_def)
  have al: "alloc_all cache_alloc [64, 4, 100] ?s =
      ([56, 40, 120], snd (alloc_all cache_alloc [64, 4, 100] ?s))"
    by (simp add: prod_eq_iff) code_simp
  show ?thesis
    using cache_alloc_balanced [OF ok refl al, of "[40, 120, 56]"] by (simp add: empty_heap_def add_mset_commute)
qed

text \<open>As long as every request fits the element size and there are at most
  \<open>capacity\<close> of them, a fresh allocator serves all of them from its own region and never
  falls back to \<open>malloc\<close> (the heap is unchanged).\<close>

theorem cache_alloc_no_malloc:
  assumes "heap_ok h" "create_cache_allocator cap esz h = (a, h1)"
    "\<forall>n \<in> set ns. n \<le> esz" "length ns \<le> cap" "alloc_all cache_alloc ns (a, h1) = (ps, a', h')"
  shows "set ps \<subseteq> set (node_list a) \<and> h' = h1"
proof -
  note C = create_ok [OF assms(1,2)]
  have "length (free_nodes (a, h1)) = length (node_list a)"
    using C(3) by (metis fst_conv size_mset)
  moreover have "\<forall>n \<in> set ns. n \<le> element_size a" using assms(3) C(5) by auto
  ultimately show ?thesis using alloc_all_pooled [OF C(1) _ _ assms(5)] assms(4) C(4) by simp
qed

theorem cache_alloc_no_malloc_witness:
  "set [72, 56, 40 :: nat] \<subseteq> set (node_list (fst (create_cache_allocator 3 16 empty_heap)))"
proof -
  let ?s = "create_cache_allocator 3 16 empty_heap"
  let ?r = "alloc_all cache_alloc [16, 4, 10] ?s"
  have ok: "heap_ok empty_heap" by (simp add: heap_ok_def empty_heap_def)
  have s: "?s = (fst ?s, snd ?s)" by simp
  have f: "fst ?r = [72, 56, 40]" by code_simp
  have al: "alloc_all cache_alloc [16, 4, 10] (fst ?s, snd ?s) =
      ([72, 56, 40], fst (snd ?r), snd (snd ?r))"
    using f by (simp add: prod_eq_iff)
  show ?thesis using cache_alloc_no_malloc [OF ok s _ _ al] by simp
qed

text \<open>C29 (refinement): every sequence of requests and frees that only frees blocks it owns runs on the small
  allocator without undefined behaviour and is a run of the abstract pool: the blocks returned are
  the ones the set of live blocks allows, and the states correspond throughout.\<close>

theorem small_alloc_refines:
  assumes "small_inv s" "frees_owned small_alloc small_free small_live ops s"
  shows "\<exists>outs s'. pool_run small_alloc small_free ops s = Some (outs, s') \<and> small_inv s' \<and>
    pool_spec (small_live s) ops outs (small_live s')"
  using assms by (rule small.run_refines)

theorem small_alloc_refines_witness:
  "\<exists>p outs s'. pool_run small_alloc small_free [Alloc 8, Free p, Alloc 300] (None, empty_heap) = Some (p # outs, s') \<and>
     pool_spec {} [Alloc 8, Free p, Alloc 300] (p # outs) (small_live s')"
proof -
  let ?s = "(None, empty_heap) :: small_state"
  obtain p s1 where a: "small_alloc 8 ?s = (p, s1)" by (cases "small_alloc 8 ?s") auto
  have inv: "small_inv ?s" by (simp add: small_inv_def heap_ok_def empty_heap_def)
  have "p \<in> small_live s1" using small.alloc_owned [OF inv a] by simp
  moreover from small.dealloc_ok [OF small.alloc_invar [OF inv a] this]
  obtain s2 where "small_free p s1 = Some s2" by blast
  ultimately have "frees_owned small_alloc small_free small_live [Alloc 8, Free p, Alloc 300] ?s"
    using a by simp
  from small_alloc_refines [OF inv this] obtain outs s' where
    run: "pool_run small_alloc small_free [Alloc 8, Free p, Alloc 300] ?s = Some (outs, s')"
    and spec: "pool_spec (small_live ?s) [Alloc 8, Free p, Alloc 300] outs (small_live s')" by blast
  obtain outs' where "outs = p # outs'" using run a by auto
  moreover have "small_live ?s = {}" by (simp add: small_live_def empty_heap_def)
  ultimately show ?thesis using run spec by metis
qed

end
