(* ===== verification/Tcp_Protocol.thy ===== *)
theory Tcp_Protocol
  imports Cache_Alloc
begin

text \<open>
  netbus/tcp_protocol.cc: a two-byte little-endian payload length in front of every TCP
  package. A package buffer is taken from \<open>wbuf_allocator\<close>; the functions return its
  address, its contents and the allocator's new state.
\<close>

type_synonym pool = "cache_allocator \<times> heap"

section \<open>TCPProtocol\<close>

definition tcp_read_header :: "byte list \<Rightarrow> int \<Rightarrow> header_result option" where
  "tcp_read_header data data_len =
     (if data_len < 2 then Some No_Header
      else do {
        b0 \<leftarrow> rd data 0;
        b1 \<leftarrow> rd data 1;
        Some (Header 2 (le16 b0 b1)) })"

definition tcp_frame :: "byte list \<Rightarrow> byte list" where
  "tcp_frame data =
     (let data_len = int (length data)
      in header_byte data_len # header_byte (drop_bit 8 data_len) # data)"

definition tcp_package :: "byte list \<Rightarrow> pool \<Rightarrow> addr \<times> byte list \<times> pool" where
  "tcp_package data wbuf =
     (case cache_alloc (length data + 2) wbuf of (p, wbuf) \<Rightarrow> (p, tcp_frame data, wbuf))"

definition tcp_free_package :: "addr \<Rightarrow> pool \<Rightarrow> pool option" where
  "tcp_free_package p wbuf = cache_free p wbuf"

section \<open>Lemmas\<close>

lemma length_tcp_frame [simp]: "length (tcp_frame data) = length data + 2"
  by (simp add: tcp_frame_def Let_def)

lemma tcp_frame_header:
  "tcp_read_header (tcp_frame data @ rest) n =
     Some (if n < 2 then No_Header else Header 2 (int (length data) mod 65536))"
  by (simp add: tcp_read_header_def tcp_frame_def Let_def rd_def header_byte_def le16_split)

lemma tcp_frame_drop [simp]: "drop 2 (tcp_frame data @ rest) = data @ rest"
  by (simp add: tcp_frame_def Let_def)

lemma tcp_read_header_bounds:
  "tcp_read_header data n = Some (Header h b) \<Longrightarrow> h = 2 \<and> 0 \<le> b \<and> b < 65536 \<and> 2 \<le> n"
  using le16_bounds by (auto simp: tcp_read_header_def bind_eq_Some_conv split: if_splits)

lemma tcp_read_header_defined: "n \<le> int (length data) \<Longrightarrow> tcp_read_header data n \<noteq> None"
  by (auto simp: tcp_read_header_def rd_def)

text \<open>The header depends on the first two bytes only.\<close>

lemma tcp_read_header_cong:
  assumes "take 2 data = take 2 data'" "n \<le> int (length data)" "n \<le> int (length data')"
  shows "tcp_read_header data n = tcp_read_header data' n"
proof (cases "n < 2")
  case True
  then show ?thesis by (simp add: tcp_read_header_def)
next
  case False
  then have l: "2 \<le> length data" "2 \<le> length data'" using assms(2,3) by linarith+
  have "data ! i = data' ! i" if "i < 2" for i using assms(1) that by (metis nth_take)
  moreover have "0 < length data" "1 < length data" "0 < length data'" "1 < length data'"
    using l by linarith+
  ultimately show ?thesis using False by (simp add: tcp_read_header_def rd_def del: length_greater_0_conv)
qed

text \<open>C34 (roundtrip): a receiver that reads the header of a package built by
  \<open>TCPProtocol::package\<close> gets back the payload length, and the payload follows the header,
  exactly when the payload is at most 65535 bytes long; a longer one is announced modulo
  65536.\<close>

theorem tcp_package_roundtrip:
  assumes "tcp_package data wbuf = (p, bytes, wbuf')"
  shows "\<exists>b. tcp_read_header bytes (int (length bytes)) = Some (Header 2 b) \<and>
    b = int (length data) mod 65536 \<and> drop 2 bytes = data \<and>
    (b = int (length data) \<longleftrightarrow> length data \<le> 65535)"
proof -
  have f: "bytes = tcp_frame data" using assms by (auto simp: tcp_package_def split: prod.splits)
  have "drop 2 bytes = data" using tcp_frame_drop [of data "[]"] by (simp add: f)
  moreover have "int (length data) mod 65536 = int (length data) \<longleftrightarrow> length data \<le> 65535"
    using pos_mod_bound [of 65536 "int (length data)"] by (auto simp: mod_pos_pos_trivial)
  ultimately show ?thesis
    using tcp_frame_header [of data "[]" "int (length bytes)"] by (simp add: f)
qed

theorem tcp_package_roundtrip_witness:
  "tcp_read_header (tcp_frame [7, 8, 9]) 5 = Some (Header 2 3)"
proof -
  let ?s = "create_cache_allocator 1 16 empty_heap"
  obtain p b w where t: "tcp_package [7, 8, 9] ?s = (p, b, w)" by (cases "tcp_package [7, 8, 9] ?s") auto
  then have "b = tcp_frame [7, 8, 9]" by (auto simp: tcp_package_def split: prod.splits)
  with tcp_package_roundtrip [OF t] show ?thesis by auto
qed

end
