(* ===== verification/Ws_Frame.thy ===== *)
theory Ws_Frame
  imports Tcp_Protocol
begin

text \<open>
  netbus/ws_protocol.cc, the data frames: reading the header of a masked client frame,
  unmasking its payload in place, and building the server's binary frame. The handshake is
  in theory Ws_Handshake.
\<close>

section \<open>WSProtocol: frames\<close>

text \<open>\<open>data[2] << 56 | \<dots>\<close>: the eight-byte length. Each byte is promoted to \<open>int\<close>, so the
  shifts by 56, 48, 40 and 32 are undefined.\<close>

definition ws_long_len :: "byte list \<Rightarrow> int option" where
  "ws_long_len data = do {
     b2 \<leftarrow> rd data 2; x2 \<leftarrow> shl32 (uint b2) 56;
     b3 \<leftarrow> rd data 3; x3 \<leftarrow> shl32 (uint b3) 48;
     b4 \<leftarrow> rd data 4; x4 \<leftarrow> shl32 (uint b4) 40;
     b5 \<leftarrow> rd data 5; x5 \<leftarrow> shl32 (uint b5) 32;
     b6 \<leftarrow> rd data 6; x6 \<leftarrow> shl32 (uint b6) 24;
     b7 \<leftarrow> rd data 7; x7 \<leftarrow> shl32 (uint b7) 16;
     b8 \<leftarrow> rd data 8; x8 \<leftarrow> shl32 (uint b8) 8;
     b9 \<leftarrow> rd data 9;
     Some (x2 OR x3 OR x4 OR x5 OR x6 OR x7 OR x8 OR uint b9) }"

definition read_ws_header :: "byte list \<Rightarrow> int \<Rightarrow> header_result option" where
  "read_ws_header data len = do {
     b0 \<leftarrow> rd data 0;
     if b0 \<noteq> 0x81 \<and> b0 \<noteq> 0x82 then Some No_Header
     else if len < 6 then Some No_Header
     else do {
       b1 \<leftarrow> rd data 1;
       let data_len = uint b1 AND 0x7f;
       if data_len = 0x7e then
         (if len < 8 then Some No_Header
          else do { b2 \<leftarrow> rd data 2; b3 \<leftarrow> rd data 3; Some (Header 8 (le16 b3 b2)) })
       else if data_len = 0x7f then
         (if len < 14 then Some No_Header
          else do { n \<leftarrow> ws_long_len data; Some (Header 14 n) })
       else Some (Header 6 data_len) } }"

text \<open>\<open>payload[i] ^= mask[i % 4]\<close> with \<open>mask = payload - 4\<close>, over the whole payload.\<close>

definition unmask_byte :: "nat \<Rightarrow> nat \<Rightarrow> byte list \<Rightarrow> byte list" where
  "unmask_byte head i data = data[head + i := data ! (head + i) XOR data ! (head - 4 + i mod 4)]"

definition parse_ws_recv_data :: "byte list \<Rightarrow> nat \<Rightarrow> nat \<Rightarrow> byte list option" where
  "parse_ws_recv_data data head_size payload_size =
     (if payload_size = 0 then Some data
      else if 4 \<le> head_size \<and> head_size + payload_size \<le> length data
      then Some (fold (unmask_byte head_size) [0..<payload_size] data)
      else None)"

text \<open>The header of the server's frame. \<open>head_len\<close> is computed with other bounds than the
  bytes are written with; at 65535 bytes and above the code shifts an \<open>int\<close> by 56.\<close>

definition ws_head_len :: "int \<Rightarrow> nat" where
  "ws_head_len len = (if len > 65535 then 2 + 8 else if len > 125 then 2 + 2 else 2)"

definition ws_header_bytes :: "int \<Rightarrow> byte list option" where
  "ws_header_bytes len =
     (if len < 126 then Some [0x82, to_byte len]
      else if len < 65535 then do {
        hi \<leftarrow> shr32 len 8;
        Some [0x82, 126, header_byte hi, header_byte len] }
      else do {
        x2 \<leftarrow> shr32 len 56; x3 \<leftarrow> shr32 len 48; x4 \<leftarrow> shr32 len 40; x5 \<leftarrow> shr32 len 32;
        x6 \<leftarrow> shr32 len 24; x7 \<leftarrow> shr32 len 16; x8 \<leftarrow> shr32 len 8;
        Some [0x82, 127, header_byte x2, header_byte x3, header_byte x4, header_byte x5,
          header_byte x6, header_byte x7, header_byte x8, header_byte len] })"

text \<open>The frame is the header, cut at \<open>head_len\<close> where \<open>memcpy\<close> writes the payload.\<close>

definition package_ws_send_data :: "byte list \<Rightarrow> pool \<Rightarrow> (addr \<times> byte list \<times> pool) option" where
  "package_ws_send_data data wbuf =
     (let len = int (length data); head_len = ws_head_len len
      in case cache_alloc (length data + head_len) wbuf of (p, wbuf) \<Rightarrow> do {
           h \<leftarrow> ws_header_bytes len;
           Some (p, take head_len h @ data, wbuf) })"

definition free_ws_package :: "addr \<Rightarrow> pool \<Rightarrow> pool option" where
  "free_ws_package p wbuf = cache_free p wbuf"

section \<open>What a peer sends and expects (RFC 6455)\<close>

text \<open>A masked client data frame with a payload below 64 KiB: FIN, opcode 1 or 2, the length
  in 7 or 16 bits, the mask, the masked payload.\<close>

definition mask_payload :: "byte list \<Rightarrow> byte list \<Rightarrow> byte list" where
  "mask_payload key p = map (\<lambda>i. p ! i XOR key ! (i mod 4)) [0..<length p]"

definition client_header :: "byte \<Rightarrow> byte list \<Rightarrow> nat \<Rightarrow> byte list" where
  "client_header op key n =
     (if n < 126 then [op, to_byte (128 + int n)]
      else [op, 254, header_byte (int n div 256), header_byte (int n)]) @ key"

definition client_frame :: "byte \<Rightarrow> byte list \<Rightarrow> byte list \<Rightarrow> byte list" where
  "client_frame op key p = client_header op key (length p) @ mask_payload key p"

text \<open>How a client reads an unmasked server frame: opcode, payload, remaining bytes.\<close>

definition client_read :: "byte list \<Rightarrow> (byte \<times> byte list \<times> byte list) option" where
  "client_read f = (case f of
     op # l # r \<Rightarrow>
       if uint l < 126
       then (if nat (uint l) \<le> length r
             then Some (op, take (nat (uint l)) r, drop (nat (uint l)) r) else None)
       else if l = 126
       then (case r of hi # lo # r \<Rightarrow>
               (let n = nat (256 * uint hi + uint lo)
                in if n \<le> length r then Some (op, take n r, drop n r) else None)
             | _ \<Rightarrow> None)
       else None
   | _ \<Rightarrow> None)"

section \<open>Lemmas\<close>

lemma and_127: "(x::int) AND 127 = x mod 128"
  using take_bit_eq_mask [of 7 x] by (simp add: take_bit_eq_mod mask_eq_exp_minus_1)

lemma length_fold_unmask [simp]: "length (fold (unmask_byte h) is d) = length d"
  by (induction "is" arbitrary: d) (auto simp: unmask_byte_def)

lemma unmask_byte_nth:
  "unmask_byte h i d ! j = (if j = h + i \<and> j < length d
     then d ! (h + i) XOR d ! (h - 4 + i mod 4) else d ! j)"
  by (cases "j = h + i") (auto simp: unmask_byte_def nth_list_update list_update_beyond)

lemma fold_unmask_nth:
  assumes "4 \<le> h" "h + n \<le> length d" "j < length d"
  shows "fold (unmask_byte h) [0..<n] d ! j =
    (if h \<le> j \<and> j < h + n then d ! j XOR d ! (h - 4 + (j - h) mod 4) else d ! j)"
  using assms
proof (induction n arbitrary: j)
  case 0
  then show ?case by auto
next
  case (Suc n)
  let ?r = "fold (unmask_byte h) [0..<n] d"
  have step: "fold (unmask_byte h) [0..<Suc n] d = unmask_byte h n ?r" by simp
  have m: "n mod 4 < 4" by simp
  have "h - 4 + n mod 4 < h" using m Suc.prems(1) by linarith
  then have k: "?r ! (h - 4 + n mod 4) = d ! (h - 4 + n mod 4)"
    using Suc.IH [of "h - 4 + n mod 4"] Suc.prems(1,2) by simp
  have r: "?r ! (h + n) = d ! (h + n)" using Suc.IH [of "h + n"] Suc.prems(1,2) by simp
  show ?case
    unfolding step unmask_byte_nth k r using Suc.IH [of j] Suc.prems by auto
qed

lemma fold_unmask_eq:
  assumes "4 \<le> h" "h + n \<le> length d"
  shows "fold (unmask_byte h) [0..<n] d =
    take h d @ mask_payload (take 4 (drop (h - 4) d)) (take n (drop h d)) @ drop (h + n) d"
proof (rule nth_equalityI)
  show "length (fold (unmask_byte h) [0..<n] d) = length (take h d @
      mask_payload (take 4 (drop (h - 4) d)) (take n (drop h d)) @ drop (h + n) d)"
    using assms by (simp add: mask_payload_def)
next
  fix j assume "j < length (fold (unmask_byte h) [0..<n] d)"
  then have j: "j < length d" by simp
  show "fold (unmask_byte h) [0..<n] d ! j = (take h d @
      mask_payload (take 4 (drop (h - 4) d)) (take n (drop h d)) @ drop (h + n) d) ! j"
    using assms j by (auto simp: fold_unmask_nth mask_payload_def nth_append)
qed

lemma length_mask_payload [simp]: "length (mask_payload key p) = length p"
  by (simp add: mask_payload_def)

lemma mask_payload_involution [simp]: "mask_payload key (mask_payload key p) = p"
  by (rule nth_equalityI) (simp_all add: mask_payload_def xor.assoc)

lemma parse_ws_recv_data_eq:
  assumes "4 \<le> h" "h + n \<le> length d"
  shows "parse_ws_recv_data d h n = Some (take h d @
    mask_payload (take 4 (drop (h - 4) d)) (take n (drop h d)) @ drop (h + n) d)"
  using assms fold_unmask_eq [OF assms] by (auto simp: parse_ws_recv_data_def mask_payload_def)

lemma length_parse_ws: "parse_ws_recv_data d h n = Some d' \<Longrightarrow> length d' = length d"
  by (auto simp: parse_ws_recv_data_def split: if_splits)

definition client_head_len :: "nat \<Rightarrow> nat" where
  "client_head_len n = (if n < 126 then 6 else 8)"

lemma length_client_header [simp]:
  "length key = 4 \<Longrightarrow> length (client_header op key n) = client_head_len n"
  by (simp add: client_header_def client_head_len_def)

lemma client_header_key:
  "length key = 4 \<Longrightarrow> drop (client_head_len n - 4) (client_header op key n) = key"
  by (simp add: client_header_def client_head_len_def)

lemma length_client_frame [simp]:
  "length key = 4 \<Longrightarrow> length (client_frame op key p) = client_head_len (length p) + length p"
  by (simp add: client_frame_def)

lemma uint_to_byte_small: "0 \<le> x \<Longrightarrow> x < 256 \<Longrightarrow> uint (to_byte x) = x"
  by (simp add: uint_to_byte)

lemma len7: "n < 126 \<Longrightarrow> uint (to_byte (128 + int n)) AND 127 = int n"
  by (simp add: uint_to_byte_small and_127)

lemma len16: "n \<le> 65535 \<Longrightarrow> le16 (header_byte (int n)) (header_byte (int n div 256)) = int n"
  using le16_split [of "int n"] by (simp add: header_byte_def drop_bit_eq_div)

lemma read_client_header:
  assumes "op = 0x81 \<or> op = 0x82" "length key = 4" "n \<le> 65535"
  shows "read_ws_header (client_header op key n @ rest) len =
    Some (if len < int (client_head_len n) then No_Header
          else Header (int (client_head_len n)) (int n))"
proof (cases "n < 126")
  case True
  then have "int n \<noteq> 126" "int n \<noteq> 127" by simp_all
  then show ?thesis using assms True len7 [OF True]
    by (auto simp: read_ws_header_def client_header_def client_head_len_def rd_def)
next
  case False
  have "(254 :: int) AND 127 = 126" by (simp add: and_127)
  then show ?thesis using assms False len16 [OF assms(3)]
    by (auto simp: read_ws_header_def client_header_def client_head_len_def rd_def)
qed

lemma read_ws_header_bounds:
  assumes "read_ws_header d n = Some (Header h b)"
  shows "h = 6 \<and> 0 \<le> b \<and> b < 126 \<or> h = 8 \<and> 0 \<le> b \<and> b < 65536"
proof -
  have "0 \<le> uint (x :: byte) AND 127" "uint (x :: byte) AND 127 < 128" for x
    by (simp_all add: and_127)
  then have *: "uint (x :: byte) AND 127 \<noteq> 126 \<Longrightarrow> uint x AND 127 \<noteq> 127 \<Longrightarrow>
      0 \<le> uint x AND 127 \<and> uint x AND 127 < 126" for x
    by (smt (verit))
  show ?thesis using assms * le16_bounds
    by (auto simp: read_ws_header_def ws_long_len_def shl32_def bind_eq_Some_conv Let_def
        split: if_splits)
qed

lemma ws_header_bytes_Some:
  assumes "0 \<le> len" "len < 65535"
  shows "ws_header_bytes len = Some (if len < 126 then [0x82, to_byte len]
    else [0x82, 126, header_byte (len div 256), header_byte len])"
    and "ws_head_len len = (if len < 126 then 2 else 4)"
  using assms by (auto simp: ws_header_bytes_def ws_head_len_def shr32_def drop_bit_eq_div)

lemma ws_header_bytes_None: "65535 \<le> len \<Longrightarrow> ws_header_bytes len = None"
  by (simp add: ws_header_bytes_def shr32_def)

lemma uint_126: "uint (126 :: byte) = 126"
  by simp

lemma len16_be: "n \<le> 65535 \<Longrightarrow>
    256 * uint (header_byte (int n div 256)) + uint (header_byte (int n)) = int n"
  using len16 [of n] by (simp add: le16_sum)

lemma ws_server_frame_parse:
  assumes "length data \<le> 65534"
  shows "\<exists>p f wbuf'. package_ws_send_data data wbuf = Some (p, f, wbuf') \<and>
    client_read (f @ rest) = Some (0x82, data, rest)"
proof -
  obtain p a h where al: "cache_alloc (length data + ws_head_len (int (length data))) wbuf = (p, a, h)"
    by (cases "cache_alloc (length data + ws_head_len (int (length data))) wbuf") auto
  have lt: "int (length data) < 65535" using assms by simp
  note H = ws_header_bytes_Some [OF _ lt]
  show ?thesis
  proof (cases "length data < 126")
    case True
    then have "uint (to_byte (int (length data))) = int (length data)"
      by (simp add: uint_to_byte_small)
    then show ?thesis using H al True
      by (simp add: package_ws_send_data_def Let_def client_read_def)
  next
    case False
    have "256 * uint (header_byte (int (length data) div 256)) +
        uint (header_byte (int (length data))) = int (length data)"
      using len16_be assms by simp
    then show ?thesis using H al False
      by (simp add: package_ws_send_data_def Let_def client_read_def)
  qed
qed

section \<open>Properties\<close>

text \<open>C31 (roundtrip): a masked client frame (text or binary, any mask) with a payload of at
  most 65535 bytes, received whole, is read with the right header and payload lengths, and
  unmasking in place puts the original payload behind the header without touching what
  follows the frame.\<close>

theorem ws_client_frame_roundtrip:
  assumes "op = 0x81 \<or> op = 0x82" "length key = 4" "length p \<le> 65535"
    and "buf = client_frame op key p @ rest" "len = int (length buf)"
  shows "\<exists>h d. read_ws_header buf len = Some (Header (int h) (int (length p))) \<and>
    h + length p \<le> length buf \<and>
    parse_ws_recv_data buf h (length p) = Some d \<and>
    take (length p) (drop h d) = p \<and> drop (h + length p) d = rest"
proof -
  let ?h = "client_head_len (length p)"
  let ?hdr = "client_header op key (length p)"
  have buf: "buf = ?hdr @ mask_payload key p @ rest"
    by (simp add: assms(4) client_frame_def)
  have lh: "length ?hdr = ?h" "4 \<le> ?h" using assms(2) by (auto simp: client_head_len_def)
  have "read_ws_header buf len = Some (Header (int ?h) (int (length p)))"
    using read_client_header [OF assms(1-3), of "mask_payload key p @ rest" len] lh
    by (simp add: buf assms(5))
  moreover have len: "?h + length p \<le> length buf" using lh by (simp add: buf)
  moreover have "take 4 (drop (?h - 4) buf) = key"
    using client_header_key [OF assms(2), of "length p" op] lh by (simp add: buf assms(2))
  then have "parse_ws_recv_data buf ?h (length p) = Some (?hdr @ p @ rest)"
    using parse_ws_recv_data_eq [OF lh(2) len] lh by (simp add: buf assms(2))
  ultimately show ?thesis using lh by (intro exI [of _ ?h] exI [of _ "?hdr @ p @ rest"]) simp
qed

theorem ws_client_frame_roundtrip_witness:
  "\<exists>h d. parse_ws_recv_data (client_frame 0x82 [1, 2, 3, 4] [9, 8, 7, 6, 5] @ []) h
       (length [9, 8, 7, 6, 5 :: byte]) = Some d \<and>
     take (length [9, 8, 7, 6, 5 :: byte]) (drop h d) = [9, 8, 7, 6, 5]"
proof -
  have "0x82 = (0x81 :: byte) \<or> 0x82 = (0x82 :: byte)" "length [1, 2, 3, 4 :: byte] = 4"
    "length [9, 8, 7, 6, 5 :: byte] \<le> 65535" by simp_all
  from ws_client_frame_roundtrip [OF this refl refl, of "[]"] show ?thesis by blast
qed

text \<open>C32 (roundtrip): up to 65534 bytes, the server's frame is defined and a client reads
  back a binary frame with exactly the payload, leaving the rest of the stream.\<close>

theorem ws_server_frame_roundtrip:
  assumes "length data \<le> 65534"
  shows "\<exists>p f wbuf'. package_ws_send_data data wbuf = Some (p, f, wbuf') \<and>
    client_read (f @ rest) = Some (0x82, data, rest)"
  by (rule ws_server_frame_parse [OF assms])

theorem ws_server_frame_roundtrip_witness:
  "\<exists>p f wbuf'. package_ws_send_data [1, 2, 3] (create_cache_allocator 1 16 empty_heap) =
      Some (p, f, wbuf') \<and> client_read (f @ []) = Some (0x82, [1, 2, 3], [])"
  by (rule ws_server_frame_roundtrip) simp

text \<open>C33 (bounds): building a frame is undefined exactly from 65535 bytes on, where the code
  shifts the 32-bit length by 56.\<close>

theorem ws_server_frame_undefined:
  "package_ws_send_data data wbuf = None \<longleftrightarrow> 65535 \<le> length data"
proof (cases "65535 \<le> length data")
  case True
  then have "ws_header_bytes (int (length data)) = None" by (simp add: ws_header_bytes_None)
  with True show ?thesis by (simp add: package_ws_send_data_def Let_def split: prod.splits)
next
  case False
  then have "int (length data) < 65535" by simp
  from ws_header_bytes_Some(1) [OF _ this] False show ?thesis
    by (auto simp: package_ws_send_data_def Let_def split: prod.splits)
qed

end
