(* ===== verification/Proto_Manager.thy ===== *)
theory Proto_Manager
  imports Tcp_Protocol
begin

text \<open>
  netbus/proto_manager.cc: the command codec (8-byte header, then a JSON string or a protobuf
  message), the table from command types to message names, and the memory it allocates.

  The protobuf library is not part of the repository: \<open>protobuf\<close> holds the four library
  operations the code calls, and every function takes it as an argument. \<open>pb_laws\<close> is the
  documented behaviour some properties assume.

  A boolean result with an out-parameter is an option (\<open>None\<close>: returned false); the outer
  option is undefined behaviour, as everywhere.
\<close>

section \<open>Memory owned by the program\<close>

text \<open>The allocators of the program: \<open>wbuf_allocator\<close>, \<open>wrt_req_allocator\<close>,
  \<open>session_allocator\<close>, the allocator behind \<open>small_alloc\<close>, and the number of protobuf
  messages created with \<open>New\<close> and not yet deleted. Blocks never move between allocators,
  so each carries the part of the C heap it draws from.\<close>

record memory =
  wbuf :: pool
  wreq :: pool
  sess_pool :: pool
  small :: small_state
  pb_count :: int

definition mem_ok :: "memory \<Rightarrow> bool" where
  "mem_ok m \<longleftrightarrow> pool_inv (wbuf m) \<and> pool_inv (wreq m) \<and> pool_inv (sess_pool m) \<and> small_inv (small m)"

text \<open>Everything the program currently owns.\<close>

definition footprint :: "memory \<Rightarrow> addr set \<times> addr set \<times> addr set \<times> addr set \<times> int" where
  "footprint m = (live (wbuf m), live (wreq m), live (sess_pool m), small_live (small m), pb_count m)"

section \<open>Messages\<close>

record ('d, 'm) protobuf =
  find_message_type :: "string \<Rightarrow> 'd option"
  get_prototype :: "'d \<Rightarrow> 'm option"
  parse_from_array :: "'m \<Rightarrow> byte list \<Rightarrow> 'm option"
  byte_size :: "'m \<Rightarrow> nat"
  serialize_to_array :: "'m \<Rightarrow> byte list option"

text \<open>\<open>PROTO_JSON\<close> and \<open>PROTO_BUF\<close>.\<close>

definition proto_json :: int where "proto_json = 0"
definition proto_buf :: int where "proto_buf = 1"
definition cmd_header_size :: nat where "cmd_header_size = 8"
definition sizeof_cmd_msg :: nat where "sizeof_cmd_msg = 24"

text \<open>\<open>void* body\<close>: a NUL-terminated JSON buffer (address and contents) or a message.\<close>

datatype 'm body = Json_Body addr "byte list" | Pb_Body 'm

record 'm cmd_msg =
  msg_addr :: addr
  c_stype :: int
  c_ctype :: int
  c_utag :: u32
  c_body :: "'m body option"

record raw_cmd_msg =
  r_stype :: int
  r_ctype :: int
  r_utag :: u32
  raw_data :: "byte list"
  raw_len :: int

section \<open>The static state and the command table\<close>

record proto_state =
  g_proto_type :: int
  g_cmd_map :: "int \<rightharpoonup> string"

definition proto_init :: "int \<Rightarrow> proto_state \<Rightarrow> proto_state" where
  "proto_init t s = s\<lparr>g_proto_type := t\<rparr>"

definition register_protobuf_cmd_map :: "(int \<rightharpoonup> string) \<Rightarrow> proto_state \<Rightarrow> proto_state" where
  "register_protobuf_cmd_map m s = s\<lparr>g_cmd_map := g_cmd_map s ++ m\<rparr>"

definition c_str :: "string \<Rightarrow> string" where
  "c_str s = takeWhile (\<lambda>c. c \<noteq> CHR 0x00) s"

definition pb_type2name :: "int \<Rightarrow> proto_state \<Rightarrow> string option" where
  "pb_type2name ctype s = map_option c_str (g_cmd_map s ctype)"

text \<open>\<open>g_cmd_map[ctype]\<close>: \<open>std::map::operator[]\<close> inserts an empty string on a miss.\<close>

definition cmd_map_index :: "int \<Rightarrow> proto_state \<Rightarrow> string \<times> proto_state" where
  "cmd_map_index ctype s = (case g_cmd_map s ctype of
     Some n \<Rightarrow> (n, s)
   | None \<Rightarrow> ([], s\<lparr>g_cmd_map := (g_cmd_map s)(ctype \<mapsto> [])\<rparr>))"

definition create_message :: "('d, 'm) protobuf \<Rightarrow> string \<Rightarrow> memory \<Rightarrow> 'm option \<times> memory" where
  "create_message pb name m = (case find_message_type pb name of
     None \<Rightarrow> (None, m)
   | Some d \<Rightarrow> (case get_prototype pb d of
       None \<Rightarrow> (None, m)
     | Some x \<Rightarrow> (Some x, m\<lparr>pb_count := pb_count m + 1\<rparr>)))"

definition free_protobuf_message :: "'m option \<Rightarrow> memory \<Rightarrow> memory" where
  "free_protobuf_message x m = (case x of None \<Rightarrow> m | Some _ \<Rightarrow> m\<lparr>pb_count := pb_count m - 1\<rparr>)"

section \<open>Decoding\<close>

definition decode_header :: "byte list \<Rightarrow> (int \<times> int \<times> u32) option" where
  "decode_header d = do {
     b0 \<leftarrow> rd d 0; b1 \<leftarrow> rd d 1; b2 \<leftarrow> rd d 2; b3 \<leftarrow> rd d 3;
     b4 \<leftarrow> rd d 4; b5 \<leftarrow> rd d 5; b6 \<leftarrow> rd d 6; b7 \<leftarrow> rd d 7;
     Some (le16 b0 b1, le16 b2 b3, le32 b4 b5 b6 b7) }"

definition decode_raw_cmd :: "byte list \<Rightarrow> int \<Rightarrow> raw_cmd_msg option option" where
  "decode_raw_cmd in_data in_len =
     (if in_len < int cmd_header_size then Some None
      else do {
        (st, ct, ut) \<leftarrow> decode_header in_data;
        Some (Some \<lparr>r_stype = st, r_ctype = ct, r_utag = ut, raw_data = in_data,
                    raw_len = in_len\<rparr>) })"

definition small_alloc_mem :: "nat \<Rightarrow> memory \<Rightarrow> addr \<times> memory" where
  "small_alloc_mem n m = (case small_alloc n (small m) of (p, s) \<Rightarrow> (p, m\<lparr>small := s\<rparr>))"

definition small_free_mem :: "addr \<Rightarrow> memory \<Rightarrow> memory option" where
  "small_free_mem p m = map_option (\<lambda>s. m\<lparr>small := s\<rparr>) (small_free p (small m))"

definition wbuf_alloc_mem :: "nat \<Rightarrow> memory \<Rightarrow> addr \<times> memory" where
  "wbuf_alloc_mem n m = (case cache_alloc n (wbuf m) of (p, s) \<Rightarrow> (p, m\<lparr>wbuf := s\<rparr>))"

definition wbuf_free_mem :: "addr \<Rightarrow> memory \<Rightarrow> memory option" where
  "wbuf_free_mem p m = map_option (\<lambda>s. m\<lparr>wbuf := s\<rparr>) (cache_free p (wbuf m))"

definition decode_cmd_msg :: "('d, 'm) protobuf \<Rightarrow> byte list \<Rightarrow> int \<Rightarrow> proto_state \<Rightarrow> memory \<Rightarrow>
    ('m cmd_msg option \<times> proto_state \<times> memory) option" where
  "decode_cmd_msg pb in_data in_len s m =
     (if in_len < int cmd_header_size then Some (None, s, m)
      else case small_alloc_mem sizeof_cmd_msg m of (a, m) \<Rightarrow> do {
        (st, ct, ut) \<leftarrow> decode_header in_data;
        let msg = \<lparr>msg_addr = a, c_stype = st, c_ctype = ct, c_utag = ut, c_body = None\<rparr>;
        let body_len = nat in_len - cmd_header_size;
        if in_len = int cmd_header_size then Some (Some msg, s, m)
        else if g_proto_type s = proto_json then
          (case wbuf_alloc_mem (body_len + 1) m of (p, m) \<Rightarrow> do {
             b \<leftarrow> bytes_at in_data cmd_header_size body_len;
             Some (Some (msg\<lparr>c_body := Some (Json_Body p (b @ [0]))\<rparr>), s, m) })
        else if g_proto_type s = proto_buf then
          (case cmd_map_index ct s of (name, s) \<Rightarrow>
           case create_message pb (c_str name) m of
             (Some x, m) \<Rightarrow> do {
               b \<leftarrow> bytes_at in_data cmd_header_size body_len;
               (case parse_from_array pb x b of
                  Some x \<Rightarrow> Some (Some (msg\<lparr>c_body := Some (Pb_Body x)\<rparr>), s, m)
                | None \<Rightarrow> do {
                    m \<leftarrow> small_free_mem a (free_protobuf_message (Some x) m);
                    Some (None, s, m) }) }
           | (None, m) \<Rightarrow> do { m \<leftarrow> small_free_mem a m; Some (None, s, m) })
        else Some (Some msg, s, m) })"

definition cmd_msg_free :: "'m cmd_msg \<Rightarrow> proto_state \<Rightarrow> memory \<Rightarrow> memory option" where
  "cmd_msg_free msg s m = do {
     m \<leftarrow> (case c_body msg of
            None \<Rightarrow> Some m
          | Some b \<Rightarrow>
              if g_proto_type s = proto_json then
                (case b of Json_Body p _ \<Rightarrow> wbuf_free_mem p m | Pb_Body _ \<Rightarrow> None)
              else if g_proto_type s = proto_buf then
                (case b of Pb_Body x \<Rightarrow> Some (free_protobuf_message (Some x) m) | Json_Body _ _ \<Rightarrow> None)
              else Some m);
     small_free_mem (msg_addr msg) m }"

section \<open>Encoding\<close>

text \<open>\<open>strlen\<close>: undefined without a terminating NUL.\<close>

definition c_strlen :: "byte list \<Rightarrow> nat option" where
  "c_strlen b = (if 0 \<in> set b then Some (length (takeWhile (\<lambda>x. x \<noteq> 0) b)) else None)"

definition encode_header :: "int \<Rightarrow> int \<Rightarrow> u32 \<Rightarrow> byte list" where
  "encode_header st ct ut =
     [header_byte st, header_byte (drop_bit 8 st), header_byte ct, header_byte (drop_bit 8 ct)]
     @ bytes32 ut"

definition encode_body_len :: "('d, 'm) protobuf \<Rightarrow> int \<Rightarrow> 'm body option \<Rightarrow> nat option" where
  "encode_body_len pb t b = (case b of
     None \<Rightarrow> Some 0
   | Some (Json_Body _ js) \<Rightarrow>
       (if t = proto_json then c_strlen js else if t = proto_buf then None else Some 0)
   | Some (Pb_Body x) \<Rightarrow>
       (if t = proto_buf then Some (byte_size pb x) else if t = proto_json then None else Some 0))"

definition encode_msg_to_raw :: "('d, 'm) protobuf \<Rightarrow> 'm cmd_msg \<Rightarrow> proto_state \<Rightarrow> memory \<Rightarrow>
    ((addr \<times> byte list) option \<times> memory) option" where
  "encode_msg_to_raw pb msg s m = do {
     n \<leftarrow> encode_body_len pb (g_proto_type s) (c_body msg);
     let h = encode_header (c_stype msg) (c_ctype msg) (c_utag msg);
     (case wbuf_alloc_mem (cmd_header_size + n) m of (p, m) \<Rightarrow>
       (case c_body msg of
          Some (Json_Body _ js) \<Rightarrow>
            if g_proto_type s = proto_json then do {
              b \<leftarrow> bytes_at js 0 n;
              Some (Some (p, h @ b), m) }
            else Some (Some (p, h), m)
        | Some (Pb_Body x) \<Rightarrow>
            if g_proto_type s = proto_buf then
              (case serialize_to_array pb x of
                 Some b \<Rightarrow> Some (Some (p, h @ b), m)
               | None \<Rightarrow> do { m \<leftarrow> wbuf_free_mem p m; Some (None, m) })
            else Some (Some (p, h), m)
        | None \<Rightarrow> Some (Some (p, h), m))) }"

definition raw_msg_free :: "addr \<Rightarrow> memory \<Rightarrow> memory option" where
  "raw_msg_free p m = wbuf_free_mem p m"

section \<open>Memory lemmas\<close>

lemma small_alloc_memE:
  assumes "mem_ok m" "small_alloc_mem n m = (p, m')"
  shows "mem_ok m'" "small_live (small m') = insert p (small_live (small m))"
    "p \<notin> small_live (small m)" "m' = m\<lparr>small := small m'\<rparr>"
proof -
  obtain q t where q: "small_alloc n (small m) = (q, t)" by (cases "small_alloc n (small m)")
  with assms(2) have e: "p = q" "m' = m\<lparr>small := t\<rparr>" by (simp_all add: small_alloc_mem_def)
  have i: "small_inv (small m)" using assms(1) by (simp add: mem_ok_def)
  show "mem_ok m'" using assms(1) small.alloc_invar [OF i q] by (simp add: e mem_ok_def)
  show "small_live (small m') = insert p (small_live (small m))"
    using small.alloc_owned [OF i q] by (simp add: e)
  show "p \<notin> small_live (small m)" using small.alloc_fresh [OF i q] by (simp add: e)
  show "m' = m\<lparr>small := small m'\<rparr>" by (simp add: e)
qed

lemma small_free_memI:
  assumes "mem_ok m" "p \<in> small_live (small m)"
  shows "\<exists>t. small_free_mem p m = Some (m\<lparr>small := t\<rparr>) \<and> mem_ok (m\<lparr>small := t\<rparr>) \<and>
    small_live t = small_live (small m) - {p}"
  using small.dealloc_ok [of "small m" p] assms by (auto simp: small_free_mem_def mem_ok_def)

lemma wbuf_alloc_memE:
  assumes "mem_ok m" "wbuf_alloc_mem n m = (p, m')"
  shows "mem_ok m'" "live (wbuf m') = insert p (live (wbuf m))"
    "p \<notin> live (wbuf m)" "m' = m\<lparr>wbuf := wbuf m'\<rparr>"
proof -
  obtain q t where q: "cache_alloc n (wbuf m) = (q, t)" by (cases "cache_alloc n (wbuf m)")
  with assms(2) have e: "p = q" "m' = m\<lparr>wbuf := t\<rparr>" by (simp_all add: wbuf_alloc_mem_def)
  have i: "pool_inv (wbuf m)" using assms(1) by (simp add: mem_ok_def)
  show "mem_ok m'" using assms(1) cache.alloc_invar [OF i q] by (simp add: e mem_ok_def)
  show "live (wbuf m') = insert p (live (wbuf m))" using cache.alloc_owned [OF i q] by (simp add: e)
  show "p \<notin> live (wbuf m)" using cache.alloc_fresh [OF i q] by (simp add: e)
  show "m' = m\<lparr>wbuf := wbuf m'\<rparr>" by (simp add: e)
qed

lemma wbuf_free_memI:
  assumes "mem_ok m" "p \<in> live (wbuf m)"
  shows "\<exists>t. wbuf_free_mem p m = Some (m\<lparr>wbuf := t\<rparr>) \<and> mem_ok (m\<lparr>wbuf := t\<rparr>) \<and>
    live t = live (wbuf m) - {p}"
  using cache.dealloc_ok [of "wbuf m" p] assms by (auto simp: wbuf_free_mem_def mem_ok_def)

lemma mem_ok_pb [simp]: "mem_ok (m\<lparr>pb_count := n\<rparr>) = mem_ok m"
  by (simp add: mem_ok_def)

lemma free_protobuf_Some [simp]:
  "free_protobuf_message (Some x) m = m\<lparr>pb_count := pb_count m - 1\<rparr>"
  by (simp add: free_protobuf_message_def)

text \<open>Allocating the message struct and freeing it again, with any messages and buffers
  in between given back, restores the footprint.\<close>

lemma small_round:
  assumes "mem_ok m" "small_alloc_mem n m = (a, m1)"
  shows "\<exists>t. small_free_mem a m1 = Some (m1\<lparr>small := t\<rparr>) \<and> mem_ok (m1\<lparr>small := t\<rparr>) \<and>
    footprint (m1\<lparr>small := t\<rparr>) = footprint m"
proof -
  note A = small_alloc_memE [OF assms]
  obtain t where t: "small_free_mem a m1 = Some (m1\<lparr>small := t\<rparr>)" "mem_ok (m1\<lparr>small := t\<rparr>)"
    "small_live t = small_live (small m1) - {a}"
    using small_free_memI [OF A(1)] A(2) by blast
  have "wbuf m1 = wbuf m" "wreq m1 = wreq m" "sess_pool m1 = sess_pool m" "pb_count m1 = pb_count m"
    using A(4) by (metis memory.select_convs memory.surjective memory.update_convs(4))+
  with t A(2,3) show ?thesis by (intro exI [of _ t]) (auto simp: footprint_def)
qed

lemma small_free_mem_pb:
  "small_free_mem p (m\<lparr>pb_count := n\<rparr>) = map_option (\<lambda>m. m\<lparr>pb_count := n\<rparr>) (small_free_mem p m)"
  by (cases "small_free p (small m)") (simp_all add: small_free_mem_def)

lemma small_free_mem_wbuf:
  "small_free_mem p (m\<lparr>wbuf := w\<rparr>) = map_option (\<lambda>m. m\<lparr>wbuf := w\<rparr>) (small_free_mem p m)"
  by (cases "small_free p (small m)") (simp_all add: small_free_mem_def)

section \<open>Codec lemmas\<close>

lemma length_encode_header [simp]: "length (encode_header st ct ut) = 8"
  by (simp add: encode_header_def)

lemma decode_encode_header:
  "decode_header (encode_header st ct ut @ b) = Some (st mod 65536, ct mod 65536, ut)"
  using le32_bytes32 [of ut]
  by (simp add: decode_header_def encode_header_def bytes32_def rd_def header_byte_def le16_split)

lemma encode_msg_prefix:
  assumes "encode_msg_to_raw pb msg s m = Some (Some (p, bs), m')"
  shows "\<exists>b. bs = encode_header (c_stype msg) (c_ctype msg) (c_utag msg) @ b"
proof -
  obtain n where n: "encode_body_len pb (g_proto_type s) (c_body msg) = Some n"
    using assms by (auto simp: encode_msg_to_raw_def bind_eq_Some_conv)
  obtain q m1 where q: "wbuf_alloc_mem (cmd_header_size + n) m = (q, m1)"
    by (cases "wbuf_alloc_mem (cmd_header_size + n) m")
  note E = assms [unfolded encode_msg_to_raw_def, simplified n q Option.bind.simps Let_def prod.case]
  show ?thesis
  proof (cases "c_body msg")
    case None
    with E show ?thesis by simp
  next
    case (Some b)
    with E show ?thesis
      by (cases b) (auto simp: bind_eq_Some_conv split: if_split_asm option.split_asm)
  qed
qed

text \<open>Encoding takes one block from \<open>wbuf_allocator\<close>, or none when it fails.\<close>

lemma encode_msg_memory:
  assumes ok: "mem_ok m" and enc: "encode_msg_to_raw pb msg s m = Some (r, m')"
  shows "mem_ok m' \<and> m' = m\<lparr>wbuf := wbuf m'\<rparr> \<and>
    (case r of None \<Rightarrow> live (wbuf m') = live (wbuf m)
     | Some (q, _) \<Rightarrow> live (wbuf m') = insert q (live (wbuf m)) \<and> q \<notin> live (wbuf m))"
proof -
  obtain n where n: "encode_body_len pb (g_proto_type s) (c_body msg) = Some n"
    using enc by (auto simp: encode_msg_to_raw_def bind_eq_Some_conv)
  obtain q m1 where q: "wbuf_alloc_mem (cmd_header_size + n) m = (q, m1)"
    by (cases "wbuf_alloc_mem (cmd_header_size + n) m")
  note A = wbuf_alloc_memE [OF ok q]
  obtain t where t: "wbuf_free_mem q m1 = Some (m1\<lparr>wbuf := t\<rparr>)" "mem_ok (m1\<lparr>wbuf := t\<rparr>)"
    "live t = live (wbuf m1) - {q}" using wbuf_free_memI [OF A(1)] A(2) by blast
  note E = enc [unfolded encode_msg_to_raw_def, simplified n q Option.bind.simps Let_def prod.case]
  have "(\<exists>b. r = Some (q, b) \<and> m' = m1) \<or> r = None \<and> m' = m1\<lparr>wbuf := t\<rparr>"
    using E t(1) by (auto simp: bind_eq_Some_conv
        split: option.split_asm body.split_asm if_split_asm)
  then show ?thesis
  proof (elim disjE exE conjE)
    fix b assume "r = Some (q, b)" "m' = m1"
    then show ?thesis using A by simp
  next
    assume r: "r = None" "m' = m1\<lparr>wbuf := t\<rparr>"
    then have "m' = m\<lparr>wbuf := wbuf m'\<rparr>" by (subst (1) r(2), subst A(4)) simp
    then show ?thesis using r t A(2,3) by auto
  qed
qed

lemma decode_header_defined: "8 \<le> length d \<Longrightarrow> \<exists>st ct ut. decode_header d = Some (st, ct, ut)"
  by (auto simp: decode_header_def rd_def)

lemma cmd_map_index_simps:
  "g_cmd_map s ct = Some n \<Longrightarrow> cmd_map_index ct s = (n, s)"
  "g_cmd_map s ct = None \<Longrightarrow>
     cmd_map_index ct s = ([], s\<lparr>g_cmd_map := (g_cmd_map s)(ct \<mapsto> [])\<rparr>)"
  by (simp_all add: cmd_map_index_def)

lemma cmd_map_index_type:
  "cmd_map_index ct s = (n, s') \<Longrightarrow> g_proto_type s' = g_proto_type s"
  by (auto simp: cmd_map_index_def split: option.splits)

text \<open>What a decoder leaves behind: nothing when it fails, and what \<open>cmd_msg_free\<close> gives
  back when it succeeds.\<close>

definition released :: "'m cmd_msg option \<Rightarrow> proto_state \<Rightarrow> memory \<Rightarrow> memory \<Rightarrow> bool" where
  "released r s m0 m = (case r of
     None \<Rightarrow> mem_ok m \<and> footprint m = footprint m0
   | Some msg \<Rightarrow> \<exists>m'. cmd_msg_free msg s m = Some m' \<and> mem_ok m' \<and> footprint m' = footprint m0)"

lemma released_plain:
  assumes "mem_ok m" "small_alloc_mem n m = (a, m1)" "msg_addr msg = a" "c_body msg = None"
  shows "released (Some msg) s m m1"
  using small_round [OF assms(1,2)] assms(3,4) by (auto simp: released_def cmd_msg_free_def)

lemma released_json:
  assumes "mem_ok m" "small_alloc_mem n m = (a, m1)" "wbuf_alloc_mem k m1 = (p, m2)"
    and "msg_addr msg = a" "c_body msg = Some (Json_Body p b)" "g_proto_type s = proto_json"
  shows "released (Some msg) s m m2"
proof -
  note A = small_alloc_memE [OF assms(1,2)]
  note W = wbuf_alloc_memE [OF A(1) assms(3)]
  obtain t where t: "wbuf_free_mem p m2 = Some (m2\<lparr>wbuf := t\<rparr>)" "mem_ok (m2\<lparr>wbuf := t\<rparr>)"
    "live t = live (wbuf m2) - {p}"
    using wbuf_free_memI [OF W(1)] W(2) by blast
  obtain q where q: "small_free_mem a m1 = Some (m1\<lparr>small := q\<rparr>)" "mem_ok (m1\<lparr>small := q\<rparr>)"
    "footprint (m1\<lparr>small := q\<rparr>) = footprint m"
    using small_round [OF assms(1,2)] by blast
  have e: "m2\<lparr>wbuf := t\<rparr> = m1\<lparr>wbuf := t\<rparr>" by (subst W(4)) simp
  have l: "live t = live (wbuf m1)" using t(3) W(2,3) by auto
  have "cmd_msg_free msg s m2 = small_free_mem a (m1\<lparr>wbuf := t\<rparr>)"
    using assms(4-6) t(1) by (simp add: cmd_msg_free_def e)
  also have "\<dots> = Some (m1\<lparr>small := q, wbuf := t\<rparr>)" using q(1) by (simp add: small_free_mem_wbuf)
  finally have "cmd_msg_free msg s m2 = Some (m1\<lparr>small := q, wbuf := t\<rparr>)" .
  moreover have "mem_ok (m1\<lparr>small := q, wbuf := t\<rparr>)"
    using q(2) t(2) e by (simp add: mem_ok_def)
  moreover have "footprint (m1\<lparr>small := q, wbuf := t\<rparr>) = footprint m"
    using q(3) l by (simp add: footprint_def)
  ultimately show ?thesis by (simp add: released_def)
qed

lemma released_pb:
  assumes "mem_ok m" "small_alloc_mem n m = (a, m1)" "msg_addr msg = a"
    and "c_body msg = Some (Pb_Body x)" "g_proto_type s = proto_buf"
  shows "released (Some msg) s m (m1\<lparr>pb_count := pb_count m1 + 1\<rparr>)"
  using small_round [OF assms(1,2)] assms(3-5)
  by (auto simp: released_def cmd_msg_free_def proto_json_def proto_buf_def)

lemma released_dropped:
  assumes "mem_ok m" "small_alloc_mem n m = (a, m1)" "small_free_mem a m1 = Some m2"
  shows "released None s m m2"
  using small_round [OF assms(1,2)] assms(3) by (auto simp: released_def)

text \<open>Concrete values for the witnesses: a small memory, and a protobuf library with one
  message type whose messages are their own serialisation.\<close>

definition pb_example :: "(unit, byte list) protobuf" where
  "pb_example = \<lparr>find_message_type = (\<lambda>n. if n = ''Ping'' then Some () else None),
     get_prototype = (\<lambda>_. Some []), parse_from_array = (\<lambda>_ b. Some b),
     byte_size = length, serialize_to_array = Some\<rparr>"

definition ps_json :: proto_state where
  "ps_json = \<lparr>g_proto_type = proto_json, g_cmd_map = Map.empty\<rparr>"

definition ps_buf :: proto_state where
  "ps_buf = \<lparr>g_proto_type = proto_buf, g_cmd_map = [2 \<mapsto> ''Ping'']\<rparr>"

definition mem0 :: memory where
  "mem0 = \<lparr>wbuf = create_cache_allocator 2 64 empty_heap, wreq = create_cache_allocator 2 64 empty_heap,
     sess_pool = create_cache_allocator 2 64 empty_heap, small = (None, empty_heap), pb_count = 0\<rparr>"

lemma mem0_ok: "mem_ok mem0"
proof -
  have "heap_ok empty_heap" by (simp add: heap_ok_def empty_heap_def)
  then show ?thesis by (simp add: mem_ok_def mem0_def create_ok small_inv_def)
qed

lemma wbuf_alloc_mem_total: "\<exists>p m'. wbuf_alloc_mem n m = (p, m')"
  by (cases "wbuf_alloc_mem n m") simp

section \<open>Properties\<close>

lemma memory_balance:
  assumes "mem_ok m" "decode_cmd_msg pb d n s m = Some (r, s', m')"
  shows "released r s' m m'"
proof (cases "n < int cmd_header_size")
  case True
  with assms show ?thesis by (simp add: decode_cmd_msg_def released_def)
next
  case False
  obtain a m1 where a: "small_alloc_mem sizeof_cmd_msg m = (a, m1)"
    by (cases "small_alloc_mem sizeof_cmd_msg m")
  obtain st ct ut where h: "decode_header d = Some (st, ct, ut)"
    using assms(2) False a by (cases "decode_header d") (auto simp: decode_cmd_msg_def)
  let ?body = "nat n - cmd_header_size"
  obtain nm s1 where i: "cmd_map_index ct s = (nm, s1)" by (cases "cmd_map_index ct s")
  note D = assms(2) [unfolded decode_cmd_msg_def, simplified a h prod.case False if_False
      Option.bind.simps Let_def i]
  consider "n = int cmd_header_size"
    | "n \<noteq> int cmd_header_size" "g_proto_type s = proto_json"
    | "n \<noteq> int cmd_header_size" "g_proto_type s = proto_buf"
    | "n \<noteq> int cmd_header_size" "g_proto_type s \<noteq> proto_json" "g_proto_type s \<noteq> proto_buf"
    by blast
  then show ?thesis
  proof cases
    case 1
    with D a show ?thesis by (auto intro: released_plain [OF assms(1)])
  next
    case 2
    with D a show ?thesis
      by (auto simp: bind_eq_Some_conv split: prod.splits intro!: released_json [OF assms(1)])
  next
    case 3
    have j: "proto_buf \<noteq> proto_json" by (simp add: proto_buf_def proto_json_def)
    have t: "g_proto_type s1 = proto_buf" using cmd_map_index_type [OF i] 3 by simp
    have pb: "released (Some \<lparr>msg_addr = a, c_stype = st, c_ctype = ct, c_utag = ut,
        c_body = Some (Pb_Body x)\<rparr>) s1 m (m1\<lparr>pb_count := pb_count m1 + 1\<rparr>)" for x
      by (rule released_pb [OF assms(1) a _ _ t]) simp_all
    show ?thesis using D 3 j pb released_dropped [OF assms(1) a]
      by (auto simp: bind_eq_Some_conv create_message_def small_free_mem_pb
          split: option.splits)
  next
    case 4
    with D a show ?thesis by (auto intro: released_plain [OF assms(1)])
  qed
qed

text \<open>C5 (invariant): whatever the bytes and the protocol type, decoding a command either fails
  with every block and message it allocated returned, or yields a message for which
  \<open>cmd_msg_free\<close> is defined and returns exactly what the decoder allocated.\<close>

theorem decode_cmd_msg_balanced:
  assumes "mem_ok m" "decode_cmd_msg pb d n s m = Some (r, s', m')"
  shows "case r of
      None \<Rightarrow> mem_ok m' \<and> footprint m' = footprint m
    | Some msg \<Rightarrow> \<exists>m''. cmd_msg_free msg s' m' = Some m'' \<and> mem_ok m'' \<and> footprint m'' = footprint m"
  using memory_balance [OF assms] by (cases r) (simp_all add: released_def)

theorem decode_cmd_msg_balanced_witness:
  "\<exists>r m' m''. decode_cmd_msg pb_example [1, 0, 2, 0, 0, 0, 0, 0, 65] 9 ps_json mem0 = Some (Some r, ps_json, m')
     \<and> cmd_msg_free r ps_json m' = Some m'' \<and> footprint m'' = footprint mem0"
proof -
  obtain a m1 where a: "small_alloc_mem sizeof_cmd_msg mem0 = (a, m1)" by (cases "small_alloc_mem sizeof_cmd_msg mem0")
  obtain p m2 where p: "wbuf_alloc_mem 2 m1 = (p, m2)" by (cases "wbuf_alloc_mem 2 m1")
  have "\<exists>r m'. decode_cmd_msg pb_example [1, 0, 2, 0, 0, 0, 0, 0, 65] 9 ps_json mem0 = Some (Some r, ps_json, m')"
    using a p by (simp add: decode_cmd_msg_def cmd_header_size_def decode_header_def rd_def bytes_at_def
        ps_json_def proto_json_def numeral_2_eq_2 eval_nat_numeral)
  then show ?thesis using decode_cmd_msg_balanced [OF mem0_ok] by fastforce
qed

text \<open>The eight-byte header. Every encoded message, whatever its body, is
  decoded by \<open>decode_raw_cmd\<close> with the same user tag and with its service and command types
  modulo 65536, so types that fit in 16 bits survive; the raw data is the whole package.\<close>

theorem encode_decode_raw_cmd:
  assumes "encode_msg_to_raw pb msg s m = Some (Some (p, bs), m')" "n = int (length bs)"
  shows "\<exists>raw. decode_raw_cmd bs n = Some (Some raw) \<and>
    r_stype raw = c_stype msg mod 65536 \<and> r_ctype raw = c_ctype msg mod 65536 \<and>
    r_utag raw = c_utag msg \<and> raw_data raw = bs \<and> raw_len raw = n"
proof -
  have "\<exists>b. bs = encode_header (c_stype msg) (c_ctype msg) (c_utag msg) @ b"
    using encode_msg_prefix [OF assms(1)] .
  then obtain b where b: "bs = encode_header (c_stype msg) (c_ctype msg) (c_utag msg) @ b" ..
  then have "\<not> n < int cmd_header_size" by (simp add: assms(2) cmd_header_size_def)
  then show ?thesis
    by (simp add: decode_raw_cmd_def b decode_encode_header)
qed

theorem encode_decode_raw_cmd_witness:
  "\<exists>bs raw. decode_raw_cmd bs 8 = Some (Some raw) \<and> r_stype raw = 3 \<and> r_utag raw = 77"
proof -
  let ?msg = "\<lparr>msg_addr = 0, c_stype = 3, c_ctype = 4, c_utag = 77, c_body = None\<rparr> :: byte list cmd_msg"
  obtain p m1 where p: "wbuf_alloc_mem 8 mem0 = (p, m1)" by (cases "wbuf_alloc_mem 8 mem0")
  have "encode_msg_to_raw pb_example ?msg ps_json mem0 = Some (Some (p, encode_header 3 4 77), m1)"
    using p by (simp add: encode_msg_to_raw_def encode_body_len_def cmd_header_size_def)
  from encode_decode_raw_cmd [OF this] show ?thesis by fastforce
qed

text \<open>In JSON mode a message with 16-bit types and a non-empty NUL-free
  string body is encoded and decoded back to the same header fields and the same string.\<close>

theorem json_roundtrip:
  assumes "g_proto_type s = proto_json" "c_body msg = Some (Json_Body q (js @ [0]))"
    and "0 \<notin> set js" "js \<noteq> []" "0 \<le> c_stype msg" "c_stype msg < 65536"
    and "0 \<le> c_ctype msg" "c_ctype msg < 65536"
  shows "\<exists>p bs m1 msg' p' m2. encode_msg_to_raw pb msg s m = Some (Some (p, bs), m1) \<and>
    decode_cmd_msg pb bs (int (length bs)) s m1 = Some (Some msg', s, m2) \<and>
    c_stype msg' = c_stype msg \<and> c_ctype msg' = c_ctype msg \<and> c_utag msg' = c_utag msg \<and>
    c_body msg' = Some (Json_Body p' (js @ [0]))"
proof -
  let ?h = "encode_header (c_stype msg) (c_ctype msg) (c_utag msg)"
  have "takeWhile (\<lambda>x. x \<noteq> 0) (js @ [0]) = js" using assms(3) by (induction js) auto
  then have sl: "c_strlen (js @ [0]) = Some (length js)" by (simp add: c_strlen_def)
  obtain p m1 where w: "wbuf_alloc_mem (8 + length js) m = (p, m1)" using wbuf_alloc_mem_total by blast
  have enc: "encode_msg_to_raw pb msg s m = Some (Some (p, ?h @ js), m1)"
    using assms(1,2) sl w
    by (simp add: encode_msg_to_raw_def encode_body_len_def proto_json_def cmd_header_size_def bytes_at_def)
  obtain a m2 where a: "small_alloc_mem sizeof_cmd_msg m1 = (a, m2)" by (cases "small_alloc_mem sizeof_cmd_msg m1")
  obtain p' m3 where w': "wbuf_alloc_mem (length js + 1) m2 = (p', m3)" using wbuf_alloc_mem_total by blast
  have "decode_cmd_msg pb (?h @ js) (int (length (?h @ js))) s m1 = Some (Some \<lparr>msg_addr = a,
      c_stype = c_stype msg, c_ctype = c_ctype msg, c_utag = c_utag msg,
      c_body = Some (Json_Body p' (js @ [0]))\<rparr>, s, m3)"
    using assms(1,4-) a w'
    by (simp add: decode_cmd_msg_def cmd_header_size_def decode_encode_header bytes_at_def nat_add_distrib)
  with enc show ?thesis by force
qed

theorem json_roundtrip_witness:
  "\<exists>p bs m1 msg' p' m2.
    encode_msg_to_raw pb_example \<lparr>msg_addr = 0, c_stype = 3, c_ctype = 4, c_utag = 77,
        c_body = Some (Json_Body 0 ([123, 125] @ [0]))\<rparr> ps_json mem0 = Some (Some (p, bs), m1) \<and>
    decode_cmd_msg pb_example bs (int (length bs)) ps_json m1 = Some (Some msg', ps_json, m2) \<and>
    c_body msg' = Some (Json_Body p' ([123, 125] @ [0]))"
  using json_roundtrip [of ps_json "\<lparr>msg_addr = 0, c_stype = 3, c_ctype = 4, c_utag = 77,
        c_body = Some (Json_Body 0 ([123, 125] @ [0]))\<rparr>" 0 "[123, 125]" pb_example mem0]
  by (simp add: ps_json_def) blast

text \<open>The two halves on different machines: what is encoded, and what any decoder makes of it.\<close>

lemma json_encoded:
  assumes "g_proto_type s = proto_json" "c_body msg = Some (Json_Body q (js @ [0]))" "0 \<notin> set js"
  shows "\<exists>p m1. wbuf_alloc_mem (8 + length js) m = (p, m1) \<and> encode_msg_to_raw pb msg s m =
    Some (Some (p, encode_header (c_stype msg) (c_ctype msg) (c_utag msg) @ js), m1)"
proof -
  have "takeWhile (\<lambda>x. x \<noteq> 0) (js @ [0]) = js" using assms(3) by (induction js) auto
  moreover obtain p m1 where "wbuf_alloc_mem (8 + length js) m = (p, m1)" using wbuf_alloc_mem_total by blast
  ultimately show ?thesis using assms(1,2)
    by (simp add: encode_msg_to_raw_def encode_body_len_def proto_json_def cmd_header_size_def bytes_at_def c_strlen_def)
qed

lemma json_decoded:
  assumes "g_proto_type s = proto_json" "js \<noteq> []" "0 \<le> st" "st < 65536" "0 \<le> ct" "ct < 65536"
  shows "\<exists>a p m'. decode_cmd_msg pb (encode_header st ct ut @ js) (int (length (encode_header st ct ut @ js))) s m =
    Some (Some \<lparr>msg_addr = a, c_stype = st, c_ctype = ct, c_utag = ut, c_body = Some (Json_Body p (js @ [0]))\<rparr>, s, m')"
proof -
  obtain a m1 where a: "small_alloc_mem sizeof_cmd_msg m = (a, m1)" by (cases "small_alloc_mem sizeof_cmd_msg m")
  obtain p m2 where "wbuf_alloc_mem (length js + 1) m1 = (p, m2)" using wbuf_alloc_mem_total by blast
  then show ?thesis using assms a
    by (simp add: decode_cmd_msg_def cmd_header_size_def decode_encode_header bytes_at_def nat_add_distrib)
qed

text \<open>Documented behaviour of the protobuf library: a message serialises to exactly
  \<open>ByteSize\<close> bytes, and parsing them into the prototype of its type restores it.\<close>

definition pb_laws :: "('d, 'm) protobuf \<Rightarrow> string \<Rightarrow> 'm \<Rightarrow> byte list \<Rightarrow> bool" where
  "pb_laws pb name x bs \<longleftrightarrow>
     serialize_to_array pb x = Some bs \<and> length bs = byte_size pb x \<and>
     (\<exists>d x0. find_message_type pb name = Some d \<and> get_prototype pb d = Some x0 \<and>
             parse_from_array pb x0 bs = Some x)"



text \<open>In protobuf mode a command type nobody registered makes the decoder fail,
  but \<open>operator[]\<close> has entered it into the command table with an empty name: from then on
  \<open>pb_type2name\<close> no longer answers NULL for it.\<close>

theorem decode_unregistered_type:
  assumes "g_proto_type s = proto_buf" "decode_header d = Some (st, ct, ut)" "8 < n"
    and "g_cmd_map s ct = None" "find_message_type pb [] = None" "mem_ok m"
  shows "\<exists>m'. decode_cmd_msg pb d n s m =
      Some (None, s\<lparr>g_cmd_map := (g_cmd_map s)(ct \<mapsto> [])\<rparr>, m') \<and>
    footprint m' = footprint m \<and> pb_type2name ct s = None \<and>
    pb_type2name ct (s\<lparr>g_cmd_map := (g_cmd_map s)(ct \<mapsto> [])\<rparr>) = Some []"
proof -
  obtain a m1 where a: "small_alloc_mem sizeof_cmd_msg m = (a, m1)" by (cases "small_alloc_mem sizeof_cmd_msg m")
  obtain t where "small_free_mem a m1 = Some (m1\<lparr>small := t\<rparr>)"
    "footprint (m1\<lparr>small := t\<rparr>) = footprint m" using small_round [OF assms(6) a] by blast
  then show ?thesis using assms a
    by (simp add: decode_cmd_msg_def cmd_header_size_def proto_buf_def proto_json_def
        cmd_map_index_def create_message_def c_str_def pb_type2name_def)
qed

theorem decode_unregistered_type_witness:
  "\<exists>m'. decode_cmd_msg pb_example [1, 0, 9, 0, 0, 0, 0, 0, 65] 9 ps_buf mem0 =
      Some (None, ps_buf\<lparr>g_cmd_map := (g_cmd_map ps_buf)(9 \<mapsto> [])\<rparr>, m')"
proof -
  have "decode_header [1, 0, 9, 0, 0, 0, 0, 0, 65] = Some (1, 9, 0)"
    by (simp add: decode_header_def rd_def le16_sum le32_def)
  then show ?thesis
    using decode_unregistered_type [of ps_buf "[1, 0, 9, 0, 0, 0, 0, 0, 65]" 1 9 0 9 pb_example mem0] mem0_ok
    by (auto simp: ps_buf_def pb_example_def)
qed

end
