(* ===== verification/Service_Manager.thy ===== *)
theory Service_Manager
  imports Proto_Manager Ws_Frame
begin

text \<open>
  The state of the running server, netbus/service.cc (the base class) and
  netbus/service_manager.cc (the table of services and the dispatch of commands).

  A session is named by its address: a UVSession lives in a block of \<open>session_allocator\<close>,
  a UDPSession is the stack object of the UDP receive callback (address 0). A service is
  named by its pointer; the virtual table \<open>vtable\<close> maps a pointer to the four handlers.
  Handlers are code outside this repository's C++ core (Lua services), so they are arbitrary
  functions on the world; a handler that runs into undefined behaviour is \<open>None\<close>.
\<close>

section \<open>The world\<close>

datatype sess_class = UV_Session | UDP_Session

definition session_type_tcp :: int where "session_type_tcp = 0"
definition session_type_ws :: int where "session_type_ws = 1"

record session =
  sclass :: sess_class
  as_client :: u32
  utag :: u32
  uid :: u32
  client_address :: string
  client_port :: int
  is_shutdown :: bool
  socket_type :: int
  is_ws_shakehand :: bool

text \<open>Requests handed to libuv whose completion callback has not run: the request block, the
  buffer it owns, and which callback completes it.\<close>

datatype completion = Ws_After_Write | Tcp_After_Write | On_Uv_Send_Finished | After_Udp_Send | No_Callback

record request =
  req_addr :: addr
  req_buf :: addr
  req_done :: completion

datatype uv_call =
    Uv_Write addr "byte list"
  | Uv_Shutdown addr
  | Uv_Close addr
  | Uv_Udp_Send string int "byte list"
  | Uv_Read_Start addr
  | Uv_Tcp_Connect addr string int

record 'a world =
  slots :: "nat \<Rightarrow> addr option"
  proto :: proto_state
  mem :: memory
  sessions :: "addr \<rightharpoonup> session"
  pending :: "request list"
  calls :: "uv_call list"
  app :: 'a

section \<open>Services\<close>

record ('m, 'a) service =
  use_raw_cmd :: bool
  on_session_connect :: "addr \<Rightarrow> nat \<Rightarrow> 'a world \<Rightarrow> 'a world option"
  on_session_recv_raw :: "addr \<Rightarrow> raw_cmd_msg \<Rightarrow> 'a world \<Rightarrow> (bool \<times> raw_cmd_msg \<times> 'a world) option"
  on_session_recv_cmd :: "addr \<Rightarrow> 'm cmd_msg \<Rightarrow> 'a world \<Rightarrow> (bool \<times> 'a world) option"
  on_session_disconnect :: "addr \<Rightarrow> nat \<Rightarrow> 'a world \<Rightarrow> 'a world option"

text \<open>The base class \<open>Service\<close>: reject everything, react to nothing.\<close>

definition base_service :: "('m, 'a) service" where
  "base_service = \<lparr>use_raw_cmd = False,
     on_session_connect = (\<lambda>_ _ w. Some w),
     on_session_recv_raw = (\<lambda>_ raw w. Some (False, raw, w)),
     on_session_recv_cmd = (\<lambda>_ _ w. Some (False, w)),
     on_session_disconnect = (\<lambda>_ _ w. Some w)\<rparr>"

text \<open>What the program takes from outside: the services' code, the protobuf library, the
  sizes of libuv's request types, and whether \<open>uv_shutdown\<close> reports an error.\<close>

record ('d, 'm, 'a) env =
  vtable :: "addr \<Rightarrow> ('m, 'a) service"
  pb_lib :: "('d, 'm) protobuf"
  sizeof_uv_session :: nat
  sizeof_write :: nat
  sizeof_udp_send :: nat
  uv_shutdown_fails :: "addr \<Rightarrow> 'a world \<Rightarrow> bool"

section \<open>ServiceManager\<close>

definition max_service :: nat where "max_service = 512"

text \<open>\<open>memset(g_service_set, 0, MAX_SERVICE)\<close> clears \<open>MAX_SERVICE\<close> bytes, not entries.\<close>

definition service_manager_init :: "nat \<Rightarrow> 'a world \<Rightarrow> 'a world" where
  "service_manager_init sizeof_ptr w =
     w\<lparr>slots := (\<lambda>i. if i < max_service div sizeof_ptr then None else slots w i)\<rparr>"

definition register_service :: "int \<Rightarrow> addr \<Rightarrow> 'a world \<Rightarrow> bool \<times> 'a world" where
  "register_service type s w =
     (if type < 0 \<or> type \<ge> int max_service then (False, w)
      else if slots w (nat type) \<noteq> None then (False, w)
      else (True, w\<lparr>slots := (slots w)(nat type := Some s)\<rparr>))"

text \<open>The loop over \<open>g_service_set\<close>: the table is read again in every round.\<close>

fun each_service :: "(addr \<Rightarrow> nat \<Rightarrow> 'a world \<Rightarrow> 'a world option) \<Rightarrow> nat list \<Rightarrow> 'a world \<Rightarrow> 'a world option" where
  "each_service f [] w = Some w"
| "each_service f (i # ix) w = (case slots w i of
     None \<Rightarrow> each_service f ix w
   | Some s \<Rightarrow> do { w \<leftarrow> f s i w; each_service f ix w })"

definition sm_on_session_connect :: "('d, 'm, 'a) env \<Rightarrow> addr \<Rightarrow> 'a world \<Rightarrow> 'a world option" where
  "sm_on_session_connect e sid w =
     each_service (\<lambda>s i w. on_session_connect (vtable e s) sid i w) [0..<max_service] w"

definition sm_on_session_disconnect :: "('d, 'm, 'a) env \<Rightarrow> addr \<Rightarrow> 'a world \<Rightarrow> 'a world option" where
  "sm_on_session_disconnect e sid w =
     each_service (\<lambda>s i w. on_session_disconnect (vtable e s) sid i w) [0..<max_service] w"

definition on_recv_raw_cmd ::
    "('d, 'm, 'a) env \<Rightarrow> addr \<Rightarrow> raw_cmd_msg \<Rightarrow> 'a world \<Rightarrow> (bool \<times> raw_cmd_msg \<times> 'a world) option" where
  "on_recv_raw_cmd e sid raw w =
     (if r_stype raw < 0 \<or> r_stype raw \<ge> int max_service then None
      else case slots w (nat (r_stype raw)) of
        None \<Rightarrow> Some (False, raw, w)
      | Some s \<Rightarrow>
          if use_raw_cmd (vtable e s) then on_session_recv_raw (vtable e s) sid raw w
          else do {
            (msg, ps, m) \<leftarrow> decode_cmd_msg (pb_lib e) (raw_data raw) (raw_len raw) (proto w) (mem w);
            let w = w\<lparr>proto := ps, mem := m\<rparr>;
            (case msg of
               None \<Rightarrow> Some (False, raw, w)
             | Some msg \<Rightarrow> do {
                 (ret, w) \<leftarrow> on_session_recv_cmd (vtable e s) sid msg w;
                 m \<leftarrow> cmd_msg_free msg (proto w) (mem w);
                 Some (ret, raw, w\<lparr>mem := m\<rparr>) }) })"

section \<open>Lemmas\<close>

lemma register_service_bounds:
  "register_service t s w = (True, w') \<Longrightarrow> 0 \<le> t \<and> t < 512 \<and> slots w (nat t) = None"
  by (auto simp: register_service_def max_service_def split: if_splits)

lemma each_service_none: "\<forall>i \<in> set ix. slots w i = None \<Longrightarrow> each_service f ix w = Some w"
  by (induction ix) auto

text \<open>A handler that leaves the table alone is called once for every registered service, in
  slot order.\<close>

lemma each_service_trace:
  assumes "\<And>s i w. f s i w = Some (g s i w)" and "\<And>s i w. slots (g s i w) = slots w"
  shows "each_service f ix w =
    Some (fold (\<lambda>(s, i). g s i) (List.map_filter (\<lambda>i. map_option (\<lambda>s. (s, i)) (slots w i)) ix) w)"
proof (induction ix arbitrary: w)
  case Nil
  then show ?case by (simp add: List.map_filter_simps)
next
  case (Cons i ix)
  then show ?case using assms
    by (cases "slots w i") (simp_all add: List.map_filter_simps)
qed

section \<open>Concrete environment for the witnesses\<close>

text \<open>One service (pointer 1, registered under type 3) that records what it receives.\<close>

definition record_service :: "bool \<Rightarrow> ('m, byte list list) service" where
  "record_service raw = base_service\<lparr>use_raw_cmd := raw,
     on_session_recv_raw := (\<lambda>_ r w. Some (True, r, w\<lparr>app := app w @ [raw_data r]\<rparr>)),
     on_session_recv_cmd := (\<lambda>_ _ w. Some (True, w\<lparr>app := app w @ [[]]\<rparr>))\<rparr>"

definition env_example :: "bool \<Rightarrow> (unit, byte list, byte list list) env" where
  "env_example raw = \<lparr>vtable = (\<lambda>_. record_service raw), pb_lib = pb_example,
     sizeof_uv_session = 64, sizeof_write = 64, sizeof_udp_send = 64,
     uv_shutdown_fails = (\<lambda>_ _. False)\<rparr>"

definition world0 :: "byte list list world" where
  "world0 = \<lparr>slots = (\<lambda>i. if i = 3 then Some 1 else None), proto = ps_json, mem = mem0,
     sessions = Map.empty, pending = [], calls = [], app = []\<rparr>"

section \<open>Properties\<close>

fun register_all :: "(int \<times> addr) list \<Rightarrow> 'a world \<Rightarrow> bool list \<times> 'a world" where
  "register_all [] w = ([], w)"
| "register_all ((t, s) # rs) w =
     (case register_service t s w of (b, w) \<Rightarrow>
      case register_all rs w of (bs, w) \<Rightarrow> (b # bs, w))"

lemma register_service_slots:
  "register_service t s w = (b, w') \<Longrightarrow>
   slots w' i = (if b \<and> i = nat t then Some s else slots w i) \<and>
   (b \<longleftrightarrow> 0 \<le> t \<and> t < 512 \<and> slots w (nat t) = None)"
  by (auto simp: register_service_def max_service_def split: if_splits)

text \<open>Registration never overwrites: whatever sequence of registrations is
  tried, a slot that holds a service keeps it, no slot outside 0..511 is ever filled, and each
  call reports success exactly when the type is in range and its slot was still empty.\<close>

theorem register_all_slots:
  "case register_all rs w of (bs, w') \<Rightarrow>
     slots w' i = (case slots w i of
       Some s \<Rightarrow> Some s
     | None \<Rightarrow> if i < 512 then map_of rs (int i) else None)"
proof (induction rs arbitrary: w)
  case Nil
  then show ?case by (simp split: option.split)
next
  case (Cons r rs)
  obtain t s where r: "r = (t, s)" by (cases r)
  obtain b w1 where b: "register_service t s w = (b, w1)" by (cases "register_service t s w")
  obtain bs w2 where bs: "register_all rs w1 = (bs, w2)" by (cases "register_all rs w1")
  note S = register_service_slots [OF b, of i]
  have "slots w2 i = (case slots w1 i of Some s \<Rightarrow> Some s
     | None \<Rightarrow> if i < 512 then map_of rs (int i) else None)"
    using Cons.IH [of w1] bs by simp
  then show ?case using S b bs r by (auto split: option.splits)
qed

lemma recv_cmd_delivered:
  assumes "0 \<le> r_stype raw" "r_stype raw < 512" "slots w (nat (r_stype raw)) = Some s"
    and "\<not> use_raw_cmd (vtable e s)" "mem_ok (mem w)"
    and dec: "decode_cmd_msg (pb_lib e) (raw_data raw) (raw_len raw) (proto w) (mem w) = Some (Some msg, ps, m)"
    and "on_session_recv_cmd (vtable e s) sid msg (w\<lparr>proto := ps, mem := m\<rparr>) = Some (ret, w2)"
    and "proto w2 = ps" "mem w2 = m"
  shows "\<exists>m3. on_recv_raw_cmd e sid raw w = Some (ret, raw, w2\<lparr>mem := m3\<rparr>) \<and>
    footprint m3 = footprint (mem w) \<and> mem_ok m3"
proof -
  obtain m3 where "cmd_msg_free msg ps m = Some m3" "mem_ok m3" "footprint m3 = footprint (mem w)"
    using memory_balance [OF assms(5) dec] by (auto simp: released_def)
  then show ?thesis using assms
    by (intro exI [of _ m3]) (simp add: on_recv_raw_cmd_def max_service_def)
qed

text \<open>A decoded command goes to the command handler of the service
  registered under its type; the manager returns the handler's verdict and the handler's
  world, and gives back every block and message the decoder allocated.\<close>

theorem on_recv_raw_cmd_delivers:
  assumes "0 \<le> r_stype raw" "r_stype raw < 512" "slots w (nat (r_stype raw)) = Some s"
    and "\<not> use_raw_cmd (vtable e s)" "mem_ok (mem w)"
    and "decode_cmd_msg (pb_lib e) (raw_data raw) (raw_len raw) (proto w) (mem w) = Some (Some msg, ps, m)"
    and "on_session_recv_cmd (vtable e s) sid msg (w\<lparr>proto := ps, mem := m\<rparr>) = Some (ret, w2)"
    and "proto w2 = ps" "mem w2 = m"
  shows "\<exists>m3. on_recv_raw_cmd e sid raw w = Some (ret, raw, w2\<lparr>mem := m3\<rparr>) \<and>
    footprint m3 = footprint (mem w) \<and> mem_ok m3"
  by (rule recv_cmd_delivered [OF assms])

theorem on_recv_raw_cmd_delivers_witness:
  "\<exists>m3. on_recv_raw_cmd (env_example False) 5 \<lparr>r_stype = 3, r_ctype = 2, r_utag = 0,
       raw_data = [3, 0, 2, 0, 0, 0, 0, 0], raw_len = 8\<rparr> world0 =
     Some (True, \<lparr>r_stype = 3, r_ctype = 2, r_utag = 0,
       raw_data = [3, 0, 2, 0, 0, 0, 0, 0], raw_len = 8\<rparr>, world0\<lparr>app := [[]], mem := m3\<rparr>) \<and>
     footprint m3 = footprint mem0"
proof -
  let ?raw = "\<lparr>r_stype = 3, r_ctype = 2, r_utag = 0, raw_data = [3, 0, 2, 0, 0, 0, 0, 0], raw_len = 8\<rparr>"
  let ?e = "env_example False"
  obtain a m1 where a: "small_alloc_mem sizeof_cmd_msg mem0 = (a, m1)" by (cases "small_alloc_mem sizeof_cmd_msg mem0")
  let ?msg = "\<lparr>msg_addr = a, c_stype = 3, c_ctype = 2, c_utag = 0, c_body = None\<rparr> :: byte list cmd_msg"
  have d: "decode_cmd_msg (pb_lib ?e) (raw_data ?raw) (raw_len ?raw) (proto world0) (mem world0) =
      Some (Some ?msg, ps_json, m1)"
    using a by (simp add: decode_cmd_msg_def cmd_header_size_def decode_header_def rd_def le16_sum le32_def
        world0_def)
  have r: "on_session_recv_cmd (vtable ?e 1) 5 ?msg (world0\<lparr>proto := ps_json, mem := m1\<rparr>) =
      Some (True, world0\<lparr>app := [[]], mem := m1\<rparr>)"
    by (simp add: env_example_def record_service_def base_service_def world0_def)
  have s: "slots world0 (nat (r_stype ?raw)) = Some 1" "\<not> use_raw_cmd (vtable ?e 1)" "mem_ok (mem world0)"
    by (simp_all add: world0_def env_example_def record_service_def mem0_ok)
  have p: "proto (world0\<lparr>app := [[]], mem := m1\<rparr>) = ps_json" "mem (world0\<lparr>app := [[]], mem := m1\<rparr>) = m1"
    by (simp_all add: world0_def)
  have "mem world0 = mem0" by (simp add: world0_def)
  with on_recv_raw_cmd_delivers [OF _ _ s d r p] show ?thesis by auto
qed

end
