(* ===== verification/Session.thy ===== *)
theory Session
  imports Service_Manager
begin

text \<open>
  netbus/session_uv.cc and netbus/udp_session.cc: sessions, what they send, how they are
  closed and destroyed, and the libuv completion callbacks that release the buffers.

  A call into libuv is appended to \<open>calls\<close>; a request whose callback is still to come is
  appended to \<open>pending\<close>, and \<open>complete_request\<close> runs that callback.
\<close>

section \<open>Allocators of the sessions\<close>

definition session_cache_capacity :: nat where "session_cache_capacity = 6144"
definition writing_req_cache_capacity :: nat where "writing_req_cache_capacity = 4096"
definition wbuf_cache_capacity :: nat where "wbuf_cache_capacity = 1024"
definition wbuf_cache_size :: nat where "wbuf_cache_size = 1024"

text \<open>\<open>init_session_allocator\<close>: the three allocators are created on the first call only.\<close>

definition init_session_allocator :: "('d, 'm, 'a) env \<Rightarrow> memory option \<Rightarrow> memory" where
  "init_session_allocator e m = (case m of
     Some m \<Rightarrow> m
   | None \<Rightarrow> \<lparr>wbuf = create_cache_allocator wbuf_cache_capacity wbuf_cache_size empty_heap,
              wreq = create_cache_allocator writing_req_cache_capacity (sizeof_write e) empty_heap,
              sess_pool = create_cache_allocator session_cache_capacity (sizeof_uv_session e) empty_heap,
              small = (None, empty_heap), pb_count = 0\<rparr>)"

definition wreq_alloc :: "nat \<Rightarrow> 'a world \<Rightarrow> addr \<times> 'a world" where
  "wreq_alloc n w = (case cache_alloc n (wreq (mem w)) of (p, s) \<Rightarrow> (p, w\<lparr>mem := (mem w)\<lparr>wreq := s\<rparr>\<rparr>))"

definition wreq_free :: "addr \<Rightarrow> 'a world \<Rightarrow> 'a world option" where
  "wreq_free p w = map_option (\<lambda>s. w\<lparr>mem := (mem w)\<lparr>wreq := s\<rparr>\<rparr>) (cache_free p (wreq (mem w)))"

definition set_wbuf :: "pool \<Rightarrow> 'a world \<Rightarrow> 'a world" where
  "set_wbuf s w = w\<lparr>mem := (mem w)\<lparr>wbuf := s\<rparr>\<rparr>"

definition wbuf_free :: "addr \<Rightarrow> 'a world \<Rightarrow> 'a world option" where
  "wbuf_free p w = map_option (\<lambda>s. set_wbuf s w) (cache_free p (wbuf (mem w)))"

section \<open>Life cycle\<close>

text \<open>\<open>new UVSession()\<close> zero-initialises the object, \<open>init\<close> writes the same values.\<close>

definition fresh_session :: session where
  "fresh_session = \<lparr>sclass = UV_Session, as_client = 0, utag = 0, uid = 0, client_address = [],
     client_port = 0, is_shutdown = False, socket_type = session_type_tcp, is_ws_shakehand = False\<rparr>"

definition create_session :: "('d, 'm, 'a) env \<Rightarrow> 'a world \<Rightarrow> addr \<times> 'a world" where
  "create_session e w =
     (case cache_alloc (sizeof_uv_session e) (sess_pool (mem w)) of (p, s) \<Rightarrow>
        (p, w\<lparr>mem := (mem w)\<lparr>sess_pool := s\<rparr>, sessions := (sessions w)(p \<mapsto> fresh_session)\<rparr>))"

definition destroy_session :: "addr \<Rightarrow> 'a world \<Rightarrow> 'a world option" where
  "destroy_session p w =
     map_option (\<lambda>s. w\<lparr>mem := (mem w)\<lparr>sess_pool := s\<rparr>, sessions := (sessions w)(p := None)\<rparr>)
       (cache_free p (sess_pool (mem w)))"

definition log_call :: "uv_call \<Rightarrow> 'a world \<Rightarrow> 'a world" where
  "log_call c w = w\<lparr>calls := calls w @ [c]\<rparr>"

definition set_session :: "addr \<Rightarrow> (session \<Rightarrow> session) \<Rightarrow> 'a world \<Rightarrow> 'a world option" where
  "set_session p f w = (case sessions w p of
     None \<Rightarrow> None
   | Some s \<Rightarrow> Some (w\<lparr>sessions := (sessions w)(p \<mapsto> f s)\<rparr>))"

text \<open>\<open>UVSession::close\<close>.\<close>

definition uv_session_close :: "('d, 'm, 'a) env \<Rightarrow> addr \<Rightarrow> 'a world \<Rightarrow> 'a world option" where
  "uv_session_close e p w = do {
     s \<leftarrow> sessions w p;
     if is_shutdown s then Some w
     else do {
       w \<leftarrow> sm_on_session_disconnect e p w;
       w \<leftarrow> set_session p (\<lambda>s. s\<lparr>is_shutdown := True\<rparr>) w;
       let w = log_call (Uv_Shutdown p) w;
       Some (if uv_shutdown_fails e p w then log_call (Uv_Close p) w else w) } }"

text \<open>\<open>UDPSession::close\<close> does nothing; \<open>close\<close> is virtual.\<close>

definition udp_session_close :: "addr \<Rightarrow> 'a world \<Rightarrow> 'a world option" where
  "udp_session_close p w = Some w"

definition session_close :: "('d, 'm, 'a) env \<Rightarrow> addr \<Rightarrow> 'a world \<Rightarrow> 'a world option" where
  "session_close e p w = do {
     s \<leftarrow> sessions w p;
     (case sclass s of UV_Session \<Rightarrow> uv_session_close e p w | UDP_Session \<Rightarrow> udp_session_close p w) }"

text \<open>\<open>on_uv_shutdown\<close> and \<open>on_uv_close\<close>.\<close>

definition on_uv_shutdown :: "addr \<Rightarrow> 'a world \<Rightarrow> 'a world" where
  "on_uv_shutdown p w = log_call (Uv_Close p) w"

definition on_uv_close :: "addr \<Rightarrow> 'a world \<Rightarrow> 'a world option" where
  "on_uv_close p w = destroy_session p w"

section \<open>Sending\<close>

definition add_pending :: "request \<Rightarrow> 'a world \<Rightarrow> 'a world" where
  "add_pending r w = w\<lparr>pending := pending w @ [r]\<rparr>"

text \<open>The static \<open>response_buf[512]\<close> of the WebSocket branch.\<close>

definition response_buf_size :: nat where "response_buf_size = 512"

definition uv_send_data :: "('d, 'm, 'a) env \<Rightarrow> addr \<Rightarrow> byte list \<Rightarrow> 'a world \<Rightarrow> 'a world option" where
  "uv_send_data e p data w = do {
     s \<leftarrow> sessions w p;
     (case wreq_alloc (sizeof_write e) w of (req, w) \<Rightarrow>
       if socket_type s = session_type_ws then
         if is_ws_shakehand s then
           (if length data \<le> response_buf_size
            then Some (add_pending \<lparr>req_addr = req, req_buf = 0, req_done = No_Callback\<rparr>
                   (log_call (Uv_Write p data) w))
            else None)
         else do {
           (buf, bytes, pool) \<leftarrow> package_ws_send_data data (wbuf (mem w));
           Some (add_pending \<lparr>req_addr = req, req_buf = buf, req_done = Ws_After_Write\<rparr>
             (log_call (Uv_Write p bytes) (set_wbuf pool w))) }
       else if socket_type s = session_type_tcp then
         (case tcp_package data (wbuf (mem w)) of (buf, bytes, pool) \<Rightarrow>
           Some (add_pending \<lparr>req_addr = req, req_buf = buf, req_done = Tcp_After_Write\<rparr>
             (log_call (Uv_Write p bytes) (set_wbuf pool w))))
       else Some w) }"

definition udp_send_data :: "('d, 'm, 'a) env \<Rightarrow> addr \<Rightarrow> byte list \<Rightarrow> 'a world \<Rightarrow> 'a world option" where
  "udp_send_data e p data w = do {
     s \<leftarrow> sessions w p;
     (case small_alloc_mem (sizeof_udp_send e) (mem w) of (req, m) \<Rightarrow>
       Some (add_pending \<lparr>req_addr = req, req_buf = 0, req_done = On_Uv_Send_Finished\<rparr>
         (log_call (Uv_Udp_Send (client_address s) (client_port s) data) (w\<lparr>mem := m\<rparr>)))) }"

definition send_data :: "('d, 'm, 'a) env \<Rightarrow> addr \<Rightarrow> byte list \<Rightarrow> 'a world \<Rightarrow> 'a world option" where
  "send_data e p data w = do {
     s \<leftarrow> sessions w p;
     (case sclass s of UV_Session \<Rightarrow> uv_send_data e p data w | UDP_Session \<Rightarrow> udp_send_data e p data w) }"

text \<open>\<open>send_msg\<close>: encode, send, release the encoding (the UDP variant also prints when
  encoding fails).\<close>

definition send_msg :: "('d, 'm, 'a) env \<Rightarrow> addr \<Rightarrow> 'm cmd_msg \<Rightarrow> 'a world \<Rightarrow> 'a world option" where
  "send_msg e p msg w = do {
     (enc, m) \<leftarrow> encode_msg_to_raw (pb_lib e) msg (proto w) (mem w);
     (case enc of
        None \<Rightarrow> Some (w\<lparr>mem := m\<rparr>)
      | Some (q, bytes) \<Rightarrow> do {
          w \<leftarrow> send_data e p bytes (w\<lparr>mem := m\<rparr>);
          m \<leftarrow> raw_msg_free q (mem w);
          Some (w\<lparr>mem := m\<rparr>) }) }"

definition send_raw_cmd :: "('d, 'm, 'a) env \<Rightarrow> addr \<Rightarrow> raw_cmd_msg \<Rightarrow> 'a world \<Rightarrow> 'a world option" where
  "send_raw_cmd e p raw w = do {
     b \<leftarrow> bytes_at (raw_data raw) 0 (nat (raw_len raw));
     send_data e p b w }"

definition get_address :: "addr \<Rightarrow> 'a world \<Rightarrow> (string \<times> int) option" where
  "get_address p w = map_option (\<lambda>s. (client_address s, client_port s)) (sessions w p)"

text \<open>The completion callbacks \<open>ws_after_write\<close>, \<open>tcp_after_write\<close> (both ignore the status),
  \<open>on_uv_send_finished\<close> and \<open>after_udp_send\<close>.\<close>

definition ws_after_write :: "request \<Rightarrow> 'a world \<Rightarrow> 'a world option" where
  "ws_after_write r w = do { w \<leftarrow> wbuf_free (req_buf r) w; wreq_free (req_addr r) w }"

definition tcp_after_write :: "request \<Rightarrow> 'a world \<Rightarrow> 'a world option" where
  "tcp_after_write r w = do { w \<leftarrow> wbuf_free (req_buf r) w; wreq_free (req_addr r) w }"

definition on_uv_send_finished :: "request \<Rightarrow> int \<Rightarrow> 'a world \<Rightarrow> 'a world option" where
  "on_uv_send_finished r status w =
     (if status \<noteq> 0 then Some w
      else map_option (\<lambda>m. w\<lparr>mem := m\<rparr>) (small_free_mem (req_addr r) (mem w)))"

definition after_udp_send :: "request \<Rightarrow> 'a world \<Rightarrow> 'a world option" where
  "after_udp_send r w = map_option (\<lambda>m. w\<lparr>mem := m\<rparr>) (small_free_mem (req_addr r) (mem w))"

definition run_completion :: "request \<Rightarrow> int \<Rightarrow> 'a world \<Rightarrow> 'a world option" where
  "run_completion r status w = (case req_done r of
     Ws_After_Write \<Rightarrow> ws_after_write r w
   | Tcp_After_Write \<Rightarrow> tcp_after_write r w
   | On_Uv_Send_Finished \<Rightarrow> on_uv_send_finished r status w
   | After_Udp_Send \<Rightarrow> after_udp_send r w
   | No_Callback \<Rightarrow> Some w)"

text \<open>The event loop completes the \<open>i\<close>th pending request.\<close>

definition complete_request :: "nat \<Rightarrow> int \<Rightarrow> 'a world \<Rightarrow> 'a world option" where
  "complete_request i status w =
     (if i < length (pending w)
      then run_completion (pending w ! i) status
             (w\<lparr>pending := take i (pending w) @ drop (Suc i) (pending w)\<rparr>)
      else None)"

section \<open>Ownership of requests and buffers\<close>

text \<open>\<open>owns B C w\<close>: apart from the blocks \<open>B\<close> and \<open>C\<close>, the live write requests and
  write buffers are exactly those of the pending writes, each owned by one of them.\<close>

definition owns :: "addr set \<Rightarrow> addr set \<Rightarrow> 'a world \<Rightarrow> bool" where
  "owns B C w \<longleftrightarrow> mem_ok (mem w) \<and>
     (\<forall>r \<in> set (pending w). req_done r = Ws_After_Write \<or> req_done r = Tcp_After_Write) \<and>
     distinct (map req_addr (pending w)) \<and> distinct (map req_buf (pending w)) \<and>
     live (wreq (mem w)) = B \<union> req_addr ` set (pending w) \<and> B \<inter> req_addr ` set (pending w) = {} \<and>
     live (wbuf (mem w)) = C \<union> req_buf ` set (pending w) \<and> C \<inter> req_buf ` set (pending w) = {}"

lemma wreq_allocE:
  assumes "mem_ok (mem w)" "wreq_alloc n w = (p, w')"
  shows "mem_ok (mem w')" "live (wreq (mem w')) = insert p (live (wreq (mem w)))"
    "p \<notin> live (wreq (mem w))" "w' = w\<lparr>mem := (mem w)\<lparr>wreq := wreq (mem w')\<rparr>\<rparr>"
proof -
  obtain q t where q: "cache_alloc n (wreq (mem w)) = (q, t)" by (cases "cache_alloc n (wreq (mem w))")
  with assms(2) have e: "p = q" "w' = w\<lparr>mem := (mem w)\<lparr>wreq := t\<rparr>\<rparr>" by (simp_all add: wreq_alloc_def)
  have i: "pool_inv (wreq (mem w))" using assms(1) by (simp add: mem_ok_def)
  show "mem_ok (mem w')" using assms(1) cache.alloc_invar [OF i q] by (simp add: e mem_ok_def)
  show "live (wreq (mem w')) = insert p (live (wreq (mem w)))" using cache.alloc_owned [OF i q] by (simp add: e)
  show "p \<notin> live (wreq (mem w))" using cache.alloc_fresh [OF i q] by (simp add: e)
  show "w' = w\<lparr>mem := (mem w)\<lparr>wreq := wreq (mem w')\<rparr>\<rparr>" by (simp add: e)
qed

text \<open>Building a package takes one block from \<open>wbuf_allocator\<close>.\<close>

lemma tcp_package_alloc:
  "tcp_package d s = (p, bs, s') \<Longrightarrow> cache_alloc (length d + 2) s = (p, s') \<and> bs = tcp_frame d"
  by (auto simp: tcp_package_def split: prod.splits)

lemma ws_package_alloc:
  "package_ws_send_data d s = Some (p, bs, s') \<Longrightarrow> \<exists>n. cache_alloc n s = (p, s')"
  by (auto simp: package_ws_send_data_def Let_def bind_eq_Some_conv split: prod.splits)

lemma owns_add:
  assumes own: "owns B C w" and r: "wreq_alloc n w = (req, w1)"
    and b: "cache_alloc k (wbuf (mem w1)) = (buf, pool)"
    and c: "c = Ws_After_Write \<or> c = Tcp_After_Write"
  shows "owns B C (add_pending \<lparr>req_addr = req, req_buf = buf, req_done = c\<rparr>
           (log_call x (set_wbuf pool w1)))"
proof -
  have ok: "mem_ok (mem w)" using own by (simp add: owns_def)
  note R = wreq_allocE [OF ok r]
  have w1: "pending w1 = pending w" "wbuf (mem w1) = wbuf (mem w)" by (subst R(4), simp)+
  have i: "pool_inv (wbuf (mem w1))" using R(1) by (simp add: mem_ok_def)
  note W = cache.alloc_invar [OF i b] cache.alloc_fresh [OF i b] cache.alloc_owned [OF i b]
  have "mem_ok ((mem w1)\<lparr>wbuf := pool\<rparr>)" using R(1) W(1) by (simp add: mem_ok_def)
  then show ?thesis using own R(2,3) W(2,3) c w1
    by (auto simp: owns_def add_pending_def log_call_def set_wbuf_def)
qed

definition framed :: "session \<Rightarrow> bool" where
  "framed s \<longleftrightarrow> sclass s = UV_Session \<and>
     (socket_type s = session_type_tcp \<or> socket_type s = session_type_ws \<and> \<not> is_ws_shakehand s)"

lemma send_data_owns:
  assumes own: "owns B C w" and "sessions w p = Some s" "framed s"
    and send: "send_data e p d w = Some w'"
  shows "owns B C w' \<and> sessions w' = sessions w \<and> proto w' = proto w"
proof -
  obtain req w1 where r: "wreq_alloc (sizeof_write e) w = (req, w1)" by (cases "wreq_alloc (sizeof_write e) w")
  have ok: "mem_ok (mem w)" using own by (simp add: owns_def)
  have w1: "sessions w1 = sessions w" "proto w1 = proto w"
    by (subst wreq_allocE(4) [OF ok r], simp)+
  note E = send [unfolded send_data_def uv_send_data_def, simplified assms(2) r, simplified]
  show ?thesis
  proof (cases "socket_type s = session_type_ws")
    case True
    with assms(3) E obtain buf bs pool where b: "package_ws_send_data d (wbuf (mem w1)) = Some (buf, bs, pool)"
      "w' = add_pending \<lparr>req_addr = req, req_buf = buf, req_done = Ws_After_Write\<rparr>
         (log_call (Uv_Write p bs) (set_wbuf pool w1))"
      by (auto simp: framed_def session_type_tcp_def session_type_ws_def bind_eq_Some_conv)
    obtain k where "cache_alloc k (wbuf (mem w1)) = (buf, pool)" using ws_package_alloc [OF b(1)] by blast
    from owns_add [OF own r this] show ?thesis using w1
      by (simp add: b(2)) (simp add: add_pending_def log_call_def set_wbuf_def)
  next
    case False
    obtain buf bs pool where b: "tcp_package d (wbuf (mem w1)) = (buf, bs, pool)"
      by (cases "tcp_package d (wbuf (mem w1))") auto
    with False assms(3) E have w': "w' = add_pending \<lparr>req_addr = req, req_buf = buf,
        req_done = Tcp_After_Write\<rparr> (log_call (Uv_Write p bs) (set_wbuf pool w1))"
      by (auto simp: framed_def)
    note b' = conjunct1 [OF tcp_package_alloc [OF b]]
    from owns_add [OF own r b', of Tcp_After_Write "Uv_Write p bs"] show ?thesis using w1
      by (simp add: w') (simp add: add_pending_def log_call_def set_wbuf_def)
  qed
qed

lemma complete_owns:
  assumes own: "owns B C w" and i: "i < length (pending w)"
  shows "\<exists>w'. complete_request i st w = Some w' \<and> owns B C w' \<and>
    length (pending w') + 1 = length (pending w) \<and> sessions w' = sessions w"
proof -
  let ?r = "pending w ! i" and ?ps = "take i (pending w) @ drop (Suc i) (pending w)"
  have m: "mset (pending w) = add_mset ?r (mset ?ps)"
    using id_take_nth_drop [OF i] by (metis mset.simps(2) mset_append union_mset_add_mset_right)
  have set: "set (pending w) = insert ?r (set ?ps)" using m by (metis set_mset_mset set_mset_add_mset_insert)
  have perm: "mset (map f (pending w)) = mset (f ?r # map f ?ps)" for f :: "request \<Rightarrow> addr"
    using m by (metis mset.simps(2) list.simps(9) mset_map)
  have d: "distinct (req_addr ?r # map req_addr ?ps)" "distinct (req_buf ?r # map req_buf ?ps)"
    using own mset_eq_imp_distinct_iff [OF perm [of req_addr]] mset_eq_imp_distinct_iff [OF perm [of req_buf]]
    by (simp_all add: owns_def)
  have nin: "req_addr ?r \<notin> req_addr ` set ?ps" "req_buf ?r \<notin> req_buf ` set ?ps" using d by auto
  have ok: "mem_ok (mem w)" and rin: "?r \<in> set (pending w)" using own i by (auto simp: owns_def)
  have lr: "req_addr ?r \<in> live (wreq (mem w))" and lb: "req_buf ?r \<in> live (wbuf (mem w))"
    using own rin by (auto simp: owns_def)
  obtain q where q: "cache_free (req_addr ?r) (wreq (mem w)) = Some q" "pool_inv q"
    "live q = live (wreq (mem w)) - {req_addr ?r}"
    using cache.dealloc_ok [OF _ lr] ok by (auto simp: mem_ok_def)
  obtain t where t: "cache_free (req_buf ?r) (wbuf (mem w)) = Some t" "pool_inv t"
    "live t = live (wbuf (mem w)) - {req_buf ?r}"
    using cache.dealloc_ok [OF _ lb] ok by (auto simp: mem_ok_def)
  let ?w = "w\<lparr>pending := ?ps, mem := (mem w)\<lparr>wbuf := t, wreq := q\<rparr>\<rparr>"
  have kind: "req_done ?r = Ws_After_Write \<or> req_done ?r = Tcp_After_Write"
    using own rin by (simp add: owns_def)
  then have "complete_request i st w = Some ?w"
    using q(1) t(1) i
    by (elim disjE) (simp_all add: complete_request_def run_completion_def ws_after_write_def
        tcp_after_write_def wbuf_free_def wreq_free_def set_wbuf_def)
  moreover have "owns B C ?w"
    unfolding owns_def
  proof (intro conjI)
    show "mem_ok (mem ?w)" using ok q t by (simp add: mem_ok_def)
    show "\<forall>r \<in> set (pending ?w). req_done r = Ws_After_Write \<or> req_done r = Tcp_After_Write"
      using own set by (simp add: owns_def)
    show "distinct (map req_addr (pending ?w))" "distinct (map req_buf (pending ?w))" using d by simp_all
    show "live (wreq (mem ?w)) = B \<union> req_addr ` set (pending ?w)"
      "B \<inter> req_addr ` set (pending ?w) = {}"
      using own q(3) nin(1) set by (auto simp: owns_def)
    show "live (wbuf (mem ?w)) = C \<union> req_buf ` set (pending ?w)"
      "C \<inter> req_buf ` set (pending ?w) = {}"
      using own t(3) nin(2) set by (auto simp: owns_def)
  qed
  moreover have "length ?ps + 1 = length (pending w)" using i by simp
  moreover have "sessions ?w = sessions w" "pending ?w = ?ps" by simp_all
  ultimately show ?thesis by metis
qed

lemma send_msg_owns:
  assumes own: "owns B C w" and "sessions w p = Some s" "framed s"
    and send: "send_msg e p msg w = Some w'"
  shows "owns B C w'"
proof -
  have ok: "mem_ok (mem w)" using own by (simp add: owns_def)
  obtain r m where enc: "encode_msg_to_raw (pb_lib e) msg (proto w) (mem w) = Some (r, m)"
    using send by (cases "encode_msg_to_raw (pb_lib e) msg (proto w) (mem w)") (auto simp: send_msg_def)
  note M = encode_msg_memory [OF ok enc]
  have wr: "wreq m = wreq (mem w)" by (subst conjunct1 [OF conjunct2 [OF M]]) simp
  show ?thesis
  proof (cases r)
    case None
    then have "w' = w\<lparr>mem := m\<rparr>" using send enc by (simp add: send_msg_def)
    then show ?thesis using own M None wr by (simp add: owns_def)
  next
    case (Some qb)
    obtain q b where qb: "qb = (q, b)" by (cases qb)
    obtain w1 m2 where w1: "send_data e p b (w\<lparr>mem := m\<rparr>) = Some w1"
      "raw_msg_free q (mem w1) = Some m2" "w' = w1\<lparr>mem := m2\<rparr>"
      using send enc Some qb by (auto simp: send_msg_def bind_eq_Some_conv)
    show ?thesis
    proof (cases "q \<in> C")
      case True
      then show ?thesis using own M Some qb by (auto simp: owns_def)
    next
      case False
      have "owns B (insert q C) (w\<lparr>mem := m\<rparr>)" using own M Some qb wr by (auto simp: owns_def)
      then have o1: "owns B (insert q C) w1" using send_data_owns [OF _ _ assms(3) w1(1)] assms(2) by simp
      then have q: "q \<in> live (wbuf (mem w1))" "mem_ok (mem w1)" by (auto simp: owns_def)
      obtain t where t: "raw_msg_free q (mem w1) = Some ((mem w1)\<lparr>wbuf := t\<rparr>)" "mem_ok ((mem w1)\<lparr>wbuf := t\<rparr>)"
        "live t = live (wbuf (mem w1)) - {q}"
        using wbuf_free_memI [OF q(2,1)] unfolding raw_msg_free_def by blast
      have "m2 = (mem w1)\<lparr>wbuf := t\<rparr>" using t(1) w1(2) by simp
      then show ?thesis using o1 t(2,3) w1(3) False by (auto simp: owns_def)
    qed
  qed
qed

section \<open>The life of write requests as a step relation\<close>

text \<open>The program sends on a session whose data is packaged, or libuv completes any one of
  the pending requests, in any order and interleaving.\<close>

inductive write_step :: "('d, 'm, 'a) env \<Rightarrow> 'a world \<Rightarrow> 'a world \<Rightarrow> bool" for e where
  send: "sessions w p = Some s \<Longrightarrow> framed s \<Longrightarrow> send_data e p d w = Some w' \<Longrightarrow> write_step e w w'"
| msg: "sessions w p = Some s \<Longrightarrow> framed s \<Longrightarrow> send_msg e p m w = Some w' \<Longrightarrow> write_step e w w'"
| complete: "complete_request i st w = Some w' \<Longrightarrow> write_step e w w'"

lemma write_step_owns: "write_step e w w' \<Longrightarrow> owns B C w \<Longrightarrow> owns B C w'"
proof (induction rule: write_step.induct)
  case (send w p s d w')
  then show ?case using send_data_owns by blast
next
  case (msg w p s m w')
  then show ?case using send_msg_owns by blast
next
  case (complete i st w w')
  then have "i < length (pending w)" by (auto simp: complete_request_def split: if_splits)
  from complete_owns [OF complete.prems this, of st] complete.hyps show ?case by auto
qed

lemma write_steps_owns: "(write_step e)\<^sup>*\<^sup>* w w' \<Longrightarrow> owns B C w \<Longrightarrow> owns B C w'"
  by (induction rule: rtranclp_induct) (auto intro: write_step_owns)

text \<open>Sending on a TCP session always succeeds and writes one package.\<close>

lemma send_data_tcp:
  assumes "sessions w p = Some s" "sclass s = UV_Session" "socket_type s = session_type_tcp"
  shows "\<exists>w'. send_data e p d w = Some w' \<and> calls w' = calls w @ [Uv_Write p (tcp_frame d)]"
proof -
  obtain q t where a: "cache_alloc (sizeof_write e) (wreq (mem w)) = (q, t)"
    by (cases "cache_alloc (sizeof_write e) (wreq (mem w))")
  obtain b u where b: "cache_alloc (length d + 2) (wbuf (mem w)) = (b, u)"
    by (cases "cache_alloc (length d + 2) (wbuf (mem w))")
  show ?thesis using assms a b
    by (simp add: send_data_def uv_send_data_def wreq_alloc_def tcp_package_def add_pending_def log_call_def
        set_wbuf_def session_type_tcp_def session_type_ws_def)
qed

text \<open>On a TCP session an encoded message is written as one package, and its encoding is released.\<close>

lemma send_msg_tcp:
  assumes ok: "mem_ok (mem w)" and s: "sessions w p = Some s" "sclass s = UV_Session" "socket_type s = session_type_tcp"
    and enc: "encode_msg_to_raw (pb_lib e) msg (proto w) (mem w) = Some (Some (q, d), m)"
  shows "\<exists>w'. send_msg e p msg w = Some w' \<and> calls w' = calls w @ [Uv_Write p (tcp_frame d)]"
proof -
  have M: "mem_ok m" "q \<in> live (wbuf m)" using encode_msg_memory [OF ok enc] by auto
  obtain r t where a: "cache_alloc (sizeof_write e) (wreq m) = (r, t)" by (cases "cache_alloc (sizeof_write e) (wreq m)")
  obtain b u where b: "cache_alloc (length d + 2) (wbuf m) = (b, u)" by (cases "cache_alloc (length d + 2) (wbuf m)")
  have i: "pool_inv (wreq m)" "pool_inv (wbuf m)" using M(1) by (simp_all add: mem_ok_def)
  let ?m = "m\<lparr>wreq := t, wbuf := u\<rparr>"
  have "mem_ok ?m" using M(1) cache.alloc_invar [OF i(1) a] cache.alloc_invar [OF i(2) b] by (simp add: mem_ok_def)
  moreover have "q \<in> live (wbuf ?m)" using cache.alloc_owned [OF i(2) b] M(2) by simp
  ultimately obtain v where "raw_msg_free q ?m = Some v" using wbuf_free_memI [of ?m q] by (auto simp: raw_msg_free_def)
  then show ?thesis using s enc a b
    by (simp add: send_msg_def send_data_def uv_send_data_def wreq_alloc_def tcp_package_def add_pending_def log_call_def
        set_wbuf_def session_type_tcp_def session_type_ws_def)
qed

text \<open>A world with one open TCP session, for the witnesses.\<close>

definition world_tcp :: "byte list list world" where
  "world_tcp = world0\<lparr>sessions := [40 \<mapsto> fresh_session]\<rparr>"

section \<open>Properties\<close>



text \<open>Closing is idempotent. Whatever the services do when told, a second
  \<open>close\<close> of a session changes nothing: no second notification and no second
  \<open>uv_shutdown\<close>.\<close>

theorem close_idempotent:
  assumes "session_close e p w = Some w'"
  shows "session_close e p w' = Some w'"
proof (cases "sessions w p")
  case None
  with assms show ?thesis by (simp add: session_close_def)
next
  case (Some s)
  show ?thesis
  proof (cases "sclass s = UV_Session \<and> \<not> is_shutdown s")
    case False
    then have "w' = w" using assms Some
      by (cases "sclass s") (auto simp: session_close_def uv_session_close_def udp_session_close_def)
    with assms show ?thesis by simp
  next
    case True
    with assms Some obtain w1 w2 where "sm_on_session_disconnect e p w = Some w1"
      "set_session p (\<lambda>s. s\<lparr>is_shutdown := True\<rparr>) w1 = Some w2"
      "w' = log_call (Uv_Shutdown p) w2 \<or> w' = log_call (Uv_Close p) (log_call (Uv_Shutdown p) w2)"
      by (auto simp: session_close_def uv_session_close_def bind_eq_Some_conv Let_def split: if_splits)
    then obtain s' where "sessions w' p = Some (s'\<lparr>is_shutdown := True\<rparr>)"
      by (auto simp: set_session_def log_call_def split: option.splits)
    then show ?thesis
      by (cases "sclass s'") (simp_all add: session_close_def uv_session_close_def udp_session_close_def)
  qed
qed

theorem close_idempotent_witness:
  "\<exists>w. session_close (env_example True) 40 world_tcp = Some w \<and> w \<noteq> world_tcp \<and>
     session_close (env_example True) 40 w = Some w"
proof -
  let ?e = "env_example True"
  have "each_service (\<lambda>s i w. on_session_disconnect (vtable ?e s) 40 i w) [0..<max_service] world_tcp =
      Some world_tcp"
    by (subst each_service_trace [where g = "\<lambda>_ _ w. w"])
       (simp_all add: env_example_def record_service_def base_service_def case_prod_unfold fold_const_id)
  then obtain w where w: "session_close ?e 40 world_tcp = Some w" "calls w = [Uv_Shutdown 40]"
    by (auto simp: session_close_def uv_session_close_def sm_on_session_disconnect_def world_tcp_def
        world0_def fresh_session_def set_session_def log_call_def env_example_def)
  have "calls world_tcp = []" by (simp add: world_tcp_def world0_def)
  with w close_idempotent [OF w(1)] show ?thesis by auto
qed

text \<open>The services registered in a world, in slot order.\<close>

definition registered :: "'a world \<Rightarrow> (addr \<times> nat) list" where
  "registered w = List.map_filter (\<lambda>i. map_option (\<lambda>s. (s, i)) (slots w i)) [0..<max_service]"



text \<open>C36 (safety): on a WebSocket session the framing is the wrong way round. Before the
  handshake is complete, what the code sends is a binary frame (so the HTTP response of the
  handshake reaches the client inside one); after it, up to 512 bytes go out raw, without a
  frame, and the request block taken for the write is never given back: its completion
  leaves memory as it is.\<close>

theorem ws_framing_inverted:
  assumes "mem_ok (mem w)" "sessions w p = Some s" "sclass s = UV_Session"
    and "socket_type s = session_type_ws" "length data \<le> 512"
  shows "if is_ws_shakehand s
    then \<exists>req w' w''. send_data e p data w = Some w' \<and> calls w' = calls w @ [Uv_Write p data] \<and>
      req \<notin> live (wreq (mem w)) \<and> live (wreq (mem w')) = insert req (live (wreq (mem w))) \<and>
      complete_request (length (pending w)) st w' = Some w'' \<and> mem w'' = mem w'
    else \<exists>f w'. send_data e p data w = Some w' \<and> calls w' = calls w @ [Uv_Write p f] \<and>
      client_read f = Some (0x82, data, [])"
proof -
  obtain req w1 where r: "wreq_alloc (sizeof_write e) w = (req, w1)" by (cases "wreq_alloc (sizeof_write e) w")
  note R = wreq_allocE [OF assms(1) r]
  have w1: "calls w1 = calls w" "pending w1 = pending w" by (subst R(4), simp)+
  show ?thesis
  proof (cases "is_ws_shakehand s")
    case True
    let ?w' = "add_pending \<lparr>req_addr = req, req_buf = 0, req_done = No_Callback\<rparr> (log_call (Uv_Write p data) w1)"
    have "send_data e p data w = Some ?w'"
      using True assms r by (simp add: send_data_def uv_send_data_def response_buf_size_def)
    moreover have "calls ?w' = calls w @ [Uv_Write p data]" "mem ?w' = mem w1"
      by (simp_all add: add_pending_def log_call_def w1)
    moreover have "complete_request (length (pending w)) st ?w' = Some (log_call (Uv_Write p data) w1)"
      by (simp add: complete_request_def add_pending_def run_completion_def log_call_def w1)
    moreover have "mem (log_call (Uv_Write p data) w1) = mem w1" by (simp add: log_call_def)
    ultimately show ?thesis using True R(2,3) by auto
  next
    case False
    have "length data \<le> 65534" using assms(5) by simp
    from ws_server_frame_parse [OF this, of "wbuf (mem w1)"]
    obtain b f q where f: "package_ws_send_data data (wbuf (mem w1)) = Some (b, f, q)"
      "client_read f = Some (0x82, data, [])" by (metis append_Nil2)
    then show ?thesis using False assms r w1
      by (auto simp: send_data_def uv_send_data_def add_pending_def log_call_def set_wbuf_def)
  qed
qed

theorem ws_framing_inverted_witness:
  "\<exists>w'. send_data (env_example True) 40 [72, 105] (world_tcp\<lparr>sessions := [40 \<mapsto>
     fresh_session\<lparr>socket_type := 1, is_ws_shakehand := True\<rparr>]\<rparr>) = Some w' \<and>
     calls w' = [Uv_Write 40 [72, 105]]"
proof -
  let ?s = "fresh_session\<lparr>socket_type := 1, is_ws_shakehand := True\<rparr>"
  let ?w = "world_tcp\<lparr>sessions := [40 \<mapsto> ?s]\<rparr>"
  have "mem_ok (mem ?w)" "sessions ?w 40 = Some ?s" "sclass ?s = UV_Session"
    "socket_type ?s = session_type_ws" "length [72, 105 :: byte] \<le> 512" "is_ws_shakehand ?s"
    "calls ?w = []"
    by (simp_all add: world_tcp_def world0_def mem0_ok fresh_session_def session_type_ws_def)
  with ws_framing_inverted [where w = ?w and p = 40 and s = ?s and data = "[72, 105]"
      and e = "env_example True" and st = 0] show ?thesis by auto
qed

end
