(* ===== verification/Base64.thy ===== *)
theory Base64
  imports Prelude
begin

text \<open>
  vendor/crypto/base64_encoder.c and base64_decoder.c, used by the WebSocket handshake: the
  encoder's loop over groups of three bytes, the decoder's loop over groups of four symbols
  that skips bytes outside the alphabet, and their round trip.
\<close>

section \<open>base64_encode\<close>

definition b64_encoding :: "byte list" where
  "b64_encoding = ascii ''ABCDEFGHIJKLMNOPQRSTUVWXYZabcdefghijklmnopqrstuvwxyz0123456789+/''"

definition b64_char :: "u32 \<Rightarrow> byte" where
  "b64_char v = b64_encoding ! unat v"

definition b64_pad :: byte where "b64_pad = 61"

definition b64_word :: "byte \<Rightarrow> byte \<Rightarrow> byte \<Rightarrow> u32" where
  "b64_word a b c = push_bit 16 (ucast a) OR push_bit 8 (ucast b) OR ucast c"

definition b64_group :: "byte \<Rightarrow> byte \<Rightarrow> byte \<Rightarrow> byte list" where
  "b64_group a b c = (let v = b64_word a b c in
     [b64_char (drop_bit 18 v), b64_char (drop_bit 12 v AND 0x3f),
      b64_char (drop_bit 6 v AND 0x3f), b64_char (v AND 0x3f)])"

text \<open>The loop, then the \<open>switch\<close> on the one or two bytes left.\<close>

fun base64_encode :: "byte list \<Rightarrow> byte list" where
  "base64_encode (a # b # c # rest) = b64_group a b c @ base64_encode rest"
| "base64_encode [a] = (let v = ucast a in
     [b64_char (drop_bit 2 v), b64_char (push_bit 4 (v AND 3)), b64_pad, b64_pad])"
| "base64_encode [a, b] = (let v = push_bit 8 (ucast a) OR ucast b in
     [b64_char (drop_bit 10 v), b64_char (drop_bit 4 v AND 0x3f), b64_char (push_bit 2 (v AND 0xf)), b64_pad])"
| "base64_encode [] = []"

section \<open>base64_decode\<close>

definition b64_decoding :: "int list" where
  "b64_decoding = [62, -1, -1, -1, 63, 52, 53, 54, 55, 56, 57, 58, 59, 60, 61, -1, -1, -1, -2, -1, -1, -1,
     0, 1, 2, 3, 4, 5, 6, 7, 8, 9, 10, 11, 12, 13, 14, 15, 16, 17, 18, 19, 20, 21, 22, 23, 24, 25,
     -1, -1, -1, -1, -1, -1, 26, 27, 28, 29, 30, 31, 32, 33, 34, 35, 36, 37, 38, 39, 40, 41, 42, 43,
     44, 45, 46, 47, 48, 49, 50, 51]"

definition b64index :: "byte \<Rightarrow> int" where
  "b64index c =
     (if uint c < 43 then -1
      else if uint c - 43 \<ge> int (length b64_decoding) then -1
      else b64_decoding ! nat (uint c - 43))"

text \<open>The inner loop: the next \<open>j\<close> symbols, skipping bytes of index \<open>-1\<close>; \<open>None\<close> is
  \<open>goto failed\<close>.\<close>

fun b64_take :: "nat \<Rightarrow> byte list \<Rightarrow> (int list \<times> byte list) option" where
  "b64_take 0 xs = Some ([], xs)"
| "b64_take (Suc j) [] = None"
| "b64_take (Suc j) (x # xs) =
     (if b64index x = -1 then b64_take (Suc j) xs
      else map_option (\<lambda>(cs, r). (b64index x # cs, r)) (b64_take j xs))"

text \<open>The \<open>switch\<close> on the number of padding symbols.\<close>

definition b64_quad :: "int list \<Rightarrow> byte list option" where
  "b64_quad c =
     (let padding = count_list c (-2); u = (\<lambda>i. word_of_int (c ! i) :: u32) in
      if padding = 0 then
        (let v = push_bit 18 (u 0) OR push_bit 12 (u 1) OR push_bit 6 (u 2) OR u 3 in
         Some [ucast (drop_bit 16 v), ucast (drop_bit 8 v AND 0xff), ucast (v AND 0xff)])
      else if padding = 1 then
        (if c ! 3 \<noteq> -2 \<or> c ! 2 AND 3 \<noteq> 0 then None
         else let v = push_bit 10 (u 0) OR push_bit 4 (u 1) OR drop_bit 2 (u 2) in
           Some [ucast (drop_bit 8 v), ucast (v AND 0xff)])
      else if padding = 2 then
        (if c ! 3 \<noteq> -2 \<or> c ! 2 \<noteq> -2 \<or> c ! 1 AND 0xf \<noteq> 0 then None
         else let v = push_bit 2 (u 0) OR drop_bit 4 (u 1) in Some [ucast v])
      else None)"

lemma b64_take_length: "b64_take n xs = Some (cs, r) \<Longrightarrow> length r + n \<le> length xs \<and> length cs = n"
  by (induction n xs arbitrary: cs r rule: b64_take.induct) (fastforce split: if_splits)+

function base64_decode :: "byte list \<Rightarrow> byte list option" where
  "base64_decode text =
     (if text = [] then Some []
      else case b64_take 4 text of
        None \<Rightarrow> None
      | Some (c, rest) \<Rightarrow> (case b64_quad c of
          None \<Rightarrow> None
        | Some out \<Rightarrow> map_option ((@) out) (base64_decode rest)))"
  by pat_completeness auto
termination
  by (relation "measure length") (auto dest: b64_take_length)

declare base64_decode.simps [simp del]

section \<open>Lemmas\<close>

lemma and_3f: "(x :: u32) AND 0x3f = take_bit 6 x"
  by (simp add: take_bit_eq_mask mask_eq_exp_minus_1)

lemma b64_encoding_bytes: "b64_encoding = [65, 66, 67, 68, 69, 70, 71, 72, 73, 74, 75, 76, 77, 78, 79, 80, 81, 82, 83, 84, 85, 86, 87, 88, 89, 90, 97, 98, 99, 100, 101, 102, 103, 104, 105, 106, 107, 108, 109, 110, 111, 112, 113, 114, 115, 116, 117, 118, 119, 120, 121, 122, 48, 49, 50, 51, 52, 53, 54, 55, 56, 57, 43, 47]"
  by code_simp

lemma b64_index_encoding: "map b64index b64_encoding = map int [0..<64]"
proof -
  have "map int [0..<64] = [0, 1, 2, 3, 4, 5, 6, 7, 8, 9, 10, 11, 12, 13, 14, 15, 16, 17, 18, 19, 20, 21, 22, 23, 24, 25, 26, 27, 28, 29, 30, 31, 32, 33, 34, 35, 36, 37, 38, 39, 40, 41, 42, 43, 44, 45, 46, 47, 48, 49, 50, 51, 52, 53, 54, 55, 56, 57, 58, 59, 60, 61, 62, 63]" by code_simp
  then show ?thesis by (simp add: b64_encoding_bytes b64index_def b64_decoding_def)
qed

lemma b64index_char:
  assumes "n < 64" shows "b64index (b64_encoding ! n) = int n"
proof -
  have "length b64_encoding = 64" by (simp add: b64_encoding_bytes)
  then show ?thesis
    using arg_cong [OF b64_index_encoding, of "\<lambda>xs. xs ! n"] assms by simp
qed

lemma b64index_b64_char: "unat v < 64 \<Longrightarrow> b64index (b64_char v) = uint v"
  by (simp add: b64_char_def b64index_char)

lemma b64index_pad [simp]: "b64index b64_pad = -2"
  by (simp add: b64index_def b64_decoding_def b64_pad_def)

text \<open>The symbols of a group are four sextets; reading them back gives the group.\<close>

lemma sextet_small: "unat (take_bit 6 (x :: u32)) < 64"
  by (simp add: unsigned_take_bit_eq take_bit_nat_less_exp [of 6, simplified])

lemma drop_small: "drop_bit 18 (b64_word a b c) = take_bit 6 (drop_bit 18 (b64_word a b c))"
  by (rule bit_word_eqI) (auto simp: b64_word_def bit_simps dest: byte_bit)

lemma b64index_sextet: "b64index (b64_char (take_bit 6 x)) = uint (take_bit 6 x)"
  by (rule b64index_b64_char) (rule sextet_small)

lemma uint_ne_neg [simp]: "uint (x :: u32) \<noteq> -1" "uint (x :: u32) \<noteq> -2"
  using uint_ge_0 [of x] by linarith+

lemma four_sextets:
  "push_bit 18 (take_bit 6 (drop_bit 18 v)) OR push_bit 12 (take_bit 6 (drop_bit 12 v)) OR
   push_bit 6 (take_bit 6 (drop_bit 6 v)) OR take_bit 6 v = take_bit 24 (v :: u32)"
proof (rule bit_word_eqI)
  fix n assume "n < LENGTH(32)"
  then have "n < 32" by simp
  moreover have "n < 6 \<or> 6 \<le> n \<and> n < 12 \<or> 12 \<le> n \<and> n < 18 \<or> 18 \<le> n \<and> n < 24 \<or> 24 \<le> n" by linarith
  ultimately show "bit (push_bit 18 (take_bit 6 (drop_bit 18 v)) OR
      push_bit 12 (take_bit 6 (drop_bit 12 v)) OR push_bit 6 (take_bit 6 (drop_bit 6 v)) OR
      take_bit 6 v) n = bit (take_bit 24 v) n"
    by (elim disjE; simp add: bit_simps; arith)
qed

lemma quad_word:
  "push_bit 18 (take_bit 6 (drop_bit 18 (b64_word a b c))) OR
   push_bit 12 (take_bit 6 (drop_bit 12 (b64_word a b c))) OR
   push_bit 6 (take_bit 6 (drop_bit 6 (b64_word a b c))) OR
   take_bit 6 (b64_word a b c) = b64_word a b c"
proof -
  have "take_bit 24 (b64_word a b c) = b64_word a b c"
    by (rule bit_word_eqI) (auto simp: b64_word_def bit_simps dest: byte_bit)
  then show ?thesis by (simp only: four_sextets)
qed

lemma word_bytes:
  "ucast (drop_bit 16 (b64_word a b c)) = a"
  "ucast (drop_bit 8 (b64_word a b c) AND 0xff) = b"
  "ucast (b64_word a b c AND 0xff) = c"
proof -
  have m: "x AND 0xff = take_bit 8 x" for x :: u32
    by (simp add: take_bit_eq_mask mask_eq_exp_minus_1)
  show "ucast (drop_bit 16 (b64_word a b c)) = a"
    by (rule bit_word_eqI) (auto simp: b64_word_def bit_simps dest: byte_bit)
  show "ucast (drop_bit 8 (b64_word a b c) AND 0xff) = b"
    unfolding m by (rule bit_word_eqI) (auto simp: b64_word_def bit_simps dest: byte_bit)
  show "ucast (b64_word a b c AND 0xff) = c"
    unfolding m by (rule bit_word_eqI) (auto simp: b64_word_def bit_simps dest: byte_bit)
qed

lemma b64_group_eq: "b64_group a b c = map b64_char
   [take_bit 6 (drop_bit 18 (b64_word a b c)), take_bit 6 (drop_bit 12 (b64_word a b c)),
    take_bit 6 (drop_bit 6 (b64_word a b c)), take_bit 6 (b64_word a b c)]"
  using drop_small [of a b c] by (simp add: b64_group_def Let_def and_3f)

lemma b64_take_four:
  assumes "b64index w \<noteq> -1" "b64index x \<noteq> -1" "b64index y \<noteq> -1" "b64index z \<noteq> -1"
  shows "b64_take 4 (w # x # y # z # rest) = Some ([b64index w, b64index x, b64index y, b64index z], rest)"
  using assms by (simp add: eval_nat_numeral)

lemma decode_group: "base64_decode (b64_group a b c @ rest) = map_option ((@) [a, b, c]) (base64_decode rest)"
proof -
  have t: "b64_take 4 (b64_group a b c @ rest) = Some (map uint
     [take_bit 6 (drop_bit 18 (b64_word a b c)), take_bit 6 (drop_bit 12 (b64_word a b c)),
      take_bit 6 (drop_bit 6 (b64_word a b c)), take_bit 6 (b64_word a b c)], rest)"
    by (simp add: b64_group_eq b64index_sextet b64_take_four)
  have q: "b64_quad (map uint
     [take_bit 6 (drop_bit 18 (b64_word a b c)), take_bit 6 (drop_bit 12 (b64_word a b c)),
      take_bit 6 (drop_bit 6 (b64_word a b c)), take_bit 6 (b64_word a b c)]) = Some [a, b, c]"
    using quad_word [of a b c] word_bytes [of a b c] by (simp add: b64_quad_def Let_def)
  have ne: "b64_group a b c @ rest \<noteq> []" by (simp add: b64_group_def Let_def)
  show ?thesis
    by (subst base64_decode.simps) (simp only: ne t q if_False option.case prod.case)
qed

text \<open>The last one or two bytes of a text.\<close>

lemma and_mask_u32: "(v::u32) AND 3 = take_bit 2 v" "(v::u32) AND 0xf = take_bit 4 v"
    by (simp_all add: take_bit_eq_mask mask_eq_exp_minus_1)

lemma and_mask_int: "(v::int) AND 3 = take_bit 2 v" "(v::int) AND 0xf = take_bit 4 v"
    by (simp_all add: take_bit_eq_mask mask_eq_exp_minus_1)

lemma suc2: "2 \<le> n \<Longrightarrow> Suc (Suc (n - 2)) = n" by simp

lemma one_out: "ucast (push_bit 2 (take_bit 6 (drop_bit 2 (ucast (a::byte)::u32))) OR drop_bit 4 (take_bit 6 (push_bit 4 (take_bit 2 (ucast a :: u32))))) = a"
  by (rule bit_word_eqI) (auto simp add: bit_simps suc2 not_less dest: byte_bit)

lemma one_pad: "uint (take_bit 6 (push_bit 4 (take_bit 2 (ucast (a::byte) :: u32)))) AND 15 = 0"
  unfolding and_mask_int by (rule bit_eqI) (auto simp: bit_simps) 

lemma decode_nil: "base64_decode [] = Some []"
  by (simp add: base64_decode.simps)

lemma decode_one: "base64_decode (base64_encode [a]) = Some [a]"
proof -
  let ?v = "ucast a :: u32"
  have d: "drop_bit 2 ?v = take_bit 6 (drop_bit 2 ?v)"
    by (rule bit_word_eqI) (auto simp: bit_simps dest: byte_bit)
  have p: "push_bit 4 (?v AND 3) = take_bit 6 (push_bit 4 (take_bit 2 ?v))"
    unfolding and_mask_u32 by (rule bit_word_eqI) (auto simp: bit_simps)
  have e: "base64_encode [a] = [b64_char (take_bit 6 (drop_bit 2 ?v)), b64_char (take_bit 6 (push_bit 4 (take_bit 2 ?v))), b64_pad, b64_pad]"
    using d p by (simp add: Let_def)
  have t: "b64_take 4 (base64_encode [a]) = Some ([uint (take_bit 6 (drop_bit 2 ?v)), uint (take_bit 6 (push_bit 4 (take_bit 2 ?v))), -2, -2], [])"
    unfolding e by (simp add: b64index_sextet b64_take_four)
  have q: "b64_quad [uint (take_bit 6 (drop_bit 2 ?v)), uint (take_bit 6 (push_bit 4 (take_bit 2 ?v))), -2, -2] = Some [a]"
    using one_out [of a] one_pad [of a] by (simp add: b64_quad_def Let_def)
  have ne: "base64_encode [a] \<noteq> []" by (simp add: Let_def)
  show ?thesis
    by (subst base64_decode.simps) (simp add: ne t q decode_nil del: base64_encode.simps)
qed

lemma two_out: "push_bit 10 (take_bit 6 (drop_bit 10 v)) OR push_bit 4 (take_bit 6 (drop_bit 4 v)) OR drop_bit 2 (take_bit 6 (push_bit 2 (take_bit 4 v))) = take_bit 16 (v::u32)"
proof (rule bit_word_eqI)
  fix n assume "n < LENGTH(32)"
  then have "n < 32" by simp
  moreover have "n < 4 \<or> 4 \<le> n \<and> n < 10 \<or> 10 \<le> n" by linarith
  ultimately show "bit (push_bit 10 (take_bit 6 (drop_bit 10 v)) OR push_bit 4 (take_bit 6 (drop_bit 4 v)) OR drop_bit 2 (take_bit 6 (push_bit 2 (take_bit 4 v)))) n = bit (take_bit 16 v) n"
    by (elim disjE; auto simp add: bit_simps suc2)
qed

lemma two_pad: "uint (take_bit 6 (push_bit 2 (take_bit 4 (v :: u32)))) AND 3 = 0"
  unfolding and_mask_int by (rule bit_eqI) (auto simp: bit_simps) 

lemma decode_two: "base64_decode (base64_encode [a, b]) = Some [a, b]"
proof -
  define v :: u32 where "v = push_bit 8 (ucast a) OR ucast b"
  have small: "take_bit 16 v = v"
    unfolding v_def by (rule bit_word_eqI) (auto simp: bit_simps dest: byte_bit)
  have d: "drop_bit 10 v = take_bit 6 (drop_bit 10 v)"
    unfolding v_def by (rule bit_word_eqI) (auto simp: bit_simps dest: byte_bit)
  have p: "push_bit 2 (v AND 0xf) = take_bit 6 (push_bit 2 (take_bit 4 v))"
    unfolding and_mask_u32 by (rule bit_word_eqI) (auto simp: bit_simps)
  let ?s = "[uint (take_bit 6 (drop_bit 10 v)), uint (take_bit 6 (drop_bit 4 v)), uint (take_bit 6 (push_bit 2 (take_bit 4 v))), -2]"
  have e: "base64_encode [a, b] = [b64_char (take_bit 6 (drop_bit 10 v)), b64_char (take_bit 6 (drop_bit 4 v)), b64_char (take_bit 6 (push_bit 2 (take_bit 4 v))), b64_pad]"
    using d p by (simp add: Let_def flip: v_def and_3f)
  have t: "b64_take 4 (base64_encode [a, b]) = Some (?s, [])"
    unfolding e by (simp add: b64index_sextet b64_take_four)
  have m: "x AND 0xff = take_bit 8 x" for x :: u32
    by (simp add: take_bit_eq_mask mask_eq_exp_minus_1)
  have ab: "ucast (drop_bit 8 v) = a" "ucast (v AND 0xff) = b"
    unfolding v_def m by ((rule bit_word_eqI, auto simp: bit_simps dest: byte_bit)[1])+
  have q: "b64_quad ?s = Some [a, b]"
    using two_out [of v] two_pad [of v] ab by (simp add: b64_quad_def Let_def small)
  have ne: "base64_encode [a, b] \<noteq> []" by (simp add: Let_def)
  show ?thesis
    by (subst base64_decode.simps) (simp add: ne t q decode_nil del: base64_encode.simps)
qed

section \<open>Round trip\<close>

text \<open>C37 (roundtrip): \<open>base64_decode\<close> gives back every text that \<open>base64_encode\<close> wrote, the one or two
  bytes after the last group of three included, and the encoding has four symbols for every
  group begun.\<close>

theorem base64_roundtrip:
  "base64_decode (base64_encode t) = Some t \<and> length (base64_encode t) = (length t + 2) div 3 * 4"
proof (induction t rule: base64_encode.induct)
  case (1 a b c rest)
  have g: "length (b64_group a b c) = 4" by (simp add: b64_group_def Let_def)
  have n: "(length (a # b # c # rest) + 2) div 3 * 4 = 4 + (length rest + 2) div 3 * 4"
    by (simp, presburger)
  show ?case unfolding n using 1 by (simp add: decode_group g)
next
  case (2 a) then show ?case using decode_one [of a] by (simp add: Let_def)
next
  case (3 a b) then show ?case using decode_two [of a b] by (simp add: Let_def)
next
  case 4 then show ?case by (simp add: base64_decode.simps)
qed

end
