(* ===== verification/Sha1.thy ===== *)
theory Sha1
  imports Prelude
begin

text \<open>
  vendor/crypto/sha1.c: the SHA-1 used by the WebSocket handshake, with its circular
  sixteen-word message schedule and its streaming context.
\<close>

section \<open>SHA1_Transform\<close>

definition sha1_rol :: "u32 \<Rightarrow> nat \<Rightarrow> u32" where
  "sha1_rol value bits = push_bit bits value OR drop_bit (32 - bits) value"

type_synonym sha1_state = "u32 \<times> u32 \<times> u32 \<times> u32 \<times> u32"

text \<open>\<open>memcpy(&block, buffer, 64)\<close> on a little-endian host, then \<open>blk0\<close> swaps each word the
  first time it is used.\<close>

definition sha1_load :: "byte list \<Rightarrow> nat \<Rightarrow> u32" where
  "sha1_load buf i = le32 (buf ! (4 * i)) (buf ! (4 * i + 1)) (buf ! (4 * i + 2)) (buf ! (4 * i + 3))"

definition sha1_swap :: "u32 \<Rightarrow> u32" where
  "sha1_swap x = (sha1_rol x 24 AND 0xFF00FF00) OR (sha1_rol x 8 AND 0x00FF00FF)"

definition blk0 :: "nat \<Rightarrow> u32 list \<Rightarrow> u32 \<times> u32 list" where
  "blk0 i l = (let x = sha1_swap (l ! i) in (x, l[i := x]))"

definition blk :: "nat \<Rightarrow> u32 list \<Rightarrow> u32 \<times> u32 list" where
  "blk i l = (let x = sha1_rol (l ! ((i + 13) mod 16) XOR l ! ((i + 8) mod 16)
                XOR l ! ((i + 2) mod 16) XOR l ! (i mod 16)) 1
     in (x, l[i mod 16 := x]))"

text \<open>Round \<open>i\<close>: the macros \<open>R0\<close> (0..15), \<open>R1\<close> (16..19), \<open>R2\<close> (20..39), \<open>R3\<close> (40..59) and
  \<open>R4\<close> (60..79). Each adds into \<open>z\<close> and rotates \<open>w\<close>; the next round's arguments are
  \<open>(z, v, w, x, y)\<close>.\<close>

definition sha1_f :: "nat \<Rightarrow> u32 \<Rightarrow> u32 \<Rightarrow> u32 \<Rightarrow> u32" where
  "sha1_f i w x y =
     (if i < 20 then (w AND (x XOR y)) XOR y
      else if i < 40 then w XOR x XOR y
      else if i < 60 then ((w OR x) AND y) OR (w AND x)
      else w XOR x XOR y)"

definition sha1_k :: "nat \<Rightarrow> u32" where
  "sha1_k i = (if i < 20 then 0x5A827999 else if i < 40 then 0x6ED9EBA1
     else if i < 60 then 0x8F1BBCDC else 0xCA62C1D6)"

definition sha1_round :: "nat \<Rightarrow> sha1_state \<times> u32 list \<Rightarrow> sha1_state \<times> u32 list" where
  "sha1_round i s = (case s of ((v, w, x, y, z), l) \<Rightarrow>
     (case (if i < 16 then blk0 i l else blk i l) of (b, l) \<Rightarrow>
        ((z + (sha1_f i w x y + b + sha1_k i + sha1_rol v 5), v, sha1_rol w 30, x, y), l)))"

definition sha1_transform :: "sha1_state \<Rightarrow> byte list \<Rightarrow> sha1_state" where
  "sha1_transform st buffer =
     (let l = map (sha1_load buffer) [0..<16] in
      case st of (a, b, c, d, e) \<Rightarrow>
      case fst (fold sha1_round [0..<80] (st, l)) of (a', b', c', d', e') \<Rightarrow>
        (a + a', b + b', c + c', d + d', e + e'))"

section \<open>The streaming context\<close>

record sha1_ctx =
  sha_state :: sha1_state
  count0 :: u32
  count1 :: u32
  sha_buffer :: "byte list"

definition sat_SHA1_Init :: sha1_ctx where
  "sat_SHA1_Init = \<lparr>sha_state = (0x67452301, 0xEFCDAB89, 0x98BADCFE, 0x10325476, 0xC3D2E1F0),
     count0 = 0, count1 = 0, sha_buffer = replicate 64 0\<rparr>"

text \<open>The loop over whole blocks of the input.\<close>

fun sha1_blocks :: "sha1_state \<Rightarrow> byte list \<Rightarrow> nat \<Rightarrow> sha1_state" where
  "sha1_blocks st rest 0 = st"
| "sha1_blocks st rest (Suc n) = sha1_blocks (sha1_transform st (take 64 rest)) (drop 64 rest) n"

definition overwrite :: "byte list \<Rightarrow> nat \<Rightarrow> byte list \<Rightarrow> byte list" where
  "overwrite b off src = take off b @ src @ drop (off + length src) b"

definition sat_SHA1_Update :: "sha1_ctx \<Rightarrow> byte list \<Rightarrow> sha1_ctx" where
  "sat_SHA1_Update ctx data =
     (let len = length data; bits = push_bit 3 (word_of_nat len :: u32);
          j = unat (drop_bit 3 (count0 ctx) AND 63);
          c0 = count0 ctx + bits;
          c1 = (if c0 < bits then count1 ctx + 1 else count1 ctx) + word_of_int (drop_bit 29 (int len))
      in if j + len > 63 then
           (let i = 64 - j;
                st = sha1_transform (sha_state ctx) (overwrite (sha_buffer ctx) j (take i data));
                n = (len - i) div 64;
                st = sha1_blocks st (drop i data) n;
                tl = drop (i + 64 * n) data
            in ctx\<lparr>sha_state := st, count0 := c0, count1 := c1,
                   sha_buffer := overwrite (overwrite (sha_buffer ctx) j (take i data)) 0 tl\<rparr>)
         else ctx\<lparr>count0 := c0, count1 := c1, sha_buffer := overwrite (sha_buffer ctx) j data\<rparr>)"

text \<open>The padding loop appends zero bytes until 56 bytes of the block are used; it runs at
  most 63 times.\<close>

fun sha1_pad_loop :: "nat \<Rightarrow> sha1_ctx \<Rightarrow> sha1_ctx option" where
  "sha1_pad_loop fuel ctx =
     (if count0 ctx AND 504 = 448 then Some ctx
      else case fuel of 0 \<Rightarrow> None | Suc n \<Rightarrow> sha1_pad_loop n (sat_SHA1_Update ctx [0]))"

definition be32_bytes :: "u32 \<Rightarrow> byte list" where
  "be32_bytes x = [ucast (drop_bit 24 x AND 255), ucast (drop_bit 16 x AND 255),
     ucast (drop_bit 8 x AND 255), ucast (x AND 255)]"

definition sat_SHA1_Final :: "sha1_ctx \<Rightarrow> byte list option" where
  "sat_SHA1_Final ctx = do {
     let finalcount = be32_bytes (count1 ctx) @ be32_bytes (count0 ctx);
     ctx \<leftarrow> sha1_pad_loop 64 (sat_SHA1_Update ctx [0x80]);
     (case sha_state (sat_SHA1_Update ctx finalcount) of (a, b, c, d, e) \<Rightarrow>
       Some (be32_bytes a @ be32_bytes b @ be32_bytes c @ be32_bytes d @ be32_bytes e)) }"

definition crypt_sha1 :: "byte list \<Rightarrow> byte list option" where
  "crypt_sha1 buffer = sat_SHA1_Final (sat_SHA1_Update sat_SHA1_Init buffer)"

section \<open>FIPS 180-4\<close>

text \<open>The standard's big-endian words, its 80-word message schedule, its round function and
  its compression of one 64-byte block.\<close>

definition be32 :: "byte \<Rightarrow> byte \<Rightarrow> byte \<Rightarrow> byte \<Rightarrow> u32" where
  "be32 b0 b1 b2 b3 = le32 b3 b2 b1 b0"

lemma mask_FF: "x AND (0xFF00FF00 :: u32) = push_bit 8 (take_bit 8 (drop_bit 8 x)) OR push_bit 24 (drop_bit 24 x)"
proof -
  have e: "(0xFF00FF00 :: u32) = push_bit 8 (mask 8) OR push_bit 24 (mask 8)" by code_simp
  show ?thesis unfolding e
    by (rule bit_word_eqI) (auto simp: bit_simps)
qed

lemma mask_00: "x AND (0x00FF00FF :: u32) = take_bit 8 x OR push_bit 16 (take_bit 8 (drop_bit 16 x))"
proof -
  have e: "(0x00FF00FF :: u32) = mask 8 OR push_bit 16 (mask 8)" by code_simp
  show ?thesis unfolding e
    by (rule bit_word_eqI) (auto simp: bit_simps)
qed

lemma bit_le32: "bit (le32 b0 b1 b2 b3) n \<longleftrightarrow> n < 32 \<and>
  (if n < 8 then bit b0 n else if n < 16 then bit b1 (n - 8) else if n < 24 then bit b2 (n - 16) else bit b3 (n - 24))"
  by (auto simp: le32_def bit_simps dest: byte_bit)

lemma bit_rol: "0 < k \<Longrightarrow> k < 32 \<Longrightarrow> bit (sha1_rol x k) n \<longleftrightarrow> n < 32 \<and> bit x (if k \<le> n then n - k else 32 + n - k)"
  by (auto simp: sha1_rol_def bit_simps not_le dest: bit_imp_le_length)

lemma sha1_swap_le32: "sha1_swap (le32 b0 b1 b2 b3) = be32 b0 b1 b2 b3"
proof (rule bit_word_eqI)
  fix n assume "n < LENGTH(32)"
  then have n: "n < 32" by simp
  consider "n < 8" | m where "n = 8 + m" "m < 8" | m where "n = 16 + m" "m < 8" | m where "n = 24 + m" "m < 8"
  proof -
    have "n < 8 \<or> (n = 8 + (n - 8) \<and> n - 8 < 8) \<or> (n = 16 + (n - 16) \<and> n - 16 < 8) \<or>
        (n = 24 + (n - 24) \<and> n - 24 < 8)" using n by linarith
    then show thesis using that by blast
  qed
  then show "bit (sha1_swap (le32 b0 b1 b2 b3)) n = bit (be32 b0 b1 b2 b3) n"
    by cases (simp_all add: sha1_swap_def be32_def mask_FF mask_00 bit_simps bit_rol bit_le32)
qed

function (sequential) sha1_w :: "byte list \<Rightarrow> nat \<Rightarrow> u32" where
  "sha1_w m t = (if t < 16 then be32 (m ! (4 * t)) (m ! (4 * t + 1)) (m ! (4 * t + 2)) (m ! (4 * t + 3))
     else sha1_rol (sha1_w m (t - 3) XOR sha1_w m (t - 8) XOR sha1_w m (t - 14) XOR sha1_w m (t - 16)) 1)"
  by pat_completeness auto
termination by (relation "measure snd") auto

declare sha1_w.simps [simp del]

definition fips_f :: "nat \<Rightarrow> u32 \<Rightarrow> u32 \<Rightarrow> u32 \<Rightarrow> u32" where
  "fips_f t x y z =
     (if t < 20 then (x AND y) XOR (NOT x AND z)
      else if t < 40 then x XOR y XOR z
      else if t < 60 then (x AND y) XOR (x AND z) XOR (y AND z)
      else x XOR y XOR z)"

definition fips_round :: "byte list \<Rightarrow> nat \<Rightarrow> sha1_state \<Rightarrow> sha1_state" where
  "fips_round m t s = (case s of (a, b, c, d, e) \<Rightarrow>
     (sha1_rol a 5 + fips_f t b c d + e + sha1_k t + sha1_w m t, a, sha1_rol b 30, c, d))"

definition fips_compress :: "sha1_state \<Rightarrow> byte list \<Rightarrow> sha1_state" where
  "fips_compress h m = (case h of (a, b, c, d, e) \<Rightarrow>
     case fold (fips_round m) [0..<80] h of (a', b', c', d', e') \<Rightarrow> (a + a', b + b', c + c', d + d', e + e'))"

lemma sha1_f_fips: "sha1_f t x y z = fips_f t x y z"
  unfolding sha1_f_def fips_f_def by (auto intro!: bit_word_eqI simp: bit_simps)

text \<open>After \<open>i\<close> rounds the circular buffer holds the last sixteen words of the schedule, and
  the words of the block not yet used.\<close>

definition circular :: "byte list \<Rightarrow> nat \<Rightarrow> u32 list \<Rightarrow> bool" where
  "circular m i l \<longleftrightarrow> length l = 16 \<and>
     (\<forall>j < 16. l ! j = (if i \<le> j then sha1_load m j else sha1_w m (j + 16 * ((i - 1 - j) div 16))))"

lemma circular_nth:
  assumes "circular m i l" "16 \<le> i" "k \<le> 16" "0 < k"
  shows "l ! ((i + 16 - k) mod 16) = sha1_w m (i - k)"
proof -
  let ?j = "(i + 16 - k) mod 16"
  have j: "?j < 16" "?j < i" using assms(2) by simp_all
  obtain k' where k': "k = Suc k'" using assms(4) by (cases k) auto
  have "?j = (i - k) mod 16" using assms(2,3) by (metis Nat.add_diff_assoc2 add.commute le_trans mod_add_self2)
  moreover have "i - k = 16 * ((i - k) div 16) + (i - k) mod 16" by simp
  ultimately have "i - 1 - ?j = (k - 1) + 16 * ((i - k) div 16)" using assms(2-4) by linarith
  then have "i - 1 - ?j = k' + 16 * ((i - k) div 16)" by (simp add: k')
  moreover have "k' < 16" using assms(3) k' by simp
  ultimately have "(i - 1 - ?j) div 16 = (i - k) div 16" by simp
  moreover have "?j = (i - k) mod 16" by fact
  ultimately have "?j + 16 * ((i - 1 - ?j) div 16) = i - k" by simp
  then show ?thesis using assms(1) j by (simp add: circular_def)
qed

lemma schedule_step:
  assumes "circular m i l"
  shows "(if i < 16 then blk0 i l else blk i l) = (sha1_w m i, l[i mod 16 := sha1_w m i]) \<and>
    circular m (Suc i) (l[i mod 16 := sha1_w m i])"
proof
  show "(if i < 16 then blk0 i l else blk i l) = (sha1_w m i, l[i mod 16 := sha1_w m i])"
  proof (cases "i < 16")
    case True
    then have "l ! i = sha1_load m i" using assms by (simp add: circular_def)
    then show ?thesis using True by (simp add: blk0_def Let_def sha1_load_def sha1_swap_le32 sha1_w.simps [of m i])
  next
    case False
    have "l ! ((i + 13) mod 16) = sha1_w m (i - 3)" "l ! ((i + 8) mod 16) = sha1_w m (i - 8)"
      "l ! ((i + 2) mod 16) = sha1_w m (i - 14)" "l ! (i mod 16) = sha1_w m (i - 16)"
      using circular_nth [OF assms, of 3] circular_nth [OF assms, of 8] circular_nth [OF assms, of 14]
        circular_nth [OF assms, of 16] False by (simp_all add: add.commute)
    then show ?thesis using False by (simp add: blk_def Let_def sha1_w.simps [of m i])
  qed
next
  have len: "length l = 16" using assms by (simp add: circular_def)
  have "l[i mod 16 := sha1_w m i] ! j = (if Suc i \<le> j then sha1_load m j
      else sha1_w m (j + 16 * ((Suc i - 1 - j) div 16)))" if "j < 16" for j
  proof (cases "j = i mod 16")
    case True
    then have "j \<le> i" by simp
    moreover have "i - j = 16 * (i div 16)" using True by (simp add: minus_mod_eq_mult_div)
    ultimately have "j + 16 * ((i - j) div 16) = i" by simp
    moreover have "\<not> Suc i \<le> i mod 16" by (simp add: not_le le_imp_less_Suc)
    ultimately show ?thesis using True len that by simp
  next
    case False
    have e: "i \<le> j \<longleftrightarrow> Suc i \<le> j" using False that by (auto simp: le_less)
    have d: "(i - 1 - j) div 16 = (Suc i - 1 - j) div 16" if "\<not> i \<le> j"
    proof -
      have "(i - j) mod 16 \<noteq> 0"
      proof
        assume "(i - j) mod 16 = 0"
        then have "i mod 16 = j mod 16" using that by (metis le_add_diff_inverse mod_add_right_eq add_0_right nat_le_linear)
        then show False using False \<open>j < 16\<close> by simp
      qed
      moreover have "Suc i - 1 - j = Suc (i - 1 - j)" "Suc i - 1 - j = i - j" using that by simp_all
      ultimately show ?thesis by (simp add: div_Suc)
    qed
    have u: "l[i mod 16 := sha1_w m i] ! j = l ! j" using False by simp
    show ?thesis using e d assms that unfolding u by (simp add: circular_def)
  qed
  then show "circular m (Suc i) (l[i mod 16 := sha1_w m i])" using len by (simp add: circular_def)
qed

lemma round_fips:
  assumes "circular m i l"
  shows "\<exists>l'. sha1_round i (h, l) = (fips_round m i h, l') \<and> circular m (Suc i) l'"
proof -
  obtain a b c d e where h: "h = (a, b, c, d, e)" by (metis prod_cases5)
  note S = schedule_step [OF assms]
  show ?thesis using conjunct2 [OF S] unfolding sha1_round_def h prod.case conjunct1 [OF S]
    by (auto simp: fips_round_def sha1_f_fips)
qed

lemma rounds_fips:
  assumes "circular m 0 l"
  shows "fst (fold sha1_round [0..<n] (h, l)) = fold (fips_round m) [0..<n] h \<and>
    circular m n (snd (fold sha1_round [0..<n] (h, l)))"
proof (induction n)
  case 0
  then show ?case using assms by simp
next
  case (Suc n)
  obtain h1 l1 where f: "fold sha1_round [0..<n] (h, l) = (h1, l1)" by (metis surj_pair)
  with Suc have s: "fold (fips_round m) [0..<n] h = h1" "circular m n l1" by auto
  from round_fips [OF s(2), of h1] show ?case using f s(1) by auto
qed

lemma sha1_transform_fips: "sha1_transform h m = fips_compress h m"
proof -
  have "circular m 0 (map (sha1_load m) [0..<16])" by (simp add: circular_def)
  from rounds_fips [OF this, of 80 h] show ?thesis
    by (simp add: sha1_transform_def fips_compress_def split: prod.split)
qed

section \<open>Hashing a message\<close>

text \<open>\<open>sha1_hash\<close> compresses the whole blocks of a message; a shorter rest is ignored.\<close>

function (sequential) sha1_hash :: "sha1_state \<Rightarrow> byte list \<Rightarrow> sha1_state" where
  "sha1_hash h m = (if length m < 64 then h else sha1_hash (fips_compress h (take 64 m)) (drop 64 m))"
  by pat_completeness auto
termination by (relation "measure (length \<circ> snd)") auto

declare sha1_hash.simps [simp del]

lemma sha1_hash_short: "length m < 64 \<Longrightarrow> sha1_hash h m = h"
  by (simp add: sha1_hash.simps)

lemma sha1_hash_append: "length a = 64 * n \<Longrightarrow> sha1_hash h (a @ b) = sha1_hash (sha1_hash h a) b"
proof (induction n arbitrary: h a)
  case 0
  then show ?case by (simp add: sha1_hash_short)
next
  case (Suc n)
  then have "length (drop 64 a) = 64 * n" by simp
  moreover have "sha1_hash h (a @ b) = sha1_hash (fips_compress h (take 64 a)) (drop 64 a @ b)"
    "sha1_hash h a = sha1_hash (fips_compress h (take 64 a)) (drop 64 a)"
    using Suc.prems sha1_hash.simps [of h "a @ b"] sha1_hash.simps [of h a] by simp_all
  ultimately show ?case using Suc.IH by simp
qed

lemma sha1_hash_block: "length b = 64 \<Longrightarrow> sha1_hash h b = sha1_transform h b"
  by (simp add: sha1_hash.simps [of h b] sha1_hash_short sha1_transform_fips)

lemma compress_take: "fips_compress h (take 64 m) = fips_compress h m"
proof -
  have "sha1_load (take 64 m) i = sha1_load m i" if "i < 16" for i using that by (simp add: sha1_load_def)
  then have "map (sha1_load (take 64 m)) [0..<16] = map (sha1_load m) [0..<16]" by simp
  then show ?thesis unfolding sha1_transform_fips [symmetric] sha1_transform_def by (simp only:)
qed

lemma sha1_blocks_hash: "64 * n \<le> length m \<Longrightarrow> sha1_blocks h m n = sha1_hash h (take (64 * n) m)"
proof (induction n arbitrary: h m)
  case 0
  then show ?case by (simp add: sha1_hash_short)
next
  case (Suc n)
  have "sha1_hash h (take (64 * Suc n) m) = sha1_hash (sha1_transform h (take 64 m)) (take (64 * n) (drop 64 m))"
    using sha1_hash_append [of "take 64 m" 1 h "take (64 * n) (drop 64 m)"] Suc.prems
    by (simp add: sha1_hash_block take_add)
  then show ?case using Suc by simp
qed

lemma and_504:
  "((word_of_nat (8 * n) :: u32) AND 504 = 448) \<longleftrightarrow> n mod 64 = 56"
  "unat (drop_bit 3 (word_of_nat (8 * n) :: u32) AND 63) = n mod 64"
proof -
  have m: "x AND 63 = take_bit 6 x" for x :: u32 by (simp add: take_bit_eq_mask mask_eq_exp_minus_1)
  have e: "(504 :: u32) = push_bit 3 (mask 6)" "(448 :: u32) = push_bit 3 56" by code_simp+
  have w: "(word_of_nat (8 * n) :: u32) = push_bit 3 (word_of_nat n)" by (simp add: push_bit_eq_mult)
  have d: "drop_bit 3 (word_of_nat (8 * n) :: u32) AND 63 = take_bit 6 (word_of_nat n)"
    unfolding m w by (rule bit_word_eqI) (auto simp: bit_simps)
  have t: "unat (take_bit 6 (word_of_nat n :: u32)) = n mod 64"
  proof -
    have "unat (take_bit 6 (word_of_nat n :: u32)) = take_bit 6 n"
      by (simp add: unsigned_take_bit_eq unsigned_of_nat)
    then show ?thesis by (simp add: take_bit_eq_mod)
  qed
  then show "unat (drop_bit 3 (word_of_nat (8 * n) :: u32) AND 63) = n mod 64" by (simp only: d)
  have "(word_of_nat (8 * n) :: u32) AND 504 = push_bit 3 (take_bit 6 (word_of_nat n))"
    unfolding e w by (rule bit_word_eqI) (auto simp: bit_simps)
  moreover have "push_bit 3 (take_bit 6 x) = push_bit 3 (56 :: u32) \<longleftrightarrow> take_bit 6 x = 56" for x :: u32
  proof
    assume "push_bit 3 (take_bit 6 x) = push_bit 3 (56 :: u32)"
    then have "drop_bit 3 (push_bit 3 (take_bit 6 x)) = drop_bit 3 (push_bit 3 (56 :: u32))" by simp
    moreover have "drop_bit 3 (push_bit 3 (take_bit 6 x)) = take_bit 6 x" by (rule bit_word_eqI) (auto simp: bit_simps)
    moreover have "drop_bit 3 (push_bit 3 (56 :: u32)) = 56" by code_simp
    ultimately show "take_bit 6 x = 56" by simp
  qed simp
  moreover have "take_bit 6 (word_of_nat n :: u32) = 56 \<longleftrightarrow> n mod 64 = 56"
    using t by (simp add: word_unat_eq_iff)
  ultimately show "((word_of_nat (8 * n) :: u32) AND 504 = 448) \<longleftrightarrow> n mod 64 = 56"
    by (simp only: e(2))
qed

text \<open>The context after \<open>m\<close> has been fed to it, in any number of updates.\<close>

definition holds_message :: "sha1_ctx \<Rightarrow> byte list \<Rightarrow> bool" where
  "holds_message ctx m \<longleftrightarrow> sha_state ctx = sha1_hash (sha_state sat_SHA1_Init) m \<and>
     count0 ctx = word_of_nat (8 * length m) \<and> length (sha_buffer ctx) = 64 \<and>
     take (length m mod 64) (sha_buffer ctx) = drop (64 * (length m div 64)) m"

lemma block_split: "r < 64 \<Longrightarrow> (64 * x + r) mod 64 = r" "r < 64 \<Longrightarrow> (64 * x + r) div 64 = (x :: nat)"
  by simp_all

lemma overwrite_zero:
  "length r \<le> length b \<Longrightarrow> take (length r) (overwrite b 0 r) = r \<and> length (overwrite b 0 r) = length b"
  by (simp add: overwrite_def)

lemma update_holds:
  assumes "holds_message ctx m"
  shows "holds_message (sat_SHA1_Update ctx d) (m @ d)"
proof -
  let ?n = "length m" and ?h0 = "sha_state sat_SHA1_Init"
  let ?j = "?n mod 64" and ?a = "take (64 * (?n div 64)) m" and ?t = "drop (64 * (?n div 64)) m"
  define buf where "buf = sha_buffer ctx"
  have st: "sha_state ctx = sha1_hash ?h0 m" and c0: "count0 ctx = word_of_nat (8 * ?n)"
    and b: "length buf = 64" "take ?j buf = ?t"
    using assms by (simp_all add: holds_message_def buf_def)
  have len: "length ?a = 64 * (?n div 64)" "length ?t = ?j"
    using div_mult_mod_eq [of ?n 64] by (simp_all add: mult.commute minus_mult_div_eq_mod)
  have mt: "m = ?a @ ?t" by simp
  have ha: "sha_state ctx = sha1_hash ?h0 ?a"
    using sha1_hash_append [OF len(1), of ?h0 ?t] len(2) st by (simp add: sha1_hash_short)
  have j: "unat (drop_bit 3 (count0 ctx) AND 63) = ?j" unfolding c0 by (rule and_504)
  have bits: "word_of_nat (8 * ?n) + push_bit 3 (word_of_nat (length d) :: u32) = word_of_nat (8 * length (m @ d))"
    by (simp add: push_bit_eq_mult algebra_simps)
  show ?thesis
  proof (cases "?j + length d > 63")
    case False
    have "sha1_hash ?h0 (m @ d) = sha1_hash (sha1_hash ?h0 ?a) (?t @ d)"
      using sha1_hash_append [OF len(1), of ?h0 "?t @ d"] by (simp flip: append_assoc)
    also have "\<dots> = sha_state ctx" using False len(2) ha by (simp add: sha1_hash_short)
    finally have s: "sha1_hash ?h0 (m @ d) = sha_state ctx" .
    have "length (m @ d) = 64 * (?n div 64) + (?j + length d)" by simp
    moreover have "?j + length d < 64" using False by simp
    ultimately have q: "length (m @ d) div 64 = ?n div 64" "length (m @ d) mod 64 = ?j + length d"
      by (metis div_mult_self4 add.commute div_less add_0 mult.commute zero_neq_numeral, metis mod_mult_self4 mod_less)
    have "take (?j + length d) (overwrite buf ?j d) = take ?j buf @ d"
      using b(1) False by (simp add: overwrite_def)
    then have "take (?j + length d) (overwrite buf ?j d) = ?t @ d" unfolding b(2) .
    moreover have "length (overwrite buf ?j d) = 64" using b False by (simp add: overwrite_def)
    moreover have "drop (64 * (?n div 64)) (m @ d) = ?t @ d" using len(1) by simp
    ultimately show ?thesis using False s q bits c0 j
      by (simp add: holds_message_def sat_SHA1_Update_def Let_def buf_def)
  next
    case True
    let ?i = "64 - ?j"
    let ?k = "(length d - ?i) div 64"
    let ?b = "overwrite buf ?j (take ?i d)" and ?tl = "drop (?i + 64 * ?k) d"
    have i: "?i \<le> length d" "?j \<le> 64" using True by simp_all
    have bb: "?b = ?t @ take ?i d" "length ?b = 64" using b i len(2) by (simp_all add: overwrite_def)
    have k: "64 * ?k \<le> length (drop ?i d)" by simp
    have tl: "length ?tl = (length d - ?i) mod 64" "length ?tl < 64"
      by (simp_all only: length_drop diff_diff_left [symmetric] minus_mult_div_eq_mod)
    have d: "d = take ?i d @ take (64 * ?k) (drop ?i d) @ ?tl"
    proof -
      have "?tl = drop (64 * ?k) (drop ?i d)" by (simp only: drop_drop add.commute)
      then show ?thesis by (simp only: append_take_drop_id)
    qed
    let ?c = "take (64 * ?k) (drop ?i d)"
    have md: "m @ d = (?a @ ?b @ ?c) @ ?tl"
      using mt d by (metis append.assoc bb(1))
    have lp: "length (?a @ ?b @ ?c) = 64 * (?n div 64 + 1 + ?k)" using len(1) bb(2) k by simp
    have lc: "length ?c = 64 * ?k" using k by simp
    have "sha1_hash ?h0 (m @ d) = sha1_hash ?h0 (?a @ ?b @ ?c)"
      unfolding md sha1_hash_append [OF lp] using tl(2) by (simp only: sha1_hash_short)
    also have "\<dots> = sha1_hash (sha1_hash (sha1_hash ?h0 ?a) ?b) ?c"
      unfolding sha1_hash_append [OF len(1)] using sha1_hash_append [of ?b 1] bb(2) by simp
    also have "\<dots> = sha1_blocks (sha1_transform (sha_state ctx) ?b) (drop ?i d) ?k"
      unfolding sha1_blocks_hash [OF k] sha1_hash_block [OF bb(2)] ha ..
    finally have s: "sha1_hash ?h0 (m @ d) = sha1_blocks (sha1_transform (sha_state ctx) ?b) (drop ?i d) ?k" .
    have L: "length (m @ d) = 64 * (?n div 64 + 1 + ?k) + length ?tl" unfolding md length_append [of _ ?tl] lp ..
    have q: "length (m @ d) mod 64 = length ?tl" "64 * (length (m @ d) div 64) = 64 * (?n div 64 + 1 + ?k)"
      unfolding L using block_split [OF tl(2)] by (simp_all only:)
    have "drop (64 * (length (m @ d) div 64)) (m @ d) = ?tl"
      using drop_eq_suffix [OF lp, of ?tl] unfolding q(2) [symmetric] md [symmetric] .
    moreover have "length ?tl \<le> length ?b" unfolding bb(2) using tl(2) by (rule less_imp_le)
    note O = overwrite_zero [OF this]
    have "take (length ?tl) (overwrite ?b 0 ?tl) = ?tl" by (rule conjunct1 [OF O])
    moreover have "length (overwrite ?b 0 ?tl) = 64" unfolding conjunct2 [OF O] by (rule bb(2))
    ultimately have B: "take (length (m @ d) mod 64) (overwrite ?b 0 ?tl) = drop (64 * (length (m @ d) div 64)) (m @ d)"
      "length (overwrite ?b 0 ?tl) = 64" unfolding q(1) by (simp_all only:)
    have "holds_message (ctx\<lparr>sha_state := sha1_hash ?h0 (m @ d), count0 := word_of_nat (8 * length (m @ d)),
        count1 := x, sha_buffer := overwrite ?b 0 ?tl\<rparr>) (m @ d)" for x
      using B by (cases ctx) (simp only: holds_message_def sha1_ctx.simps simp_thms)
    then show ?thesis
      unfolding sat_SHA1_Update_def Let_def j unfolding if_P [OF True] unfolding c0 bits s buf_def .
  qed
qed

declare sha1_pad_loop.simps [simp del]

lemma pad_loop_holds:
  assumes "holds_message ctx m" "(length m + k) mod 64 = 56" "k \<le> fuel" "\<forall>i < k. (length m + i) mod 64 \<noteq> 56"
  shows "\<exists>ctx'. sha1_pad_loop fuel ctx = Some ctx' \<and> holds_message ctx' (m @ replicate k 0)"
  using assms
proof (induction k arbitrary: ctx m fuel)
  case 0
  then have "count0 ctx AND 504 = 448" using and_504(1) [of "length m"] by (simp add: holds_message_def)
  then have "sha1_pad_loop fuel ctx = Some ctx" by (simp add: sha1_pad_loop.simps [of fuel ctx])
  then show ?case using 0 by simp
next
  case (Suc k)
  obtain f where f: "fuel = Suc f" "k \<le> f" using Suc.prems(3) by (cases fuel) auto
  have "length m mod 64 \<noteq> 56" using Suc.prems(4) by auto
  then have c: "count0 ctx AND 504 \<noteq> 448"
    using and_504(1) [of "length m"] Suc.prems(1) by (simp add: holds_message_def)
  have h: "holds_message (sat_SHA1_Update ctx [0]) (m @ [0])" by (rule update_holds [OF Suc.prems(1)])
  have "(length (m @ [0]) + k) mod 64 = 56" using Suc.prems(2) by simp
  moreover have "\<forall>i < k. (length (m @ [0]) + i) mod 64 \<noteq> 56"
    using Suc.prems(4) by (auto dest: spec [of _ "Suc _"])
  ultimately obtain ctx' where "sha1_pad_loop f (sat_SHA1_Update ctx [0]) = Some ctx'"
    "holds_message ctx' ((m @ [0]) @ replicate k 0)"
    using Suc.IH [OF h _ f(2)] by blast
  moreover have "sha1_pad_loop fuel ctx = sha1_pad_loop f (sat_SHA1_Update ctx [0])"
    using c unfolding f(1) by (simp add: sha1_pad_loop.simps [of "Suc f" ctx])
  ultimately show ?case by (intro exI [of _ ctx']) simp
qed

text \<open>The padded message and the digest of FIPS 180-4.\<close>

definition be64 :: "nat \<Rightarrow> byte list" where
  "be64 n = map (\<lambda>i. word_of_nat (n div 256 ^ (7 - i))) [0..<8]"

definition sha1_pad :: "byte list \<Rightarrow> byte list" where
  "sha1_pad m = m @ 0x80 # replicate ((119 - length m mod 64) mod 64) 0 @ be64 (8 * length m)"

definition sha1_spec :: "byte list \<Rightarrow> byte list" where
  "sha1_spec m = (case sha1_hash (0x67452301, 0xEFCDAB89, 0x98BADCFE, 0x10325476, 0xC3D2E1F0) (sha1_pad m) of
     (a, b, c, d, e) \<Rightarrow> concat (map be32_bytes [a, b, c, d, e]))"

lemma be32_bytes_nat: "be32_bytes (word_of_nat n) = map (\<lambda>i. word_of_nat (n div 256 ^ (3 - i))) [0..<4]"
proof -
  have m: "ucast (x AND 255) = (ucast x :: byte)" for x :: u32
  proof -
    have e: "(255 :: u32) = mask 8" by code_simp
    show ?thesis unfolding e by (rule bit_word_eqI) (auto simp: bit_simps)
  qed
  have d: "ucast (drop_bit k (word_of_nat n :: u32)) = (word_of_nat (n div 2 ^ k) :: byte)" if "k \<le> 24" for k
    by (rule bit_word_eqI) (use that in \<open>auto simp: bit_simps drop_bit_eq_div [symmetric]\<close>)
  show ?thesis using d [of 24] d [of 16] d [of 8] d [of 0]
    by (simp add: be32_bytes_def m upt_rec)
qed

lemma pad_amount:
  fixes n :: nat
  defines "k \<equiv> (119 - n mod 64) mod 64"
  shows "(Suc n + k) mod 64 = 56" "k \<le> 64" "\<forall>i < k. (Suc n + i) mod 64 \<noteq> 56"
proof -
  define r where "r = n mod 64"
  have r: "r < 64" by (simp add: r_def)
  have e: "(Suc n + i) mod 64 = (Suc r + i) mod 64" for i
    unfolding r_def by (metis add_Suc mod_Suc_eq mod_add_left_eq)
  have k: "k = (if r \<le> 55 then 55 - r else 119 - r)"
    using r unfolding k_def r_def [symmetric] by (auto simp: mod_if)
  show "k \<le> 64" unfolding k_def by (simp add: less_imp_le)
  show "(Suc n + k) mod 64 = 56" unfolding e k using r by (auto simp: mod_if)
  show "\<forall>i < k. (Suc n + i) mod 64 \<noteq> 56" unfolding e k using r by (auto simp: mod_if)
qed

lemma be64_counts: "be64 (8 * n) = be32_bytes (word_of_nat (drop_bit 29 n)) @ be32_bytes (word_of_nat (8 * n))"
proof -
  have l: "[0..<8] = [0..<4] @ map ((+) 4) [0..<4]" by (simp add: upt_rec)
  have d: "8 * n div 256 ^ (7 - i) = drop_bit 29 n div 256 ^ (3 - i)" if "i < 4" for i
  proof -
    have "7 - i = 4 + (3 - i)" using that by simp
    then have "8 * n div 256 ^ (7 - i) = 8 * n div 256 ^ 4 div 256 ^ (3 - i)"
      by (simp only: power_add div_mult2_eq)
    also have "8 * n div 256 ^ 4 = drop_bit 29 n" by (simp add: drop_bit_eq_div)
    finally show ?thesis .
  qed
  have e: "map (\<lambda>i. word_of_nat (8 * n div 256 ^ (7 - i)) :: byte) [0..<4] =
      map (\<lambda>i. word_of_nat (drop_bit 29 n div 256 ^ (3 - i))) [0..<4]"
    by (rule map_cong [OF refl]) (simp only: d set_upt atLeastLessThan_iff)
  have f: "map (\<lambda>i. word_of_nat (8 * n div 256 ^ (7 - i)) :: byte) (map ((+) 4) [0..<4]) =
      map (\<lambda>i. word_of_nat (8 * n div 256 ^ (3 - i))) [0..<4]"
    by simp
  show ?thesis unfolding be64_def be32_bytes_nat l map_append e f ..
qed

lemma update_count1: "count1 (sat_SHA1_Update ctx d) =
  (if count0 ctx + push_bit 3 (word_of_nat (length d)) < push_bit 3 (word_of_nat (length d))
   then count1 ctx + 1 else count1 ctx) + word_of_int (drop_bit 29 (int (length d)))"
proof (cases "unat (drop_bit 3 (count0 ctx) AND 63) + length d > 63")
  case True
  show ?thesis unfolding sat_SHA1_Update_def Let_def if_P [OF True] by (cases ctx) (simp only: sha1_ctx.simps)
next
  case False
  show ?thesis unfolding sat_SHA1_Update_def Let_def if_not_P [OF False] by (cases ctx) (simp only: sha1_ctx.simps)
qed

lemma update_init_count1: "count1 (sat_SHA1_Update sat_SHA1_Init m) = word_of_nat (drop_bit 29 (length m))"
proof -
  have "count1 (sat_SHA1_Update sat_SHA1_Init m) = word_of_int (drop_bit 29 (int (length m)))"
    unfolding update_count1 by (simp only: sat_SHA1_Init_def sha1_ctx.select_convs add_0 less_irrefl if_False)
  then show ?thesis by (simp only: of_nat_drop_bit [symmetric] of_int_of_nat_eq)
qed

section \<open>Property\<close>

text \<open>C15 (equivalence): \<open>crypt_sha1\<close>, with its circular schedule, its streaming context and its
  byte-by-byte padding loop, computes the SHA-1 digest of FIPS 180-4; in particular the padding
  loop ends within its 64 rounds of fuel.\<close>

theorem crypt_sha1_spec: "crypt_sha1 m = Some (sha1_spec m)"
proof -
  let ?c0 = "sat_SHA1_Init" and ?n = "length m"
  let ?k = "(119 - ?n mod 64) mod 64"
  have "holds_message ?c0 []" by (simp add: holds_message_def sha1_hash_short sat_SHA1_Init_def)
  from update_holds [OF this] have h1: "holds_message (sat_SHA1_Update ?c0 m) m" by simp
  let ?c1 = "sat_SHA1_Update ?c0 m"
  from update_holds [OF h1, of "[0x80]"] have h2: "holds_message (sat_SHA1_Update ?c1 [0x80]) (m @ [0x80])" .
  obtain c2 where c2: "sha1_pad_loop 64 (sat_SHA1_Update ?c1 [0x80]) = Some c2"
    "holds_message c2 ((m @ [0x80]) @ replicate ?k 0)"
    using pad_loop_holds [OF h2, of ?k 64] pad_amount [of ?n] by auto
  have fin: "be32_bytes (count1 ?c1) @ be32_bytes (count0 ?c1) = be64 (8 * ?n)"
    using h1 by (simp only: be64_counts update_init_count1 holds_message_def)
  have "holds_message (sat_SHA1_Update c2 (be64 (8 * ?n))) (sha1_pad m)"
    using update_holds [OF c2(2), of "be64 (8 * ?n)"] by (simp add: sha1_pad_def)
  then have st: "sha_state (sat_SHA1_Update c2 (be64 (8 * ?n))) = sha1_hash (sha_state ?c0) (sha1_pad m)"
    by (simp only: holds_message_def)
  have i: "sha_state ?c0 = (0x67452301, 0xEFCDAB89, 0x98BADCFE, 0x10325476, 0xC3D2E1F0)"
    by (simp only: sat_SHA1_Init_def sha1_ctx.select_convs)
  obtain a b c d e where h: "sha1_hash (sha_state ?c0) (sha1_pad m) = (a, b, c, d, e)" by (metis prod_cases5)
  have "sha1_spec m = be32_bytes a @ be32_bytes b @ be32_bytes c @ be32_bytes d @ be32_bytes e"
    using h by (simp only: sha1_spec_def i prod.case list.map concat.simps append_Nil2)
  then show ?thesis unfolding crypt_sha1_def sat_SHA1_Final_def Let_def c2(1) bind.bind_lunit fin st h prod.case
    by (simp only:)
qed

end
