(* ===== verification/Md5.thy ===== *)
theory Md5
  imports Prelude
begin

text \<open>
  vendor/crypto/md5.c: MD5 with a fixed buffer of one block, equal to the definition of RFC 1321 for messages
  whose length in bits fits the 35 bits the code keeps. \<open>long\<close> has 64 bits; the length given is that of the message.
\<close>

section \<open>The digest of a block\<close>

definition md5_rotate :: "u32 \<Rightarrow> nat \<Rightarrow> u32" where
  "md5_rotate D num = push_bit num D OR drop_bit (32 - num) D"

definition md5_F :: "u32 \<Rightarrow> u32 \<Rightarrow> u32 \<Rightarrow> u32" where "md5_F x y z = (x AND y) OR (NOT x AND z)"
definition md5_G :: "u32 \<Rightarrow> u32 \<Rightarrow> u32 \<Rightarrow> u32" where "md5_G x y z = (x AND z) OR (y AND NOT z)"
definition md5_H :: "u32 \<Rightarrow> u32 \<Rightarrow> u32 \<Rightarrow> u32" where "md5_H x y z = x XOR y XOR z"
definition md5_I :: "u32 \<Rightarrow> u32 \<Rightarrow> u32 \<Rightarrow> u32" where "md5_I x y z = y XOR (x OR NOT z)"

definition md5_T :: "u32 list" where
  "md5_T =
    [0xd76aa478, 0xe8c7b756, 0x242070db, 0xc1bdceee, 0xf57c0faf, 0x4787c62a, 0xa8304613, 0xfd469501,
     0x698098d8, 0x8b44f7af, 0xffff5bb1, 0x895cd7be, 0x6b901122, 0xfd987193, 0xa679438e, 0x49b40821,
     0xf61e2562, 0xc040b340, 0x265e5a51, 0xe9b6c7aa, 0xd62f105d, 0x02441453, 0xd8a1e681, 0xe7d3fbc8,
     0x21e1cde6, 0xc33707d6, 0xf4d50d87, 0x455a14ed, 0xa9e3e905, 0xfcefa3f8, 0x676f02d9, 0x8d2a4c8a,
     0xfffa3942, 0x8771f681, 0x6d9d6122, 0xfde5380c, 0xa4beea44, 0x4bdecfa9, 0xf6bb4b60, 0xbebfbc70,
     0x289b7ec6, 0xeaa127fa, 0xd4ef3085, 0x04881d05, 0xd9d4d039, 0xe6db99e5, 0x1fa27cf8, 0xc4ac5665,
     0xf4292244, 0x432aff97, 0xab9423a7, 0xfc93a039, 0x655b59c3, 0x8f0ccc92, 0xffeff47d, 0x85845dd1,
     0x6fa87e4f, 0xfe2ce6e0, 0xa3014314, 0x4e0811a1, 0xf7537e82, 0xbd3af235, 0x2ad7d2bb, 0xeb86d391]"

type_synonym md5_state = "u32 \<times> u32 \<times> u32 \<times> u32"

definition word32tobytes :: "md5_state \<Rightarrow> byte list" where
  "word32tobytes d = (case d of (d0, d1, d2, d3) \<Rightarrow> concat (map bytes32 [d0, d1, d2, d3]))"

definition inic_digest :: md5_state where
  "inic_digest = (0x67452301, 0xEFCDAB89, 0x98BADCFE, 0x10325476)"

text \<open>
  One statement of the loops, \<open>a = a + f(b, c, d) + x + t; a = rotate(a, s); a += b\<close>, and the body of a loop: four
  of them on \<open>d[0]\<close>, \<open>d[3]\<close>, \<open>d[2]\<close>, \<open>d[1]\<close>, with the words \<open>x k\<close>, the constants \<open>t k\<close> and the rotations \<open>s k\<close>.
\<close>

definition md5_step :: "(u32 \<Rightarrow> u32 \<Rightarrow> u32 \<Rightarrow> u32) \<Rightarrow> u32 \<Rightarrow> u32 \<Rightarrow> nat \<Rightarrow> u32 \<Rightarrow> u32 \<Rightarrow> u32 \<Rightarrow> u32 \<Rightarrow> u32" where
  "md5_step f x t s a b c d = (let a = a + f b c d + x + t; a = md5_rotate a s in a + b)"

definition passo ::
    "(u32 \<Rightarrow> u32 \<Rightarrow> u32 \<Rightarrow> u32) \<Rightarrow> (nat \<Rightarrow> u32) \<Rightarrow> (nat \<Rightarrow> u32) \<Rightarrow> (nat \<Rightarrow> nat) \<Rightarrow> md5_state \<Rightarrow> md5_state" where
  "passo f x t s d = (case d of (d0, d1, d2, d3) \<Rightarrow>
     (let d0 = md5_step f (x 0) (t 0) (s 0) d0 d1 d2 d3;
          d3 = md5_step f (x 1) (t 1) (s 1) d3 d0 d1 d2;
          d2 = md5_step f (x 2) (t 2) (s 2) d2 d3 d0 d1;
          d1 = md5_step f (x 3) (t 3) (s 3) d1 d2 d3 d0
      in (d0, d1, d2, d3)))"

text \<open>The four loops over \<open>j = 0, 4, 8, 12\<close>.\<close>

definition digest :: "u32 list \<Rightarrow> md5_state \<Rightarrow> md5_state" where
  "digest m d =
     (let js = [0, 4, 8, 12];
          d = fold (\<lambda>j. passo md5_F (\<lambda>k. m ! (j + k)) (\<lambda>k. md5_T ! (j + k)) (\<lambda>k. [7, 12, 17, 22] ! k)) js d;
          d = fold (\<lambda>j. passo md5_G (\<lambda>k. m ! ((5 * (j + k) + 1) mod 16)) (\<lambda>k. md5_T ! (j + k + 16)) (\<lambda>k. [5, 9, 14, 20] ! k)) js d;
          d = fold (\<lambda>j. passo md5_H (\<lambda>k. m ! ((3 * (j + k) + 5) mod 16)) (\<lambda>k. md5_T ! (j + k + 32)) (\<lambda>k. [4, 11, 16, 23] ! k)) js d
      in fold (\<lambda>j. passo md5_I (\<lambda>k. m ! ((7 * (j + k)) mod 16)) (\<lambda>k. md5_T ! (j + k + 48)) (\<lambda>k. [6, 10, 15, 21] ! k)) js d)"

section \<open>Blocks and padding\<close>

definition bytestoword32 :: "byte list \<Rightarrow> u32 list" where
  "bytestoword32 pt = map (\<lambda>i. let j = 4 * i in
     push_bit 8 (push_bit 8 (push_bit 8 (ucast (pt ! (j + 3))) OR ucast (pt ! (j + 2))) OR ucast (pt ! (j + 1)))
       OR ucast (pt ! j)) [0..<16]"

definition put_length :: "nat \<Rightarrow> u32 list \<Rightarrow> u32 list" where
  "put_length len x = x[14 := word_of_nat (push_bit 3 len), 15 := word_of_nat (drop_bit 29 len AND 7)]"

text \<open>The next \<open>num\<close> bytes at \<open>pt\<close> as words, with the status: 2 when the length fits after the padding byte.\<close>

definition converte :: "byte list \<Rightarrow> nat \<Rightarrow> nat \<Rightarrow> u32 list \<times> nat" where
  "converte pt num old_status =
     (let (pt, new_status) =
        (if num < 64 then
           let buff = take num pt @ replicate (64 - num) 0 in
             (if old_status = 0 then buff[num := 0x80] else buff, 1)
         else (pt, 0))
      in (bytestoword32 pt, if num \<le> 64 - 9 then 2 else new_status))"

definition md5_add :: "md5_state \<Rightarrow> md5_state \<Rightarrow> md5_state" where
  "md5_add d e = (case (d, e) of ((d0, d1, d2, d3), (e0, e1, e2, e3)) \<Rightarrow> (d0 + e0, d1 + e1, d2 + e2, d3 + e3))"

text \<open>The loop of \<open>md5\<close>, from byte \<open>i\<close> on. It ends because an empty rest leaves room for the length.\<close>

function md5_loop :: "byte list \<Rightarrow> nat \<Rightarrow> nat \<Rightarrow> md5_state \<Rightarrow> md5_state" where
  "md5_loop message i status d =
     (if status = 2 then d
      else
        let len = length message;
            numbytes = (if len - i \<ge> 64 then 64 else len - i);
            (wbuff, status) = converte (drop i message) numbytes status;
            wbuff = (if status = 2 then put_length len wbuff else wbuff)
        in md5_loop message (i + numbytes) status (md5_add (digest wbuff d) d))"
  by pat_completeness auto
termination
proof (relation "measure (\<lambda>(message, i, status, d). if status = 2 then 0 else Suc (length message - i))", simp)
qed (auto simp: converte_def Let_def split: if_splits)

declare md5_loop.simps [simp del]

definition md5 :: "byte list \<Rightarrow> byte list" where
  "md5 message = word32tobytes (md5_loop message 0 0 inic_digest)"

section \<open>RFC 1321\<close>

text \<open>
  The sixty-four steps of the standard, on rotating registers \<open>(a, b, c, d)\<close>, with its auxiliary functions, word indices
  and rotations; its little-endian words; and its padding, which ends with the length in 64 bits.
\<close>

definition rfc_f :: "nat \<Rightarrow> u32 \<Rightarrow> u32 \<Rightarrow> u32 \<Rightarrow> u32" where
  "rfc_f i = (if i < 16 then md5_F else if i < 32 then md5_G else if i < 48 then md5_H else md5_I)"

definition rfc_k :: "nat \<Rightarrow> nat" where
  "rfc_k i = (if i < 16 then i else if i < 32 then (5 * i + 1) mod 16 else if i < 48 then (3 * i + 5) mod 16 else (7 * i) mod 16)"

definition rfc_s :: "nat \<Rightarrow> nat" where
  "rfc_s i = [[7, 12, 17, 22], [5, 9, 14, 20], [4, 11, 16, 23], [6, 10, 15, 21]] ! (i div 16) ! (i mod 4)"

definition rfc_step :: "u32 list \<Rightarrow> nat \<Rightarrow> md5_state \<Rightarrow> md5_state" where
  "rfc_step X i h = (case h of (a, b, c, d) \<Rightarrow>
     (d, b + md5_rotate (a + rfc_f i b c d + X ! rfc_k i + md5_T ! i) (rfc_s i), b, c))"

definition rfc_words :: "byte list \<Rightarrow> u32 list" where
  "rfc_words b = map (\<lambda>i. le32 (b ! (4 * i)) (b ! (4 * i + 1)) (b ! (4 * i + 2)) (b ! (4 * i + 3))) [0..<16]"

definition rfc_compress :: "md5_state \<Rightarrow> byte list \<Rightarrow> md5_state" where
  "rfc_compress h b = md5_add (fold (rfc_step (rfc_words b)) [0..<64] h) h"

function (sequential) rfc_hash :: "md5_state \<Rightarrow> byte list \<Rightarrow> md5_state" where
  "rfc_hash h m = (if length m < 64 then h else rfc_hash (rfc_compress h (take 64 m)) (drop 64 m))"
  by pat_completeness auto
termination by (relation "measure (length \<circ> snd)") auto

declare rfc_hash.simps [simp del]

definition rfc_length :: "nat \<Rightarrow> byte list" where
  "rfc_length n = bytes32 (word_of_nat (8 * n)) @ bytes32 (word_of_nat (8 * n div 2 ^ 32))"

definition rfc_pad :: "byte list \<Rightarrow> byte list" where
  "rfc_pad m = m @ 0x80 # replicate ((119 - length m mod 64) mod 64) 0 @ rfc_length (length m)"

definition md5_spec :: "byte list \<Rightarrow> byte list" where
  "md5_spec m = word32tobytes (rfc_hash (0x67452301, 0xEFCDAB89, 0x98BADCFE, 0x10325476) (rfc_pad m))"

section \<open>The digest is that of the standard\<close>

lemma passo_steps:
  assumes "\<And>k. k < 4 \<Longrightarrow> rfc_f (n + k) = f \<and> X ! rfc_k (n + k) = x k \<and> md5_T ! (n + k) = t k \<and> rfc_s (n + k) = s k"
  shows "fold (rfc_step X) [n..<n + 4] d = passo f x t s d"
proof -
  have u: "[n..<n + 4] = [n, n + 1, n + 2, n + 3]" by (simp add: upt_rec)
  obtain d0 d1 d2 d3 where d: "d = (d0, d1, d2, d3)" by (metis prod_cases4)
  show ?thesis
    using assms [of 0] assms [of 1] assms [of 2] assms [of 3] unfolding u d
    by (simp add: rfc_step_def passo_def md5_step_def Let_def add.commute)
qed

lemma upt_split: "i \<le> j \<Longrightarrow> j \<le> k \<Longrightarrow> [i..<k] = [i..<j] @ [j..<k]"
  by (metis le_Suc_ex upt_add_eq_append)

lemma passo_round:
  assumes "\<And>j k. j \<in> {0, 4, 8, 12} \<Longrightarrow> k < 4 \<Longrightarrow> rfc_f (n + (j + k)) = f \<and> X ! rfc_k (n + (j + k)) = x j k \<and>
      md5_T ! (n + (j + k)) = t j k \<and> rfc_s (n + (j + k)) = s k"
  shows "fold (\<lambda>j. passo f (x j) (t j) s) [0, 4, 8, 12] d = fold (rfc_step X) [n..<n + 16] d"
proof -
  have p: "fold (rfc_step X) [n + j..<n + j + 4] d = passo f (x j) (t j) s d" if "j \<in> {0, 4, 8, 12}" for j d
    using passo_steps [of "n + j" f X "x j" "t j" s] assms [OF that] by (simp add: add.assoc)
  have u: "[n..<n + 16] = [n..<n + 4] @ [n + 4..<n + 8] @ [n + 8..<n + 12] @ [n + 12..<n + 16]"
    using upt_split [of n "n + 4" "n + 16"] upt_split [of "n + 4" "n + 8" "n + 16"] upt_split [of "n + 8" "n + 12" "n + 16"] by simp
  show ?thesis unfolding u using p [of 0] p [of 4] p [of 8] p [of 12] by (simp add: add.assoc)
qed

lemma digest_steps: "digest X d = fold (rfc_step X) [0..<64] d"
proof -
  have k4: "k < 4 \<Longrightarrow> k = 0 \<or> k = 1 \<or> k = 2 \<or> k = 3" for k :: nat by linarith
  have u: "[0..<64] = [0..<0 + 16] @ [16..<16 + 16] @ [32..<32 + 16] @ [48..<48 + (16::nat)]"
    using upt_split [of 0 16 64] upt_split [of 16 32 64] upt_split [of 32 48 64] by simp
  have 1: "fold (\<lambda>j. passo md5_F (\<lambda>k. X ! (j + k)) (\<lambda>k. md5_T ! (j + k)) (\<lambda>k. [7, 12, 17, 22] ! k)) [0, 4, 8, 12] d =
      fold (rfc_step X) [0..<0 + 16] d" for d
    by (rule passo_round) (auto dest!: k4 simp: rfc_f_def rfc_k_def rfc_s_def)
  have 2: "fold (\<lambda>j. passo md5_G (\<lambda>k. X ! ((5 * (j + k) + 1) mod 16)) (\<lambda>k. md5_T ! (j + k + 16)) (\<lambda>k. [5, 9, 14, 20] ! k))
      [0, 4, 8, 12] d = fold (rfc_step X) [16..<16 + 16] d" for d
    by (rule passo_round) (auto dest!: k4 simp: rfc_f_def rfc_k_def rfc_s_def)
  have 3: "fold (\<lambda>j. passo md5_H (\<lambda>k. X ! ((3 * (j + k) + 5) mod 16)) (\<lambda>k. md5_T ! (j + k + 32)) (\<lambda>k. [4, 11, 16, 23] ! k))
      [0, 4, 8, 12] d = fold (rfc_step X) [32..<32 + 16] d" for d
    by (rule passo_round) (auto dest!: k4 simp: rfc_f_def rfc_k_def rfc_s_def)
  have 4: "fold (\<lambda>j. passo md5_I (\<lambda>k. X ! ((7 * (j + k)) mod 16)) (\<lambda>k. md5_T ! (j + k + 48)) (\<lambda>k. [6, 10, 15, 21] ! k))
      [0, 4, 8, 12] d = fold (rfc_step X) [48..<48 + 16] d" for d
    by (rule passo_round) (auto dest!: k4 simp: rfc_f_def rfc_k_def rfc_s_def)
  show ?thesis unfolding digest_def Let_def 1 2 3 4 u fold_append o_apply ..
qed

section \<open>Blocks\<close>

lemma bytestoword32_words: "bytestoword32 b = rfc_words b"
proof -
  have "push_bit 8 (push_bit 8 (push_bit 8 (ucast b3) OR ucast b2) OR ucast b1) OR ucast b0 = le32 b0 b1 b2 b3"
    for b0 b1 b2 b3 :: byte
    by (rule bit_word_eqI) (auto simp: le32_def bit_simps)
  then show ?thesis by (simp add: bytestoword32_def rfc_words_def Let_def add.commute)
qed

lemma digest_compress: "md5_add (digest (rfc_words b) d) d = rfc_compress d b"
  by (simp add: digest_steps rfc_compress_def)

lemma rfc_words_take: "rfc_words (take 64 m) = rfc_words m"
  by (simp add: rfc_words_def)

lemma rfc_hash_block: "length b = 64 \<Longrightarrow> rfc_hash h (b @ m) = rfc_hash (rfc_compress h b) m"
  by (simp add: rfc_hash.simps [of h "b @ m"])

lemma rfc_hash_empty: "rfc_hash h [] = h"
  by (simp add: rfc_hash.simps)

text \<open>The length is stored over the last two words; the code keeps three bits of the upper one.\<close>

lemma words_length:
  assumes "length b = 56" "n < 2 ^ 32" "length z = 8"
  shows "put_length n (rfc_words (b @ z)) = rfc_words (b @ rfc_length n)"
proof (rule nth_equalityI)
  fix i assume "i < length (put_length n (rfc_words (b @ z)))"
  then have i: "i < 16" by (simp add: put_length_def rfc_words_def)
  have n15: "drop_bit 29 n AND 7 = 8 * n div 2 ^ 32"
  proof -
    have "drop_bit 29 n AND 7 = take_bit 3 (drop_bit 29 n)" by (simp add: take_bit_eq_mask mask_eq_exp_minus_1)
    moreover have "drop_bit 29 n < 2 ^ 3" using assms(2) by (simp add: drop_bit_eq_div div_less_iff_less_mult)
    ultimately show ?thesis by (simp add: take_bit_nat_eq_self drop_bit_eq_div)
  qed
  consider "i < 14" | "i = 14" | "i = 15" using i by linarith
  then show "put_length n (rfc_words (b @ z)) ! i = rfc_words (b @ rfc_length n) ! i"
  proof cases
    case 1
    then show ?thesis using assms(1) by (simp add: put_length_def rfc_words_def nth_append)
  next
    case 2
    then show ?thesis using assms(1) le32_bytes32 [of "word_of_nat (8 * n)"]
      by (simp add: put_length_def rfc_words_def nth_append rfc_length_def bytes32_def push_bit_eq_mult mult.commute)
  next
    case 3
    then show ?thesis using assms(1) le32_bytes32 [of "word_of_nat (8 * n div 2 ^ 32)"] n15
      by (simp add: put_length_def rfc_words_def nth_append rfc_length_def bytes32_def)
  qed
qed (simp add: put_length_def rfc_words_def)

section \<open>The loop\<close>

lemma md5_loop_step:
  assumes "status \<noteq> 2" "num = min 64 (length message - i)" "converte (drop i message) num status = (x, status')"
  shows "md5_loop message i status d = md5_loop message (i + num) status'
    (md5_add (digest (if status' = 2 then put_length (length message) x else x) d) d)"
proof -
  have num: "(if 64 \<le> length message - i then 64 else length message - i) = num" using assms(2) by simp
  show ?thesis using assms(1,3) by (subst md5_loop.simps) (simp add: num Let_def)
qed

text \<open>What is left to hash at byte \<open>i\<close>: the rest of the message with the padding, after the padding byte zeros and length.\<close>

lemma md5_loop_last:
  assumes "length message < 2 ^ 32"
  shows "md5_loop message (length message) 1 d = rfc_hash d (replicate 56 0 @ rfc_length (length message))"
proof -
  have z: "replicate 64 (0 :: byte) = replicate 56 0 @ replicate 8 0" by (simp flip: replicate_add)
  have "md5_loop message (length message) 1 d =
      md5_loop message (length message) 2 (md5_add (digest (put_length (length message) (rfc_words (replicate 64 0))) d) d)"
    by (subst md5_loop.simps) (simp add: converte_def bytestoword32_words Let_def)
  also have "\<dots> = rfc_compress d (replicate 56 0 @ rfc_length (length message))"
    unfolding z using assms by (simp add: words_length digest_compress md5_loop.simps)
  finally show ?thesis
    using rfc_hash_block [of "replicate 56 0 @ rfc_length (length message)" d "[]"]
    by (simp add: rfc_hash_empty rfc_length_def)
qed

lemma md5_loop_spec:
  assumes "length message < 2 ^ 32" "64 dvd i" "i \<le> length message"
  shows "md5_loop message i 0 d = rfc_hash d (drop i (rfc_pad message))"
  using assms(2,3)
proof (induction "length message - i" arbitrary: i d rule: less_induct)
  case less
  let ?n = "length message" and ?r = "drop i message" and ?len = "rfc_length (length message)"
  have rest: "drop i (rfc_pad message) = ?r @ 0x80 # replicate ((119 - ?n mod 64) mod 64) 0 @ ?len"
    using less.prems(2) by (simp add: rfc_pad_def)
  have m: "?n mod 64 = (?n - i) mod 64"
    using less.prems by (metis dvd_minus_mod le_add_diff_inverse2 mod_add_right_eq dvd_imp_mod_0 add.right_neutral)
  consider "64 \<le> ?n - i" | "56 \<le> ?n - i" "?n - i < 64" | "?n - i < 56" by linarith
  then show ?case
  proof cases
    case 1
    then have b: "length (take 64 ?r) = 64" by simp
    have "md5_loop message i 0 d = md5_loop message (i + 64) 0 (rfc_compress d (take 64 ?r))"
      using 1 by (subst md5_loop.simps)
        (simp add: converte_def bytestoword32_words rfc_words_take [of ?r, symmetric] digest_compress)
    also have "\<dots> = rfc_hash (rfc_compress d (take 64 ?r)) (drop (i + 64) (rfc_pad message))"
      using 1 less.prems by (intro less.hyps) auto
    also have "\<dots> = rfc_hash d (take 64 ?r @ drop 64 (drop i (rfc_pad message)))"
      by (simp only: rfc_hash_block [OF b] drop_drop add.commute)
    also have "take 64 ?r = take 64 (drop i (rfc_pad message))" using 1 by (simp add: rest)
    finally show ?thesis by (simp only: append_take_drop_id)
  next
    case 2
    then have k: "(119 - ?n mod 64) mod 64 = (63 - (?n - i)) + 56" using m by simp
    let ?b = "?r @ 0x80 # replicate (63 - (?n - i)) 0"
    have b: "length ?b = 64" using 2 by simp
    have buff: "(?r @ replicate (64 - (?n - i)) 0)[?n - i := 0x80] = ?b"
      using 2 by (cases "64 - (?n - i)") (auto simp: list_update_append)
    have "md5_loop message i 0 d = md5_loop message ?n 1 (rfc_compress d ?b)"
      using 2 less.prems buff by (subst md5_loop.simps) (simp add: converte_def bytestoword32_words digest_compress Let_def)
    also have "\<dots> = rfc_hash d (?b @ replicate 56 0 @ ?len)"
      unfolding rfc_hash_block [OF b] by (rule md5_loop_last [OF assms(1)])
    finally show ?thesis unfolding rest k by (simp add: replicate_add)
  next
    case 3
    then have "119 - ?n mod 64 = 64 + (55 - (?n - i))" using m by simp
    then have k: "(119 - ?n mod 64) mod 64 = 55 - (?n - i)" by simp
    let ?b = "?r @ 0x80 # replicate (55 - (?n - i)) 0"
    have b: "length ?b = 56" "length (?b @ ?len) = 64" using 3 by (simp_all add: rfc_length_def)
    have "64 - (?n - i) = Suc ((55 - (?n - i)) + 8)" using 3 by simp
    then have "(?r @ replicate (64 - (?n - i)) 0)[?n - i := 0x80] = ?b @ replicate 8 0"
      by (simp only: list_update_append replicate_Suc replicate_add) simp
    then have conv: "converte ?r (?n - i) 0 = (rfc_words (?b @ replicate 8 0), 2)"
      using 3 by (simp only: converte_def bytestoword32_words Let_def) simp
    have "put_length ?n (rfc_words (?b @ replicate 8 0)) = rfc_words (?b @ ?len)"
      by (rule words_length [OF b(1) assms(1)]) simp
    then have "md5_loop message i 0 d = md5_loop message (i + (?n - i)) 2 (rfc_compress d (?b @ ?len))"
      using md5_loop_step [OF _ _ conv, of d] 3 digest_compress [of "?b @ ?len" d] by simp
    also have "\<dots> = rfc_hash d ((?b @ ?len) @ [])"
      unfolding rfc_hash_block [OF b(2)] by (simp add: md5_loop.simps rfc_hash_empty)
    finally show ?thesis unfolding rest k by simp
  qed
qed

section \<open>Property\<close>

text \<open>C39 (equivalence): for messages of less than 2^32 bytes, \<open>md5\<close>, which pads inside its loop with a status of three
  values, is the digest of RFC 1321.\<close>

theorem md5_rfc1321: "length m < 2 ^ 32 \<Longrightarrow> md5 m = md5_spec m"
  by (simp add: md5_def md5_spec_def md5_loop_spec inic_digest_def)

theorem md5_rfc1321_witness: "md5 (replicate 100 7) = md5_spec (replicate 100 7)"
  by (rule md5_rfc1321) simp

text \<open>Of the upper word of the length only three bits are kept, so a length of 2^32 bytes is stored as 0.\<close>

lemma md5_length_truncated:
  "length x = 16 \<Longrightarrow> put_length (2 ^ 32) x ! 15 = 0 \<and> (word_of_nat (8 * 2 ^ 32 div 2 ^ 32) :: u32) = 8"
  by (simp add: put_length_def drop_bit_eq_div flip: take_bit_eq_mask)

end
