(* ===== verification/Ws_Handshake.thy ===== *)
theory Ws_Handshake
  imports Session Base64 Sha1
begin

text \<open>
  netbus/ws_protocol.cc, the WebSocket handshake: the callbacks of the HTTP parser, the static
  buffers they fill, and \<open>ws_shakehand\<close>, which answers the upgrade request.

  http_parser is a third-party library: \<open>http_parser_execute\<close> on a fresh parser is a
  parameter that lists the callbacks it makes for the bytes of one read.
\<close>

section \<open>The parser's callbacks\<close>

datatype http_event = Header_Field "byte list" | Header_Value "byte list" | Message_Complete

text \<open>The static variables of the file; they outlive a handshake.\<close>

record ws_statics =
  field_sec_key :: "byte list"
  value_sec_key :: "byte list"
  is_sec_key :: bool
  has_sec_key :: bool
  is_shake_ended :: bool

definition ws_statics0 :: ws_statics where
  "ws_statics0 = \<lparr>field_sec_key = replicate 256 0, value_sec_key = replicate 256 0,
     is_sec_key = False, has_sec_key = False, is_shake_ended = False\<rparr>"

text \<open>\<open>strncmp(lit, at, length) == 0\<close> for a literal (its NUL is the end of the first list) and
  the \<open>length\<close> bytes at \<open>at\<close>.\<close>

fun strncmp_eq :: "byte list \<Rightarrow> byte list \<Rightarrow> bool" where
  "strncmp_eq lit [] = True"
| "strncmp_eq [] (b # bs) = (b = 0)"
| "strncmp_eq (a # lit) (b # bs) = (a = b \<and> (a = 0 \<or> strncmp_eq lit bs))"

text \<open>\<open>strncpy(buf, at, length)\<close>: stops at a NUL of the source and fills up with zeros; no NUL
  is written behind \<open>length\<close> copied bytes.\<close>

definition strncpy :: "byte list \<Rightarrow> byte list \<Rightarrow> byte list option" where
  "strncpy buf at =
     (let s = takeWhile (\<lambda>x. x \<noteq> 0) at
      in store buf 0 (s @ replicate (length at - length s) 0))"

definition on_header_field :: "byte list \<Rightarrow> ws_statics \<Rightarrow> ws_statics option" where
  "on_header_field at st =
     (if strncmp_eq (ascii ''Sec-WebSocket-Key'') at then do {
        f \<leftarrow> strncpy (field_sec_key st) at;
        Some (st\<lparr>is_sec_key := True, has_sec_key := True, field_sec_key := f\<rparr>) }
      else Some (st\<lparr>is_sec_key := False\<rparr>))"

definition on_header_value :: "byte list \<Rightarrow> ws_statics \<Rightarrow> ws_statics option" where
  "on_header_value at st =
     (if is_sec_key st then do {
        v \<leftarrow> strncpy (value_sec_key st) at;
        Some (st\<lparr>value_sec_key := v\<rparr>) }
      else Some st)"

definition on_message_complete :: "ws_statics \<Rightarrow> ws_statics option" where
  "on_message_complete st = Some (st\<lparr>is_shake_ended := True\<rparr>)"

fun run_callbacks :: "http_event list \<Rightarrow> ws_statics \<Rightarrow> ws_statics option" where
  "run_callbacks [] st = Some st"
| "run_callbacks (Header_Field at # es) st = do { st \<leftarrow> on_header_field at st; run_callbacks es st }"
| "run_callbacks (Header_Value at # es) st = do { st \<leftarrow> on_header_value at st; run_callbacks es st }"
| "run_callbacks (Message_Complete # es) st = do { st \<leftarrow> on_message_complete st; run_callbacks es st }"

section \<open>ws_shakehand\<close>

definition crlf :: "byte list" where "crlf = [13, 10]"

definition ws_guid :: "byte list" where
  "ws_guid = ascii ''258EAFA5-E914-47DA-95CA-C5AB0DC85B11''"

definition response_101 :: "byte list \<Rightarrow> byte list" where
  "response_101 accept =
     ascii ''HTTP/1.1 101 Switching Protocols'' @ crlf @
     ascii ''Upgrade: websocket'' @ crlf @
     ascii ''Connection: Upgrade'' @ crlf @
     ascii ''Sec-WebSocket-Accept:'' @ accept @ crlf @
     ascii ''WebSocket-Protocol:chat'' @ crlf @ crlf"

definition response_400 :: "byte list" where
  "response_400 = ascii ''HTTP/1.1 400 Bad Request'' @ crlf @ ascii ''Content-Length: 0'' @ crlf @ crlf"

text \<open>\<open>sprintf(key_magic, "%s%s", value_sec_key, guid)\<close>, the digest and its base64 text.\<close>

definition accept_key :: "byte list \<Rightarrow> byte list option" where
  "accept_key value = do {
     n \<leftarrow> c_strlen value;
     d \<leftarrow> crypt_sha1 (take n value @ ws_guid);
     Some (base64_encode d) }"

definition ws_shakehand :: "(byte list \<Rightarrow> http_event list) \<Rightarrow> ('d, 'm, 'a) env \<Rightarrow> addr \<Rightarrow> byte list \<Rightarrow>
    ws_statics \<Rightarrow> 'a world \<Rightarrow> (bool \<times> ws_statics \<times> 'a world) option" where
  "ws_shakehand http_parser_execute e s data st w = do {
     let st = st\<lparr>is_sec_key := False, has_sec_key := False, is_shake_ended := False\<rparr>;
     st \<leftarrow> run_callbacks (http_parser_execute data) st;
     if has_sec_key st \<and> is_shake_ended st then do {
       a \<leftarrow> accept_key (value_sec_key st);
       w \<leftarrow> send_data e s (response_101 a) w;
       Some (True, st, w) }
     else do {
       w \<leftarrow> send_data e s response_400 w;
       Some (False, st, w) } }"

section \<open>Requests\<close>

text \<open>What the parser reports for a complete request with the headers \<open>hs\<close>.\<close>

definition request_events :: "(byte list \<times> byte list) list \<Rightarrow> http_event list" where
  "request_events hs = concat (map (\<lambda>(f, v). [Header_Field f, Header_Value v]) hs) @ [Message_Complete]"

definition sec_key :: "byte list" where
  "sec_key = ascii ''Sec-WebSocket-Key''"

definition statics_ok :: "ws_statics \<Rightarrow> bool" where
  "statics_ok st \<longleftrightarrow> length (field_sec_key st) = 256 \<and> length (value_sec_key st) = 256"

text \<open>The C string in the buffer after \<open>v\<close> has been copied over \<open>old\<close>.\<close>

definition copied_key :: "byte list \<Rightarrow> byte list \<Rightarrow> byte list" where
  "copied_key v old = v @ takeWhile (\<lambda>x. x \<noteq> 0) (drop (length v) old)"

section \<open>Lemmas\<close>

lemma strncmp_eq_self: "strncmp_eq a a"
  by (induction a) auto

lemma strncpy_Some:
  assumes "0 \<notin> set v" "length v \<le> length old"
  shows "strncpy old v = Some (v @ drop (length v) old)"
proof -
  have "takeWhile (\<lambda>x. x \<noteq> 0) v = v" unfolding takeWhile_eq_all_conv using assms(1) by metis
  then show ?thesis using assms(2) unfolding strncpy_def Let_def by (simp only:) (simp add: c_mem)
qed

lemma run_callbacks_append:
  "run_callbacks (es @ es') st = do { st \<leftarrow> run_callbacks es st; run_callbacks es' st }"
  by (induction es st rule: run_callbacks.induct) (auto intro!: Option.bind_cong)

text \<open>Headers of another name leave the key alone.\<close>

lemma run_other_headers:
  "list_all (\<lambda>(f, v). \<not> strncmp_eq sec_key f) hs \<Longrightarrow>
   \<exists>b. run_callbacks (concat (map (\<lambda>(f, v). [Header_Field f, Header_Value v]) hs)) st = Some (st\<lparr>is_sec_key := b\<rparr>)"
proof (induction hs arbitrary: st)
  case Nil
  have "st = st\<lparr>is_sec_key := is_sec_key st\<rparr>" by simp
  then have "\<exists>b. st = st\<lparr>is_sec_key := b\<rparr>" by (rule exI)
  then show ?case by simp
next
  case (Cons h hs)
  obtain f v where h: "h = (f, v)" by (cases h)
  have "list_all (\<lambda>(f, v). \<not> strncmp_eq sec_key f) hs" using Cons.prems by simp
  from Cons.IH [OF this, of "st\<lparr>is_sec_key := False\<rparr>"] Cons.prems h
  show ?case by (auto simp: on_header_field_def on_header_value_def sec_key_def)
qed

lemma run_request:
  assumes "statics_ok st" "list_all (\<lambda>(f, v). \<not> strncmp_eq sec_key f) (hs1 @ hs2)"
    and "0 \<notin> set v" "length v \<le> 256"
  shows "\<exists>st'. run_callbacks (request_events (hs1 @ (sec_key, v) # hs2)) st = Some st' \<and> has_sec_key st' \<and>
    is_shake_ended st' \<and> value_sec_key st' = v @ drop (length v) (value_sec_key st) \<and> statics_ok st'"
proof -
  have l: "length sec_key = 17" and nz: "0 \<notin> set sec_key" by (code_simp, code_simp)
  have o: "list_all (\<lambda>(f, v). \<not> strncmp_eq sec_key f) hs1" "list_all (\<lambda>(f, v). \<not> strncmp_eq sec_key f) hs2"
    using assms(2) by simp_all
  obtain b1 where 1: "run_callbacks (concat (map (\<lambda>(f, v). [Header_Field f, Header_Value v]) hs1)) st =
      Some (st\<lparr>is_sec_key := b1\<rparr>)" using run_other_headers [OF o(1)] by blast
  let ?st2 = "st\<lparr>is_sec_key := True, has_sec_key := True,
      field_sec_key := sec_key @ drop 17 (field_sec_key st), value_sec_key := v @ drop (length v) (value_sec_key st)\<rparr>"
  have 2: "run_callbacks [Header_Field sec_key, Header_Value v] (st\<lparr>is_sec_key := b1\<rparr>) = Some ?st2"
    using assms(1,3,4) strncpy_Some [OF nz, of "field_sec_key st"] strncpy_Some [OF assms(3), of "value_sec_key st"]
    by (simp add: on_header_field_def on_header_value_def statics_ok_def sec_key_def [symmetric] strncmp_eq_self l)
  obtain b3 where 3: "run_callbacks (concat (map (\<lambda>(f, v). [Header_Field f, Header_Value v]) hs2)) ?st2 =
      Some (?st2\<lparr>is_sec_key := b3\<rparr>)" using run_other_headers [OF o(2)] by blast
  have "request_events (hs1 @ (sec_key, v) # hs2) =
      concat (map (\<lambda>(f, v). [Header_Field f, Header_Value v]) hs1) @ [Header_Field sec_key, Header_Value v] @
      concat (map (\<lambda>(f, v). [Header_Field f, Header_Value v]) hs2) @ [Message_Complete]"
    by (simp add: request_events_def)
  then have "run_callbacks (request_events (hs1 @ (sec_key, v) # hs2)) st =
      Some (?st2\<lparr>is_sec_key := b3, is_shake_ended := True\<rparr>)"
    by (simp only: run_callbacks_append 1 2 3 bind.bind_lunit) (simp add: on_message_complete_def)
  then show ?thesis using assms(1,4) l by (auto simp: statics_ok_def)
qed

lemma accept_key_Some:
  assumes "0 \<notin> set v" "0 \<in> set (drop (length v) old)"
  shows "accept_key (v @ drop (length v) old) = Some (base64_encode (sha1_spec (copied_key v old @ ws_guid)))"
proof -
  let ?b = "v @ drop (length v) old"
  have t: "takeWhile (\<lambda>x. x \<noteq> 0) ?b = copied_key v old"
    using assms(1) by (auto simp: copied_key_def intro!: takeWhile_append2)
  then have "c_strlen ?b = Some (length (copied_key v old))" using assms(2) by (auto simp: c_strlen_def)
  moreover have "take (length (copied_key v old)) ?b = copied_key v old"
    unfolding t [symmetric] by (rule takeWhile_eq_take [symmetric])
  ultimately show ?thesis by (simp only: accept_key_def crypt_sha1_spec bind.bind_lunit)
qed

section \<open>Properties\<close>


text \<open>The key of the example in RFC 6455 (only its length matters here).\<close>

definition example_key :: "byte list" where
  "example_key = ascii ''dGhlIHNhbXBsZSBub25jZQ==''"


text \<open>The key buffer is not terminated after \<open>strncpy\<close>: when an earlier handshake
  left a longer key, the accept key is computed over the new key followed by the tail of the
  old one.\<close>

theorem handshake_stale_key:
  assumes "statics_ok st" "http_parser_execute data = request_events [(sec_key, v)]"
    and "value_sec_key st = old @ replicate (256 - length old) 0" "0 \<notin> set old" "length old < 256"
    and "0 \<notin> set v" "length v < length old"
    and "send_data e p (response_101 (base64_encode (sha1_spec (v @ drop (length v) old @ ws_guid)))) w = Some w'"
  shows "\<exists>st'. ws_shakehand http_parser_execute e p data st w = Some (True, st', w')"
proof -
  let ?st = "st\<lparr>is_sec_key := False, has_sec_key := False, is_shake_ended := False\<rparr>"
  have ok: "statics_ok ?st" using assms(1) by (simp add: statics_ok_def)
  obtain st' where st': "run_callbacks (request_events ([] @ (sec_key, v) # [])) ?st = Some st'"
    "has_sec_key st'" "is_shake_ended st'" "value_sec_key st' = v @ drop (length v) (value_sec_key st)"
    using run_request [OF ok _ assms(6), of "[]" "[]"] assms(5,7) by auto
  let ?t = "drop (length v) (value_sec_key st)"
  have t: "?t = drop (length v) old @ replicate (256 - length old) 0" using assms(3,7) by simp
  have z: "replicate (256 - length old) (0 :: byte) = 0 # replicate (255 - length old) 0"
    using assms(5) by (simp add: replicate_Suc [symmetric] Suc_diff_le del: replicate_Suc)
  have "x \<noteq> 0" if "x \<in> set (drop (length v) old)" for x using assms(4) that by (meson in_set_dropD)
  then have "copied_key v (value_sec_key st) = v @ drop (length v) old"
    by (simp add: copied_key_def t z takeWhile_append2)
  moreover have "0 \<in> set ?t" by (simp add: t z)
  ultimately have "accept_key (value_sec_key st') =
      Some (base64_encode (sha1_spec (v @ drop (length v) old @ ws_guid)))"
    using accept_key_Some [OF assms(6)] st'(4) by (metis append.assoc)
  then show ?thesis using assms(2,8) st'(1-3) by (simp add: ws_shakehand_def)
qed

theorem handshake_stale_key_witness:
  "\<exists>st' w'. ws_shakehand (\<lambda>_. request_events [(sec_key, [65])]) (env_example True) 40 []
      (ws_statics0\<lparr>value_sec_key := [66, 67] @ replicate 254 0\<rparr>) world_tcp = Some (True, st', w') \<and>
    calls w' = [Uv_Write 40 (tcp_frame (response_101 (base64_encode (sha1_spec ([65, 67] @ ws_guid)))))]"
proof -
  let ?d = "response_101 (base64_encode (sha1_spec ([65, 67] @ ws_guid)))"
  let ?st = "ws_statics0\<lparr>value_sec_key := [66, 67] @ replicate 254 0\<rparr>"
  have "sessions world_tcp 40 = Some fresh_session" "sclass fresh_session = UV_Session"
    "socket_type fresh_session = session_type_tcp" "calls world_tcp = []"
    by (simp_all add: world_tcp_def world0_def fresh_session_def)
  then obtain w' where w': "send_data (env_example True) 40 ?d world_tcp = Some w'" "calls w' = [Uv_Write 40 (tcp_frame ?d)]"
    using send_data_tcp by fastforce
  have "statics_ok ?st" by (simp add: statics_ok_def ws_statics0_def)
  from handshake_stale_key [OF this, of "\<lambda>_. request_events [(sec_key, [65])]" "[]" "[65]" "[66, 67]"
      "env_example True" 40 world_tcp w'] w'
  show ?thesis by auto
qed

end
