(* ===== verification/Netbus.thy ===== *)
theory Netbus
  imports Ws_Handshake
begin

text \<open>
  netbus/netbus.cc: the receive buffer of a session, the two reassembly loops, the libuv
  callbacks (allocate, read, UDP read, new connection, connected) and the operations of class
  Netbus.

  libuv is a parameter: what it reports (errors of \<open>uv_ip4_addr\<close>, \<open>uv_tcp_bind\<close>,
  \<open>uv_tcp_connect\<close>) is in \<open>net_env\<close>, what it is asked to do is appended to \<open>calls\<close>. Fresh
  memory from \<open>malloc\<close> holds arbitrary bytes, \<open>garbage\<close>.
\<close>

section \<open>State\<close>

definition session_recv_len :: nat where "session_recv_len = 4096"

text \<open>The receiving half of UVSession.\<close>

record rx_state =
  recv_buffer :: "byte list"
  recved :: int
  long_pkg :: "byte list option"
  long_pkg_len :: int

definition rx_init :: rx_state where
  "rx_init = \<lparr>recv_buffer = replicate session_recv_len 0, recved = 0, long_pkg = None, long_pkg_len = 0\<rparr>"

record udp_recv_buffer =
  receive_buffer :: "nat option"
  max_recv_len :: nat

text \<open>\<open>connect_cb_data\<close> and the session of a connection attempt libuv has accepted.\<close>

record connect_req =
  conn_session :: addr
  connect_cb :: "addr option"

record ('d, 'm, 'a) net_env =
  core :: "('d, 'm, 'a) env"
  http_parser_execute :: "byte list \<Rightarrow> http_event list"
  garbage :: "nat \<Rightarrow> byte"
  callback :: "addr \<Rightarrow> int \<Rightarrow> addr option \<Rightarrow> 'a world \<Rightarrow> 'a world option"
  uv_ip4_addr :: "string \<Rightarrow> int \<Rightarrow> int"
  uv_tcp_bind :: "int \<Rightarrow> int"
  uv_tcp_connect :: "string \<Rightarrow> int \<Rightarrow> int"

record 'a netbus =
  nb_world :: "'a world"
  nb_rx :: "addr \<Rightarrow> rx_state option"
  nb_statics :: ws_statics
  nb_listen :: "(int \<times> int) list"
  nb_udp :: "udp_recv_buffer option"
  nb_connecting :: "connect_req list"

section \<open>The receive buffer\<close>

text \<open>\<open>package_data\<close>: the long package when there is one, else \<open>recv_buffer\<close>.\<close>

definition package_data :: "rx_state \<Rightarrow> byte list" where
  "package_data rx = (case long_pkg rx of None \<Rightarrow> recv_buffer rx | Some b \<Rightarrow> b)"

definition set_package_data :: "byte list \<Rightarrow> rx_state \<Rightarrow> rx_state" where
  "set_package_data d rx = (case long_pkg rx of
     None \<Rightarrow> rx\<lparr>recv_buffer := d\<rparr> | Some _ \<Rightarrow> rx\<lparr>long_pkg := Some d\<rparr>)"

text \<open>The buffer lent to libuv: which one, the offset in it, and its length.\<close>

datatype rx_target = Into_Recv | Into_Long

definition on_alloc_buffer ::
    "(nat \<Rightarrow> byte) \<Rightarrow> session \<Rightarrow> rx_state \<Rightarrow> (rx_state \<times> rx_target \<times> nat \<times> int) option" where
  "on_alloc_buffer junk s rx =
     (if recved rx < int session_recv_len
      then Some (rx, Into_Recv, nat (recved rx), int session_recv_len - recved rx)
      else do {
        rx \<leftarrow> (case long_pkg rx of
            Some _ \<Rightarrow> Some rx
          | None \<Rightarrow> do {
              h \<leftarrow> (if socket_type s = session_type_ws \<and> is_ws_shakehand s
                    then read_ws_header (recv_buffer rx) (recved rx)
                    else tcp_read_header (recv_buffer rx) (recved rx));
              let n = (case h of No_Header \<Rightarrow> 0 | Header head_size payload_size \<Rightarrow> head_size + payload_size);
              src \<leftarrow> bytes_at (recv_buffer rx) 0 (nat (recved rx));
              pkg \<leftarrow> store (map junk [0..<nat n]) 0 src;
              Some (rx\<lparr>long_pkg := Some pkg, long_pkg_len := n\<rparr>) });
        Some (rx, Into_Long, nat (recved rx), long_pkg_len rx - recved rx) })"

text \<open>libuv writes the bytes it has read at the start of the lent buffer.\<close>

definition fill_buffer :: "rx_target \<Rightarrow> nat \<Rightarrow> byte list \<Rightarrow> rx_state \<Rightarrow> rx_state option" where
  "fill_buffer t off data rx = (case t of
     Into_Recv \<Rightarrow> map_option (\<lambda>b. rx\<lparr>recv_buffer := b\<rparr>) (store (recv_buffer rx) off data)
   | Into_Long \<Rightarrow> do {
       b \<leftarrow> long_pkg rx; b \<leftarrow> store b off data; Some (rx\<lparr>long_pkg := Some b\<rparr>) })"

section \<open>Commands\<close>

text \<open>\<open>on_recv_client_command\<close>. A raw handler may change the bytes of the command in place
  (\<open>set_raw_utag\<close> does), so the payload is returned; writing past its end is undefined.\<close>

definition on_recv_client_command ::
    "('d, 'm, 'a) env \<Rightarrow> addr \<Rightarrow> byte list \<Rightarrow> 'a world \<Rightarrow> (byte list \<times> 'a world) option" where
  "on_recv_client_command e p payload w = do {
     raw \<leftarrow> decode_raw_cmd payload (int (length payload));
     (case raw of
        None \<Rightarrow> Some (payload, w)
      | Some raw \<Rightarrow> do {
          (ok, raw, w) \<leftarrow> on_recv_raw_cmd e p raw w;
          w \<leftarrow> (if ok then Some w else session_close e p w);
          if length (raw_data raw) = length payload then Some (raw_data raw, w) else None }) }"

text \<open>The end of a round of both loops: move the rest down (only as many bytes as the package
  just handled had), count, and drop a long package when everything is consumed.\<close>

definition consume :: "int \<Rightarrow> rx_state \<Rightarrow> rx_state option" where
  "consume used rx = do {
     d \<leftarrow> (if recved rx > used then move_down (package_data rx) (nat used) (nat used)
           else Some (package_data rx));
     let rx = (set_package_data d rx)\<lparr>recved := recved rx - used\<rparr>;
     Some (if recved rx = 0 \<and> long_pkg rx \<noteq> None then rx\<lparr>long_pkg := None, long_pkg_len := 0\<rparr> else rx) }"

lemma consume_recved: "consume n rx = Some rx' \<Longrightarrow> recved rx' = recved rx - n"
  by (auto simp: consume_def Let_def set_package_data_def bind_eq_Some_conv split: if_splits option.splits)

lemma recved_set_package_data [simp]: "recved (set_package_data d rx) = recved rx"
  by (simp add: set_package_data_def split: option.splits)

text \<open>\<open>on_receive_tcp_data\<close>; \<open>None\<close> as a result of the loop is undefined behaviour.\<close>

function (sequential) on_receive_tcp_data ::
    "('d, 'm, 'a) env \<Rightarrow> addr \<Rightarrow> rx_state \<Rightarrow> 'a world \<Rightarrow> (rx_state \<times> 'a world) option" where
  "on_receive_tcp_data e p rx w =
     (if recved rx > 0 then do {
        h \<leftarrow> tcp_read_header (package_data rx) (recved rx);
        (case h of
           No_Header \<Rightarrow> Some (rx, w)
         | Header head_size payload_size \<Rightarrow>
             if payload_size < 0 then do { w \<leftarrow> session_close e p w; Some (rx, w) }
             else if recved rx < payload_size + head_size then Some (rx, w)
             else do {
               payload \<leftarrow> bytes_at (package_data rx) (nat head_size) (nat payload_size);
               (payload, w) \<leftarrow> on_recv_client_command e p payload w;
               d \<leftarrow> store (package_data rx) (nat head_size) payload;
               rx \<leftarrow> consume (payload_size + head_size) (set_package_data d rx);
               on_receive_tcp_data e p rx w }) }
      else Some (rx, w))"
  by pat_completeness auto
termination
  by (relation "measure (\<lambda>(e, p, rx, w). nat (recved rx))") (auto simp: recved_set_package_data dest!: tcp_read_header_bounds consume_recved)

declare on_receive_tcp_data.simps [simp del]

text \<open>\<open>on_receive_ws_data\<close>: a close frame (0x88) closes the session; a data frame is unmasked
  in place before it is dispatched.\<close>

function (sequential) on_receive_ws_data ::
    "('d, 'm, 'a) env \<Rightarrow> addr \<Rightarrow> rx_state \<Rightarrow> 'a world \<Rightarrow> (rx_state \<times> 'a world) option" where
  "on_receive_ws_data e p rx w =
     (if recved rx > 0 then do {
        b0 \<leftarrow> rd (package_data rx) 0;
        if b0 = 0x88 then do { w \<leftarrow> session_close e p w; Some (rx, w) }
        else do {
          h \<leftarrow> read_ws_header (package_data rx) (recved rx);
          (case h of
             No_Header \<Rightarrow> Some (rx, w)
           | Header head_size payload_size \<Rightarrow>
               if recved rx < payload_size + head_size then Some (rx, w)
               else do {
                 d \<leftarrow> parse_ws_recv_data (package_data rx) (nat head_size) (nat payload_size);
                 payload \<leftarrow> bytes_at d (nat head_size) (nat payload_size);
                 (payload, w) \<leftarrow> on_recv_client_command e p payload w;
                 d \<leftarrow> store d (nat head_size) payload;
                 rx \<leftarrow> consume (payload_size + head_size) (set_package_data d rx);
                 on_receive_ws_data e p rx w }) } }
      else Some (rx, w))"
  by pat_completeness auto
termination
  by (relation "measure (\<lambda>(e, p, rx, w). nat (recved rx))")
     (auto simp: recved_set_package_data dest!: read_ws_header_bounds consume_recved)

declare on_receive_ws_data.simps [simp del]

section \<open>Reading from a stream\<close>

definition set_rx :: "addr \<Rightarrow> rx_state \<Rightarrow> 'a netbus \<Rightarrow> 'a netbus" where
  "set_rx p rx nb = nb\<lparr>nb_rx := (nb_rx nb)(p \<mapsto> rx)\<rparr>"

definition close_client :: "('d, 'm, 'a) net_env \<Rightarrow> addr \<Rightarrow> 'a netbus \<Rightarrow> 'a netbus option" where
  "close_client n p nb = map_option (\<lambda>w. nb\<lparr>nb_world := w\<rparr>) (session_close (core n) p (nb_world nb))"

text \<open>\<open>after_read\<close>: \<open>nread\<close> bytes, \<open>data\<close>, have been written to the lent buffer. The handshake
  looks at these bytes only, not at what was received before.\<close>

definition after_read :: "('d, 'm, 'a) net_env \<Rightarrow> addr \<Rightarrow> int \<Rightarrow> byte list \<Rightarrow> 'a netbus \<Rightarrow> 'a netbus option" where
  "after_read n p nread data nb =
     (if nread < 0 then close_client n p nb
      else do {
        s \<leftarrow> sessions (nb_world nb) p;
        rx \<leftarrow> nb_rx nb p;
        let rx = rx\<lparr>recved := recved rx + nread\<rparr>;
        if socket_type s = session_type_ws then
          (if \<not> is_ws_shakehand s then do {
             (ok, st, w) \<leftarrow> ws_shakehand (http_parser_execute n) (core n) p data (nb_statics nb) (nb_world nb);
             if ok then do {
               w \<leftarrow> set_session p (\<lambda>s. s\<lparr>is_ws_shakehand := True\<rparr>) w;
               Some (set_rx p (rx\<lparr>recved := 0\<rparr>) (nb\<lparr>nb_statics := st, nb_world := w\<rparr>)) }
             else close_client n p (set_rx p rx (nb\<lparr>nb_statics := st, nb_world := w\<rparr>)) }
           else do {
             (rx, w) \<leftarrow> on_receive_ws_data (core n) p rx (nb_world nb);
             Some (set_rx p rx (nb\<lparr>nb_world := w\<rparr>)) })
        else if socket_type s = session_type_tcp then do {
          (rx, w) \<leftarrow> on_receive_tcp_data (core n) p rx (nb_world nb);
          Some (set_rx p rx (nb\<lparr>nb_world := w\<rparr>)) }
        else Some (set_rx p rx nb) })"

text \<open>One readable event of libuv (uv_read_start): ask for a buffer, read at most its length
  of the bytes that have arrived, call \<open>after_read\<close>. An empty buffer is reported as the error
  \<open>UV_ENOBUFS\<close>. The result also says how many bytes were taken from the stream.\<close>

definition read_event :: "('d, 'm, 'a) net_env \<Rightarrow> addr \<Rightarrow> byte list \<Rightarrow> 'a netbus \<Rightarrow> (nat \<times> 'a netbus) option" where
  "read_event n p avail nb = do {
     s \<leftarrow> sessions (nb_world nb) p;
     rx \<leftarrow> nb_rx nb p;
     (rx, t, off, len) \<leftarrow> on_alloc_buffer (garbage n) s rx;
     if len \<le> 0 then map_option (Pair 0) (after_read n p (-1) [] (set_rx p rx nb))
     else do {
       let data = take (nat len) avail;
       rx \<leftarrow> fill_buffer t off data rx;
       nb \<leftarrow> after_read n p (int (length data)) data (set_rx p rx nb);
       Some (length data, nb) } }"

section \<open>Connections, UDP and the operations of Netbus\<close>

text \<open>\<open>on_new_connection\<close> of a listening socket of session type \<open>type\<close>.\<close>

definition open_session :: "('d, 'm, 'a) net_env \<Rightarrow> 'a netbus \<Rightarrow> addr \<times> 'a netbus" where
  "open_session n nb = (case create_session (core n) (nb_world nb) of (p, w) \<Rightarrow>
     (p, set_rx p rx_init (nb\<lparr>nb_world := w\<rparr>)))"

definition on_new_connection ::
    "('d, 'm, 'a) net_env \<Rightarrow> int \<Rightarrow> string \<Rightarrow> int \<Rightarrow> int \<Rightarrow> 'a netbus \<Rightarrow> 'a netbus option" where
  "on_new_connection n type ip port status nb =
     (if status < 0 then Some nb
      else case open_session n nb of (p, nb) \<Rightarrow> do {
        w \<leftarrow> set_session p (\<lambda>s. s\<lparr>client_address := ip, client_port := port, socket_type := type\<rparr>) (nb_world nb);
        w \<leftarrow> sm_on_session_connect (core n) p (log_call (Uv_Read_Start p) w);
        Some (nb\<lparr>nb_world := w\<rparr>) })"

text \<open>\<open>on_uv_close\<close> destroys the session with its receive buffer (a long package is not freed).\<close>

definition nb_on_uv_close :: "addr \<Rightarrow> 'a netbus \<Rightarrow> 'a netbus option" where
  "nb_on_uv_close p nb =
     map_option (\<lambda>w. nb\<lparr>nb_world := w, nb_rx := (nb_rx nb)(p := None)\<rparr>) (on_uv_close p (nb_world nb))"

definition netbus_init :: "nat \<Rightarrow> ('d, 'm, 'a) env \<Rightarrow> memory option \<Rightarrow> 'a netbus \<Rightarrow> 'a netbus" where
  "netbus_init sizeof_ptr e m nb =
     nb\<lparr>nb_world := (service_manager_init sizeof_ptr (nb_world nb))\<lparr>mem := init_session_allocator e m\<rparr>\<rparr>"

definition tcp_listen :: "('d, 'm, 'a) net_env \<Rightarrow> int \<Rightarrow> 'a netbus \<Rightarrow> 'a netbus" where
  "tcp_listen n port nb =
     (if uv_tcp_bind n port \<noteq> 0 then nb else nb\<lparr>nb_listen := (port, session_type_tcp) # nb_listen nb\<rparr>)"

definition ws_listen :: "('d, 'm, 'a) net_env \<Rightarrow> int \<Rightarrow> 'a netbus \<Rightarrow> 'a netbus" where
  "ws_listen n port nb =
     (if uv_tcp_bind n port \<noteq> 0 then nb else nb\<lparr>nb_listen := (port, session_type_ws) # nb_listen nb\<rparr>)"

definition udp_listen :: "int \<Rightarrow> 'a netbus \<Rightarrow> 'a netbus" where
  "udp_listen port nb = (case nb_udp nb of
     Some _ \<Rightarrow> nb
   | None \<Rightarrow> nb\<lparr>nb_udp := Some \<lparr>receive_buffer = None, max_recv_len = 0\<rparr>\<rparr>)"

text \<open>\<open>on_udp_alloc_buffer\<close>: the buffer (its size) grows and is never shrunk.\<close>

definition on_udp_alloc_buffer :: "nat \<Rightarrow> udp_recv_buffer \<Rightarrow> udp_recv_buffer \<times> nat option \<times> nat" where
  "on_udp_alloc_buffer suggested_size ub =
     (let size = (if suggested_size < 8096 then 8096 else suggested_size);
          ub = (if max_recv_len ub < size then \<lparr>receive_buffer = Some size, max_recv_len = size\<rparr> else ub)
      in (ub, receive_buffer ub, max_recv_len ub))"

text \<open>\<open>after_udp_read\<close>: the UDPSession lives on the stack (address 0) for one datagram.\<close>

definition udp_session :: "string \<Rightarrow> int \<Rightarrow> session" where
  "udp_session ip port = fresh_session\<lparr>sclass := UDP_Session, client_address := ip, client_port := port\<rparr>"

definition after_udp_read ::
    "('d, 'm, 'a) net_env \<Rightarrow> int \<Rightarrow> byte list \<Rightarrow> string \<Rightarrow> int \<Rightarrow> 'a netbus \<Rightarrow> 'a netbus option" where
  "after_udp_read n nread data ip port nb =
     (if nread \<le> 0 then Some nb
      else do {
        let w = nb_world nb;
        (_, w) \<leftarrow> on_recv_client_command (core n) 0 (take (nat nread) data)
                  (w\<lparr>sessions := (sessions w)(0 \<mapsto> udp_session ip port)\<rparr>);
        Some (nb\<lparr>nb_world := w\<lparr>sessions := (sessions w)(0 := None)\<rparr>\<rparr>) })"

text \<open>\<open>tcp_connect\<close> calls the callback at once when the address does not parse; the result of
  \<open>uv_tcp_connect\<close> is ignored, so an attempt libuv refuses is never reported.\<close>

definition tcp_connect ::
    "('d, 'm, 'a) net_env \<Rightarrow> string \<Rightarrow> int \<Rightarrow> addr option \<Rightarrow> 'a netbus \<Rightarrow> 'a netbus option" where
  "tcp_connect n host port cb nb =
     (let r = uv_ip4_addr n host port in
      if r \<noteq> 0 then do {
        cb \<leftarrow> cb;
        w \<leftarrow> callback n cb r None (nb_world nb);
        Some (nb\<lparr>nb_world := w\<rparr>) }
      else case open_session n nb of (p, nb) \<Rightarrow> do {
        w \<leftarrow> set_session p (\<lambda>s. s\<lparr>as_client := 1, socket_type := session_type_tcp,
                client_address := host, client_port := port\<rparr>) (nb_world nb);
        Some (if uv_tcp_connect n host port = 0
              then nb\<lparr>nb_world := log_call (Uv_Tcp_Connect p host port) w,
                     nb_connecting := nb_connecting nb @ [\<lparr>conn_session = p, connect_cb = cb\<rparr>]\<rparr>
              else nb\<lparr>nb_world := log_call (Uv_Tcp_Connect p host port) w\<rparr>) })"

definition after_connect :: "('d, 'm, 'a) net_env \<Rightarrow> connect_req \<Rightarrow> int \<Rightarrow> 'a world \<Rightarrow> 'a world option" where
  "after_connect n req status w =
     (if status \<noteq> 0 then do {
        w \<leftarrow> (case connect_cb req of None \<Rightarrow> Some w | Some cb \<Rightarrow> callback n cb status None w);
        session_close (core n) (conn_session req) w }
      else do {
        w \<leftarrow> (case connect_cb req of None \<Rightarrow> Some w
              | Some cb \<Rightarrow> callback n cb 0 (Some (conn_session req)) w);
        Some (log_call (Uv_Read_Start (conn_session req)) w) })"

text \<open>The event loop reports the outcome of the \<open>i\<close>th connection attempt.\<close>

definition complete_connect :: "('d, 'm, 'a) net_env \<Rightarrow> nat \<Rightarrow> int \<Rightarrow> 'a netbus \<Rightarrow> 'a netbus option" where
  "complete_connect n i status nb =
     (if i < length (nb_connecting nb) then do {
        w \<leftarrow> after_connect n (nb_connecting nb ! i) status (nb_world nb);
        Some (nb\<lparr>nb_world := w,
               nb_connecting := take i (nb_connecting nb) @ drop (Suc i) (nb_connecting nb)\<rparr>) }
      else None)"

text \<open>\<open>udp_sendto\<close>: the send request comes from \<open>small_alloc\<close>; a missing handler is a null
  dereference in libuv.\<close>

definition udp_sendto :: "('d, 'm, 'a) env \<Rightarrow> string \<Rightarrow> int \<Rightarrow> byte list \<Rightarrow> 'a netbus \<Rightarrow> 'a netbus option" where
  "udp_sendto e host port data nb = do {
     _ \<leftarrow> nb_udp nb;
     (case small_alloc_mem (sizeof_udp_send e) (mem (nb_world nb)) of (req, m) \<Rightarrow>
       Some (nb\<lparr>nb_world := add_pending \<lparr>req_addr = req, req_buf = 0, req_done = After_Udp_Send\<rparr>
         (log_call (Uv_Udp_Send host port data) ((nb_world nb)\<lparr>mem := m\<rparr>))\<rparr>)) }"

section \<open>What the receive buffer holds\<close>

text \<open>\<open>holds rx bs\<close>: the bytes received and not yet handled are \<open>bs\<close>.\<close>

definition holds :: "rx_state \<Rightarrow> byte list \<Rightarrow> bool" where
  "holds rx bs \<longleftrightarrow> recved rx = int (length bs) \<and> (\<exists>r. package_data rx = bs @ r)"

lemma package_data_set [simp]: "package_data (set_package_data d rx) = d"
  by (simp add: package_data_def set_package_data_def split: option.splits)

lemma package_data_recved [simp]: "package_data (rx\<lparr>recved := n\<rparr>) = package_data rx"
  by (simp add: package_data_def split: option.splits)

lemma long_pkg_set: "long_pkg (set_package_data d rx) = None \<longleftrightarrow> long_pkg rx = None"
  by (simp add: set_package_data_def split: option.splits)

lemma recv_buffer_set: "length d = length (package_data rx) \<Longrightarrow>
    length (recv_buffer (set_package_data d rx)) = length (recv_buffer rx)"
  by (simp add: set_package_data_def package_data_def split: option.splits)

text \<open>\<open>consume\<close> keeps the rest of the stream only when it is no longer than the package just
  handled and the move stays inside the buffer.\<close>

definition room :: "nat \<Rightarrow> nat \<Rightarrow> nat \<Rightarrow> bool" where
  "room cap n m \<longleftrightarrow> m = 0 \<or> m \<le> n \<and> 2 * n \<le> cap"

lemma consume_holds:
  assumes "holds rx (f @ rest)" "room (length (package_data rx)) (length f) (length rest)"
  shows "\<exists>rx'. consume (int (length f)) rx = Some rx' \<and> holds rx' rest \<and>
    length (recv_buffer rx') = length (recv_buffer rx) \<and>
    (if rest = [] then long_pkg rx' = None else length (package_data rx') = length (package_data rx))"
proof -
  obtain r where r: "recved rx = int (length f + length rest)" "package_data rx = f @ rest @ r"
    using assms(1) by (auto simp: holds_def)
  show ?thesis
  proof (cases "rest = []")
    case True
    then show ?thesis using r
      by (auto simp: consume_def Let_def holds_def recv_buffer_set long_pkg_set package_data_def)
  next
    case False
    let ?d = "take (length f) (rest @ r) @ drop (length f) (package_data rx)"
    have le: "length rest \<le> length f" "2 * length f \<le> length (package_data rx)"
      using assms(2) False by (auto simp: room_def)
    then have m: "move_down (package_data rx) (length f) (length f) = Some ?d"
      by (subst move_down_Some) (simp_all add: r(2))
    have len: "length ?d = length (package_data rx)" using le by (simp add: r(2))
    have "?d = rest @ take (length f - length rest) r @ drop (length f) (package_data rx)"
      using le(1) by simp
    then have "holds ((set_package_data ?d rx)\<lparr>recved := int (length rest)\<rparr>) rest"
      by (auto simp: holds_def)
    moreover have "consume (int (length f)) rx = Some ((set_package_data ?d rx)\<lparr>recved := int (length rest)\<rparr>)"
      using False r(1) m by (simp add: consume_def Let_def)
    ultimately show ?thesis using False len by (simp add: recv_buffer_set)
  qed
qed

lemma recv_client_command_length:
  "on_recv_client_command e p d w = Some (d', w') \<Longrightarrow> length d' = length d"
  by (auto simp: on_recv_client_command_def bind_eq_Some_conv split: if_splits option.splits)

text \<open>One readable event of a stream whose data go to the loop \<open>loop\<close>, on the receive state
  alone.\<close>

definition rx_read :: "(rx_state \<Rightarrow> (rx_state \<times> rx_target \<times> nat \<times> int) option) \<Rightarrow>
    (rx_state \<Rightarrow> 'w \<Rightarrow> (rx_state \<times> 'w) option) \<Rightarrow> byte list \<Rightarrow> rx_state \<Rightarrow> 'w \<Rightarrow>
    (nat \<times> rx_state \<times> 'w) option" where
  "rx_read alloc loop avail rx w = do {
     (rx, t, off, len) \<leftarrow> alloc rx;
     if len \<le> 0 then None
     else do {
       let data = take (nat len) avail;
       rx \<leftarrow> fill_buffer t off data rx;
       (rx, w) \<leftarrow> loop (rx\<lparr>recved := recved rx + int (length data)\<rparr>) w;
       Some (length data, rx, w) } }"

lemma rx_readI:
  assumes "alloc rx = Some (rx1, t, off, len)" "0 < len"
    and "fill_buffer t off (take (nat len) avail) rx1 = Some rx2"
    and "loop (rx2\<lparr>recved := recved rx2 + int (length (take (nat len) avail))\<rparr>) w = Some (rx', w')"
  shows "rx_read alloc loop avail rx w = Some (length (take (nat len) avail), rx', w')"
  using assms by (simp add: rx_read_def Let_def)

lemma rx_readE:
  assumes "rx_read alloc loop avail rx w = Some (j, rx', w')"
  obtains rx1 t off len rx2 where "alloc rx = Some (rx1, t, off, len)" "0 < len"
    "fill_buffer t off (take (nat len) avail) rx1 = Some rx2" "j = length (take (nat len) avail)"
    "loop (rx2\<lparr>recved := recved rx2 + int (length (take (nat len) avail))\<rparr>) w = Some (rx', w')"
  using assms by (auto simp: rx_read_def bind_eq_Some_conv Let_def not_le split: if_splits)

definition idle :: "rx_state \<Rightarrow> bool" where
  "idle rx \<longleftrightarrow> recved rx = 0 \<and> long_pkg rx = None \<and> length (recv_buffer rx) = session_recv_len"

text \<open>\<open>partial n bs rx\<close>: \<open>bs\<close> of a frame of \<open>n\<close> bytes has arrived, in \<open>recv_buffer\<close> or, beyond
  4096 bytes, in a long package of the frame's size.\<close>

definition partial :: "nat \<Rightarrow> byte list \<Rightarrow> rx_state \<Rightarrow> bool" where
  "partial n bs rx \<longleftrightarrow> holds rx bs \<and> length (recv_buffer rx) = session_recv_len \<and>
     (case long_pkg rx of
        None \<Rightarrow> length bs \<le> session_recv_len
      | Some b \<Rightarrow> length b = n \<and> long_pkg_len rx = int n \<and> session_recv_len \<le> length bs)"

lemma partial_idle: "idle rx \<Longrightarrow> partial n [] rx"
  by (auto simp: idle_def partial_def holds_def)

text \<open>\<open>dispatch_all\<close>: the payloads are handled one after the other.\<close>

fun dispatch_all :: "(byte list \<Rightarrow> 'w \<Rightarrow> (byte list \<times> 'w) option) \<Rightarrow> byte list list \<Rightarrow> 'w \<Rightarrow> 'w option" where
  "dispatch_all cmd [] w = Some w"
| "dispatch_all cmd (d # ds) w = do { (_, w) \<leftarrow> cmd d w; dispatch_all cmd ds w }"

text \<open>\<open>fits cap fs\<close>: with these frame lengths in a buffer of \<open>cap\<close> bytes every \<open>memmove\<close> keeps
  the whole rest.\<close>

fun fits :: "nat \<Rightarrow> nat list \<Rightarrow> bool" where
  "fits cap [] = True"
| "fits cap (n # ns) = (room cap n (sum_list ns) \<and> fits cap ns)"

section \<open>The interface of the two loops\<close>

text \<open>A loop dispatches the payloads of complete frames. The contract both protocols meet:
  nothing is done for a proper prefix of a frame; a complete frame at the front is dispatched
  once and consumed; a buffer filled by a prefix is replaced by a package of the frame's
  size.\<close>

locale framing =
  fixes loop :: "rx_state \<Rightarrow> 'w \<Rightarrow> (rx_state \<times> 'w) option"
    and alloc :: "rx_state \<Rightarrow> (rx_state \<times> rx_target \<times> nat \<times> int) option"
    and cmd :: "byte list \<Rightarrow> 'w \<Rightarrow> (byte list \<times> 'w) option"
    and frame :: "'k \<Rightarrow> byte list \<Rightarrow> byte list"
    and ok :: "'k \<Rightarrow> byte list \<Rightarrow> bool"
  assumes frame_long: "ok k d \<Longrightarrow> 2 \<le> length (frame k d)"
    and loop_partial: "ok k d \<Longrightarrow> frame k d = bs @ r \<Longrightarrow> r \<noteq> [] \<Longrightarrow> holds rx bs \<Longrightarrow> loop rx w = Some (rx, w)"
    and loop_frame: "ok k d \<Longrightarrow> holds rx (frame k d @ rest) \<Longrightarrow>
      room (length (package_data rx)) (length (frame k d)) (length rest) \<Longrightarrow> cmd d w = Some (d', w') \<Longrightarrow>
      \<exists>rx'. loop rx w = loop rx' w' \<and> holds rx' rest \<and> length (recv_buffer rx') = length (recv_buffer rx) \<and>
        (if rest = [] then long_pkg rx' = None else length (package_data rx') = length (package_data rx))"
    and alloc_room: "recved rx < int session_recv_len \<Longrightarrow>
      alloc rx = Some (rx, Into_Recv, nat (recved rx), int session_recv_len - recved rx)"
    and alloc_long: "\<not> recved rx < int session_recv_len \<Longrightarrow> long_pkg rx = Some b \<Longrightarrow>
      alloc rx = Some (rx, Into_Long, nat (recved rx), long_pkg_len rx - recved rx)"
    and alloc_first: "ok k d \<Longrightarrow> frame k d = bs @ r \<Longrightarrow> r \<noteq> [] \<Longrightarrow> length bs = session_recv_len \<Longrightarrow>
      holds rx bs \<Longrightarrow> long_pkg rx = None \<Longrightarrow>
      \<exists>j. alloc rx = Some (rx\<lparr>long_pkg := Some (bs @ j), long_pkg_len := int (length (frame k d))\<rparr>,
        Into_Long, session_recv_len, int (length r)) \<and> length j = length r"

begin

lemma loop_rest:
  assumes "ok k d" "frame k d = bs @ r" "r \<noteq> []" "holds rx bs"
  shows "\<exists>rx'. loop rx w = Some (rx', w) \<and> holds rx' bs"
  using loop_partial [OF assms] assms(4) by auto

text \<open>Coalesced frames, followed by a proper prefix of another one.\<close>

lemma loop_frames:
  assumes "holds rx (concat (map (\<lambda>(k, d). frame k d) fs) @ bs)"
    and "list_all (\<lambda>(k, d). ok k d) fs" "ok k d" "frame k d = bs @ r" "r \<noteq> []"
    and "fits (length (package_data rx)) (map (\<lambda>(k, d). length (frame k d)) fs @ [length bs])"
    and "dispatch_all cmd (map snd fs) w = Some w'"
  shows "\<exists>rx'. loop rx w = Some (rx', w') \<and> holds rx' bs"
  using assms
proof (induction fs arbitrary: rx w)
  case Nil
  then show ?case using loop_rest [of k d bs r rx w] by simp
next
  case (Cons f fs)
  obtain k1 d1 where f: "f = (k1, d1)" by (cases f)
  let ?rest = "concat (map (\<lambda>(k, d). frame k d) fs) @ bs"
  have len: "length ?rest = sum_list (map (\<lambda>(k, d). length (frame k d)) fs @ [length bs])"
    by (simp add: length_concat comp_def case_prod_unfold)
  obtain d1' w1 where c: "cmd d1 w = Some (d1', w1)" "dispatch_all cmd (map snd fs) w1 = Some w'"
    using Cons.prems(7) f by (auto simp: bind_eq_Some_conv)
  have h: "holds rx (frame k1 d1 @ ?rest)" "ok k1 d1" "list_all (\<lambda>(k, d). ok k d) fs"
    "room (length (package_data rx)) (length (frame k1 d1)) (length ?rest)"
    "fits (length (package_data rx)) (map (\<lambda>(k, d). length (frame k d)) fs @ [length bs])"
    using Cons.prems(1,2,6) f len by simp_all
  obtain rx' where rx': "loop rx w = loop rx' w1" "holds rx' ?rest"
    "if ?rest = [] then long_pkg rx' = None else length (package_data rx') = length (package_data rx)"
    using loop_frame [OF h(2,1,4) c(1)] by blast
  have "fits (length (package_data rx')) (map (\<lambda>(k, d). length (frame k d)) fs @ [length bs])"
  proof (cases "?rest = []")
    case True
    have "frame k d \<noteq> []" if "ok k d" for k d using frame_long [OF that] by auto
    then have "fs = []" using True h(3) by (cases fs) auto
    then show ?thesis using True by (simp add: room_def)
  next
    case False then show ?thesis using rx'(3) h(5) by simp
  qed
  from Cons.IH [OF rx'(2) h(3) Cons.prems(3-5) this c(2)] rx'(1) show ?case by simp
qed

text \<open>One read while a frame is arriving.\<close>

lemma alloc_partial:
  assumes "ok k d" "frame k d = bs @ r" "r \<noteq> []" "partial (length (frame k d)) bs rx"
  shows "\<exists>rx1 t len. alloc rx = Some (rx1, t, length bs, len) \<and> 0 < len \<and>
    (\<forall>xs. int (length xs) \<le> len \<and> length xs \<le> length r \<longrightarrow>
      (\<exists>rx2. fill_buffer t (length bs) xs rx1 = Some rx2 \<and>
        partial (length (frame k d)) (bs @ xs) (rx2\<lparr>recved := recved rx2 + int (length xs)\<rparr>)))"
proof (cases "recved rx < int session_recv_len")
  case True
  then have n: "long_pkg rx = None" "length (recv_buffer rx) = session_recv_len"
    "recved rx = int (length bs)" "\<exists>r. recv_buffer rx = bs @ r"
    using assms(4) by (auto simp: partial_def holds_def package_data_def split: option.splits)
  then show ?thesis using alloc_room [OF True] True
    by (auto simp: fill_buffer_def c_mem partial_def holds_def package_data_def)
next
  case False
  have h: "recved rx = int (length bs)" "holds rx bs" "length (recv_buffer rx) = session_recv_len"
    using assms(4) by (auto simp: partial_def holds_def)
  show ?thesis
  proof (cases "long_pkg rx")
    case None
    then have l: "length bs = session_recv_len" using assms(4) False h(1) by (simp add: partial_def)
    from alloc_first [OF assms(1-3) l h(2) None] obtain j where
      a: "alloc rx = Some (rx\<lparr>long_pkg := Some (bs @ j), long_pkg_len := int (length (frame k d))\<rparr>,
        Into_Long, session_recv_len, int (length r))" "length j = length r" by blast
    then show ?thesis using assms(2,3) h l
      by (auto simp: fill_buffer_def c_mem partial_def holds_def package_data_def)
  next
    case (Some b)
    then have b: "length b = length (frame k d)" "long_pkg_len rx = int (length (frame k d))" "\<exists>r. b = bs @ r"
      "session_recv_len \<le> length bs"
      using assms(4) by (auto simp: partial_def holds_def package_data_def)
    then show ?thesis using alloc_long [OF False Some] assms(2,3) h Some
      by (auto simp: fill_buffer_def c_mem partial_def holds_def package_data_def)
  qed
qed

lemma read_partial:
  assumes "ok k d" "frame k d = bs @ r" "r \<noteq> []" "partial (length (frame k d)) bs rx" "0 < m"
    and c: "cmd d w = Some (d', w')"
  shows "\<exists>j rx'. 0 < j \<and> j \<le> length r \<and>
    rx_read alloc loop (take m r) rx w = Some (j, rx', if j = length r then w' else w) \<and>
    (if j = length r then idle rx' else partial (length (frame k d)) (bs @ take j r) rx')"
proof -
  obtain rx1 t len where a: "alloc rx = Some (rx1, t, length bs, len)" "0 < len"
    and A: "\<And>xs. int (length xs) \<le> len \<Longrightarrow> length xs \<le> length r \<Longrightarrow>
      \<exists>rx2. fill_buffer t (length bs) xs rx1 = Some rx2 \<and>
        partial (length (frame k d)) (bs @ xs) (rx2\<lparr>recved := recved rx2 + int (length xs)\<rparr>)"
    using alloc_partial [OF assms(1-4)] by blast
  let ?xs = "take (nat len) (take m r)"
  let ?j = "length ?xs"
  have t: "take (length (take n r)) r = take n r" for n by (cases "n \<le> length r") simp_all
  have "?xs = take ?j r" using t [of "min (nat len) m"] by (simp add: take_take)
  then have j: "0 < ?j" "?j \<le> length r" "?xs = take ?j r" "int ?j \<le> len" using a(2) assms(3,5) by auto
  from A [OF j(4,2)] obtain rx2 where f: "fill_buffer t (length bs) ?xs rx1 = Some rx2"
    and P: "partial (length (frame k d)) (bs @ ?xs) (rx2\<lparr>recved := recved rx2 + int ?j\<rparr>)" by blast
  let ?rx = "rx2\<lparr>recved := recved rx2 + int ?j\<rparr>"
  have h: "holds ?rx (bs @ ?xs)" using P by (simp add: partial_def)
  show ?thesis
  proof (cases "?j = length r")
    case True
    then have full: "bs @ ?xs = frame k d" using assms(2) j(3) by simp
    then have "holds ?rx (frame k d @ [])" using h by simp
    from loop_frame [OF assms(1) this _ c] obtain rx3 where l: "loop ?rx w = loop rx3 w'"
      "holds rx3 []" "length (recv_buffer rx3) = length (recv_buffer ?rx)" "long_pkg rx3 = None"
      by (auto simp: room_def)
    have "frame k d = [] @ frame k d" "frame k d \<noteq> []" using frame_long [OF assms(1)] by auto
    from loop_partial [OF assms(1) this l(2)] have "loop rx3 w' = Some (rx3, w')" .
    moreover have "idle rx3" using l P by (simp add: idle_def holds_def partial_def)
    moreover have "rx_read alloc loop (take m r) rx w = Some (?j, rx3, w')"
      by (rule rx_readI [where alloc = alloc and loop = loop and avail = "take m r" and rx = rx and w = w, OF a f]) (simp only: l(1) calculation(1))
    ultimately show ?thesis using True j(1,2) by (intro exI [of _ ?j] exI [of _ rx3]) (simp only: if_True True)
  next
    case False
    have "frame k d = (bs @ ?xs) @ drop ?j r" using assms(2) j(3) by (metis append.assoc append_take_drop_id)
    moreover have "drop ?j r \<noteq> []" using False j(2) unfolding drop_eq_Nil by linarith
    ultimately have e: "frame k d = (bs @ ?xs) @ drop ?j r" "drop ?j r \<noteq> []" by blast+
    from loop_partial [OF assms(1) e h] have "loop ?rx w = Some (?rx, w)" .
    then have "rx_read alloc loop (take m r) rx w = Some (?j, ?rx, w)" by (rule rx_readI [where alloc = alloc and loop = loop and avail = "take m r" and rx = rx and w = w, OF a f])
    then show ?thesis using j P
      by (intro exI [of _ ?j] exI [of _ ?rx]) (simp only: False if_False j(3) [symmetric] simp_thms)
  qed
qed

text \<open>Everything at once: frames that fit, then the beginning of another.\<close>

lemma read_frames:
  assumes "idle rx" "list_all (\<lambda>(k, d). ok k d) fs" "ok k d" "frame k d = bs @ r" "r \<noteq> []"
    and "stream = concat (map (\<lambda>(k, d). frame k d) fs) @ bs" "length stream \<le> session_recv_len"
    and "fits session_recv_len (map (\<lambda>(k, d). length (frame k d)) fs @ [length bs])"
    and "dispatch_all cmd (map snd fs) w = Some w'"
  shows "\<exists>rx'. rx_read alloc loop stream rx w = Some (length stream, rx', w') \<and> holds rx' bs"
proof -
  have i: "recved rx = 0" "long_pkg rx = None" "length (recv_buffer rx) = session_recv_len"
    using assms(1) by (simp_all add: idle_def)
  have tk: "take session_recv_len stream = stream" using assms(7) by simp
  let ?rx = "rx\<lparr>recv_buffer := stream @ drop (length stream) (recv_buffer rx), recved := int (length stream)\<rparr>"
  have a: "alloc rx = Some (rx, Into_Recv, 0, int session_recv_len)"
    using alloc_room [of rx] i(1) by (simp add: session_recv_len_def)
  have f: "fill_buffer Into_Recv 0 (take (nat (int session_recv_len)) stream) rx =
      Some (rx\<lparr>recv_buffer := stream @ drop (length stream) (recv_buffer rx)\<rparr>)"
    using assms(7) i(3) by (simp add: fill_buffer_def c_mem)
  have "holds ?rx (concat (map (\<lambda>(k, d). frame k d) fs) @ bs)" "length (package_data ?rx) = session_recv_len"
    using assms(6,7) i(2,3) by (auto simp: holds_def package_data_def)
  from loop_frames [OF this(1) assms(2-5) _ assms(9)] this(2) assms(8)
  obtain rx' where l: "loop ?rx w = Some (rx', w')" "holds rx' bs" by auto
  have "rx_read alloc loop stream rx w = Some (length (take (nat (int session_recv_len)) stream), rx', w')"
    by (rule rx_readI [where alloc = alloc and loop = loop and rx = rx and w = w, OF a _ f])
       (use i(1) l(1) tk in \<open>simp_all add: session_recv_len_def\<close>)
  then show ?thesis using l(2) tk by auto
qed

end

section \<open>TCP meets the interface\<close>

definition tcp_ok :: "unit \<Rightarrow> byte list \<Rightarrow> bool" where
  "tcp_ok _ d \<longleftrightarrow> length d \<le> 65535"

lemma tcp_header_prefix:
  assumes "tcp_frame d = bs @ r" "2 \<le> length bs"
  shows "tcp_read_header (bs @ x) n = tcp_read_header (tcp_frame d @ x) n"
proof (cases "n < 2")
  case True then show ?thesis by (simp add: tcp_read_header_def)
next
  case False
  have "rd (bs @ x) i = rd (tcp_frame d @ x) i" if "i < 2" for i
    using assms that by (simp add: rd_def nth_append)
  then show ?thesis by (simp add: tcp_read_header_def)
qed

lemma tcp_loop_partial:
  assumes "tcp_ok k d" "tcp_frame d = bs @ r" "r \<noteq> []" "holds rx bs"
  shows "on_receive_tcp_data e p rx w = Some (rx, w)"
proof -
  obtain x where h: "recved rx = int (length bs)" "package_data rx = bs @ x"
    using assms(4) by (auto simp: holds_def)
  have len: "length bs < length d + 2" using arg_cong [OF assms(2), of length] assms(3) by simp
  show ?thesis
  proof (cases "length bs < 2")
    case True
    then show ?thesis using h
      by (subst on_receive_tcp_data.simps) (simp add: tcp_read_header_def)
  next
    case False
    then have "tcp_read_header (package_data rx) (recved rx) = Some (Header 2 (int (length d)))"
      using tcp_header_prefix [OF assms(2), of x] h assms(1) by (simp add: tcp_frame_header tcp_ok_def)
    then show ?thesis using h len by (subst on_receive_tcp_data.simps) simp
  qed
qed

text \<open>One round of the loop on a complete frame at the front of the buffer.\<close>

lemma tcp_round:
  assumes "tcp_ok k d" "holds rx (tcp_frame d @ rest)"
    and c: "on_recv_client_command e p d w = Some (d', w')"
  obtains f rx1 where "length f = length (tcp_frame d)" "holds rx1 (f @ rest)"
    "long_pkg rx1 = None \<longleftrightarrow> long_pkg rx = None" "length (package_data rx1) = length (package_data rx)"
    "length (recv_buffer rx1) = length (recv_buffer rx)"
    "on_receive_tcp_data e p rx w =
       (do { rx' \<leftarrow> consume (int (length f)) rx1; on_receive_tcp_data e p rx' w' })"
proof -
  obtain r where r: "recved rx = int (length d + 2 + length rest)" "package_data rx = tcp_frame d @ rest @ r"
    using assms(2) by (auto simp: holds_def)
  let ?h = "take 2 (tcp_frame d)"
  have h: "length ?h = 2" by simp
  have d': "length d' = length d" using recv_client_command_length [OF c] .
  let ?d = "(?h @ d') @ rest @ r"
  let ?rx = "set_package_data ?d rx"
  have header: "tcp_read_header (package_data rx) (recved rx) = Some (Header 2 (int (length d)))"
    using r assms(1) by (simp add: tcp_frame_header tcp_ok_def)
  have payload: "bytes_at (package_data rx) 2 (length d) = Some d"
    using r(2) tcp_frame_drop [of d "[]"] by (simp add: c_mem)
  have st: "store (package_data rx) 2 d' = Some ?d"
    using r(2) d' tcp_frame_drop [of d "rest @ r"] by (simp add: c_mem)
  have n: "int (length d) + 2 = int (length (?h @ d'))" using d' h by simp
  have "on_receive_tcp_data e p rx w =
      (do { rx' \<leftarrow> consume (int (length d) + 2) ?rx; on_receive_tcp_data e p rx' w' })"
    using r(1) header payload c st by (subst on_receive_tcp_data.simps) simp
  moreover have l: "length (package_data ?rx) = length (package_data rx)" using d' r(2) by simp
  moreover have "holds ?rx ((?h @ d') @ rest)" using r d' by (simp add: holds_def)
  moreover have "length (recv_buffer ?rx) = length (recv_buffer rx)" using l by (intro recv_buffer_set) simp
  ultimately show ?thesis using d' n by (intro that [of "?h @ d'" ?rx]) (simp_all add: long_pkg_set)
qed

lemma tcp_loop_frame:
  assumes "tcp_ok k d" "holds rx (tcp_frame d @ rest)"
    and "room (length (package_data rx)) (length (tcp_frame d)) (length rest)"
    and c: "on_recv_client_command e p d w = Some (d', w')"
  shows "\<exists>rx'. on_receive_tcp_data e p rx w = on_receive_tcp_data e p rx' w' \<and> holds rx' rest \<and>
    length (recv_buffer rx') = length (recv_buffer rx) \<and>
    (if rest = [] then long_pkg rx' = None else length (package_data rx') = length (package_data rx))"
proof -
  obtain f rx1 where f: "length f = length (tcp_frame d)" "holds rx1 (f @ rest)"
    "length (package_data rx1) = length (package_data rx)" "length (recv_buffer rx1) = length (recv_buffer rx)"
    and l: "on_receive_tcp_data e p rx w =
       (do { rx' \<leftarrow> consume (int (length f)) rx1; on_receive_tcp_data e p rx' w' })"
    by (rule tcp_round [OF assms(1,2) c])
  have "room (length (package_data rx1)) (length f) (length rest)" unfolding f by (rule assms(3))
  from consume_holds [OF f(2) this] obtain rx' where "consume (int (length f)) rx1 = Some rx'" "holds rx' rest"
    "length (recv_buffer rx') = length (recv_buffer rx1)"
    "if rest = [] then long_pkg rx' = None else length (package_data rx') = length (package_data rx1)"
    by blast
  then show ?thesis using f(3,4) l by (intro exI [of _ rx']) simp
qed

definition as_tcp :: "session \<Rightarrow> session" where
  "as_tcp s = s\<lparr>socket_type := session_type_tcp\<rparr>"

lemma tcp_alloc_first:
  assumes "tcp_ok k d" "tcp_frame d = bs @ r" "r \<noteq> []" "length bs = session_recv_len" "holds rx bs"
    and "long_pkg rx = None"
  shows "\<exists>j. on_alloc_buffer junk (as_tcp s) rx =
      Some (rx\<lparr>long_pkg := Some (bs @ j), long_pkg_len := int (length (tcp_frame d))\<rparr>,
        Into_Long, session_recv_len, int (length r)) \<and> length j = length r"
proof -
  obtain x where h: "recved rx = int session_recv_len" "recv_buffer rx = bs @ x"
    using assms(4-6) by (auto simp: holds_def package_data_def)
  have len: "length d + 2 = length bs + length r" using arg_cong [OF assms(2), of length] by simp
  have "tcp_read_header (recv_buffer rx) (recved rx) = Some (Header 2 (int (length d)))"
    using tcp_header_prefix [OF assms(2), of x] h assms(1,4)
    by (simp add: tcp_frame_header tcp_ok_def session_recv_len_def)
  moreover have "bytes_at (recv_buffer rx) 0 session_recv_len = Some bs"
    using assms(4) by (simp add: h(2) c_mem)
  moreover have "store (map junk [0..<session_recv_len + length r]) 0 bs =
      Some (bs @ drop (length bs) (map junk [0..<session_recv_len + length r]))"
    using assms(4) by (simp add: c_mem)
  moreover have "nat (2 + int (length d)) = session_recv_len + length r"
    "int (length d) = int session_recv_len + int (length r) - 2" using len assms(4) by simp_all
  ultimately show ?thesis using assms(4,6) h
    by (auto simp: on_alloc_buffer_def as_tcp_def session_type_tcp_def session_type_ws_def)
qed

interpretation tcp: framing "on_receive_tcp_data e p" "on_alloc_buffer junk (as_tcp s)"
    "on_recv_client_command e p" "\<lambda>_. tcp_frame" tcp_ok
  for e p junk s
proof (unfold_locales, goal_cases)
  case 1 then show ?case by simp
next
  case 2 then show ?case by (rule tcp_loop_partial)
next
  case 3 then show ?case by (rule tcp_loop_frame)
next
  case 4 then show ?case by (simp add: on_alloc_buffer_def)
next
  case 5 then show ?case by (simp add: on_alloc_buffer_def)
next
  case 6 then show ?case by (rule tcp_alloc_first)
qed

section \<open>WebSocket meets the interface\<close>

definition ws_frame :: "byte \<times> byte list \<Rightarrow> byte list \<Rightarrow> byte list" where
  "ws_frame k d = client_frame (fst k) (snd k) d"

definition ws_ok :: "byte \<times> byte list \<Rightarrow> byte list \<Rightarrow> bool" where
  "ws_ok k d \<longleftrightarrow> (fst k = 0x81 \<or> fst k = 0x82) \<and> length (snd k) = 4 \<and> length d \<le> 65535"

lemma length_ws_frame: "ws_ok k d \<Longrightarrow> length (ws_frame k d) = client_head_len (length d) + length d"
  by (simp add: ws_ok_def ws_frame_def)

lemma ws_frame_start: "\<exists>t. ws_frame k d = fst k # (if length d < 126 then to_byte (128 + int (length d)) else 254) # t"
  by (simp add: ws_frame_def client_frame_def client_header_def)

lemma ws_header_prefix:
  assumes "ws_ok k d" "ws_frame k d = bs @ r" "bs \<noteq> []"
  shows "read_ws_header (bs @ x) (int (length bs)) = Some (if length bs < client_head_len (length d) then No_Header
    else Header (int (client_head_len (length d))) (int (length d)))"
proof (cases "length bs < client_head_len (length d)")
  case False
  let ?h = "client_header (fst k) (snd k) (length d)"
  have "length ?h \<le> length bs" "?h @ mask_payload (snd k) d = bs @ r"
    using False assms(1,2) by (simp_all add: ws_ok_def ws_frame_def client_frame_def)
  then obtain t where "bs = ?h @ t" by (metis append_eq_append_conv_if append_take_drop_id)
  then show ?thesis using read_client_header [of "fst k" "snd k" "length d" "t @ x" "int (length bs)"] assms(1) False
    by (simp add: ws_ok_def)
next
  case True
  obtain t where t: "ws_frame k d = fst k # (if length d < 126 then to_byte (128 + int (length d)) else 254) # t"
    using ws_frame_start by blast
  show ?thesis
  proof (cases "length bs < 6")
    case True
    obtain b bs' where b: "bs = b # bs'" using assms(3) by (cases bs) auto
    then have "rd (bs @ x) 0 = Some (fst k)" using assms(2) t by (simp add: rd_def)
    then show ?thesis using True \<open>length bs < client_head_len (length d)\<close> assms(1)
      by (simp add: read_ws_header_def ws_ok_def)
  next
    case False
    then have n: "\<not> length d < 126" "length bs < 8" using True by (auto simp: client_head_len_def split: if_splits)
    obtain b0 b1 bs' where b: "bs = b0 # b1 # bs'" using False by (cases bs; cases "tl bs") auto
    then have "rd (bs @ x) 0 = Some (fst k)" "rd (bs @ x) 1 = Some 254" using assms(2) t n by (simp_all add: rd_def)
    then show ?thesis using False n True assms(1) by (auto simp: read_ws_header_def ws_ok_def)
  qed
qed

lemma ws_loop_partial:
  assumes "ws_ok k d" "ws_frame k d = bs @ r" "r \<noteq> []" "holds rx bs"
  shows "on_receive_ws_data e p rx w = Some (rx, w)"
proof (cases "bs = []")
  case True
  then show ?thesis using assms(4) by (subst on_receive_ws_data.simps) (simp add: holds_def)
next
  case False
  obtain x where h: "recved rx = int (length bs)" "package_data rx = bs @ x"
    using assms(4) by (auto simp: holds_def)
  have len: "length bs < client_head_len (length d) + length d"
    using arg_cong [OF assms(2), of length] assms(1,3) by (simp add: length_ws_frame)
  obtain t where t: "ws_frame k d = fst k # (if length d < 126 then to_byte (128 + int (length d)) else 254) # t"
    using ws_frame_start by blast
  have "rd (bs @ x) 0 = Some (fst k)" using assms(2) t False by (cases bs) (auto simp: rd_def)
  moreover have "fst k \<noteq> 0x88" using assms(1) by (auto simp: ws_ok_def)
  ultimately show ?thesis using h len False ws_header_prefix [OF assms(1,2) False, of x]
    by (subst on_receive_ws_data.simps) (auto simp: client_head_len_def)
qed

lemma ws_frame_unmask:
  assumes "ws_ok k d" "D = ws_frame k d @ x"
  shows "parse_ws_recv_data D (client_head_len (length d)) (length d) =
    Some (client_header (fst k) (snd k) (length d) @ d @ x)"
proof -
  let ?h = "client_header (fst k) (snd k) (length d)" and ?n = "client_head_len (length d)"
  have len: "length ?h = ?n" and key: "drop (?n - 4) ?h = snd k" "length (snd k) = 4" and n: "6 \<le> ?n"
    using assms(1) by (simp_all add: ws_ok_def client_header_key) (simp add: client_head_len_def)
  have D: "D = ?h @ mask_payload (snd k) d @ x"
    using assms(2) by (simp add: ws_frame_def client_frame_def)
  have "take 4 (drop (?n - 4) D) = snd k" using len key n by (simp add: D)
  moreover have "take (length d) (drop ?n D) = mask_payload (snd k) d" "take ?n D = ?h" "drop (?n + length d) D = x"
    using len by (simp_all add: D)
  moreover have "4 \<le> ?n" "?n + length d \<le> length D" using n len by (simp_all add: D)
  ultimately show ?thesis by (simp add: parse_ws_recv_data_eq)
qed

lemma ws_loop_frame:
  assumes "ws_ok k d" "holds rx (ws_frame k d @ rest)"
    and "room (length (package_data rx)) (length (ws_frame k d)) (length rest)"
    and c: "on_recv_client_command e p d w = Some (d', w')"
  shows "\<exists>rx'. on_receive_ws_data e p rx w = on_receive_ws_data e p rx' w' \<and> holds rx' rest \<and>
    length (recv_buffer rx') = length (recv_buffer rx) \<and>
    (if rest = [] then long_pkg rx' = None else length (package_data rx') = length (package_data rx))"
proof -
  let ?h = "client_header (fst k) (snd k) (length d)" and ?n = "client_head_len (length d)"
  obtain r where r: "recved rx = int (?n + length d + length rest)" "package_data rx = ws_frame k d @ rest @ r"
    using assms(1,2) by (auto simp: holds_def length_ws_frame)
  have h: "length ?h = ?n" using assms(1) by (simp add: ws_ok_def)
  have d': "length d' = length d" using recv_client_command_length [OF c] .
  let ?d = "?h @ d' @ rest @ r"
  let ?rx = "set_package_data ?d rx"
  obtain t where t: "ws_frame k d = fst k # t" using ws_frame_start by blast
  have b0: "rd (package_data rx) 0 = Some (fst k)" "fst k \<noteq> 0x88"
    using r(2) t assms(1) by (auto simp: rd_def ws_ok_def)
  have header: "read_ws_header (package_data rx) (recved rx) = Some (Header (int ?n) (int (length d)))"
    using read_client_header [of "fst k" "snd k" "length d" "mask_payload (snd k) d @ rest @ r" "recved rx"]
      r assms(1) by (simp add: ws_ok_def ws_frame_def client_frame_def)
  have um: "parse_ws_recv_data (package_data rx) ?n (length d) = Some (?h @ d @ rest @ r)"
    by (rule ws_frame_unmask [OF assms(1) r(2)])
  have payload: "bytes_at (?h @ d @ rest @ r) ?n (length d) = Some d" using h by (simp add: c_mem)
  have st: "store (?h @ d @ rest @ r) ?n d' = Some ?d" using h d' by (simp add: c_mem)
  have hold: "holds ?rx ((?h @ d') @ rest)" using r d' h by (simp add: holds_def)
  have l: "length (?h @ d') = length (ws_frame k d)" "length (package_data ?rx) = length (package_data rx)"
    using d' h r(2) assms(1) by (simp_all add: length_ws_frame)
  have "room (length (package_data ?rx)) (length (?h @ d')) (length rest)"
    unfolding l by (rule assms(3))
  from consume_holds [OF hold this] obtain rx' where c': "consume (int (length (?h @ d'))) ?rx = Some rx'" "holds rx' rest"
    "length (recv_buffer rx') = length (recv_buffer ?rx)"
    "if rest = [] then long_pkg rx' = None else length (package_data rx') = length (package_data ?rx)"
    by blast
  have n: "int (length d) + int ?n = int (length (?h @ d'))" using d' h by simp
  have "0 < ?n" by (simp add: client_head_len_def)
  then have "on_receive_ws_data e p rx w = on_receive_ws_data e p rx' w'"
    using r(1) b0 header um payload c st c'(1) [folded n]
    by (subst on_receive_ws_data.simps) simp
  moreover have "length (recv_buffer ?rx) = length (recv_buffer rx)"
    using l(2) by (intro recv_buffer_set) simp
  ultimately show ?thesis using c' l(2) by auto
qed

definition as_ws :: "session \<Rightarrow> session" where
  "as_ws s = s\<lparr>socket_type := session_type_ws, is_ws_shakehand := True\<rparr>"

lemma ws_alloc_first:
  assumes "ws_ok k d" "ws_frame k d = bs @ r" "r \<noteq> []" "length bs = session_recv_len" "holds rx bs"
    and "long_pkg rx = None"
  shows "\<exists>j. on_alloc_buffer junk (as_ws s) rx =
      Some (rx\<lparr>long_pkg := Some (bs @ j), long_pkg_len := int (length (ws_frame k d))\<rparr>,
        Into_Long, session_recv_len, int (length r)) \<and> length j = length r"
proof -
  let ?n = "client_head_len (length d)"
  obtain x where h: "recved rx = int session_recv_len" "recv_buffer rx = bs @ x"
    using assms(4-6) by (auto simp: holds_def package_data_def)
  have len: "?n + length d = length bs + length r"
    using arg_cong [OF assms(2), of length] assms(1) by (simp add: length_ws_frame)
  have "bs \<noteq> []" "\<not> session_recv_len < ?n"
    using assms(4) by (auto simp: session_recv_len_def client_head_len_def)
  then have "read_ws_header (recv_buffer rx) (recved rx) = Some (Header (int ?n) (int (length d)))"
    using ws_header_prefix [OF assms(1,2), of x] h assms(4) by simp
  moreover have "bytes_at (recv_buffer rx) 0 session_recv_len = Some bs"
    using assms(4) by (simp add: h(2) c_mem)
  moreover have "store (map junk [0..<session_recv_len + length r]) 0 bs =
      Some (bs @ drop (length bs) (map junk [0..<session_recv_len + length r]))"
    using assms(4) by (simp add: c_mem)
  moreover have "nat (int ?n + int (length d)) = session_recv_len + length r"
    "int (length d) = int session_recv_len + int (length r) - int ?n" using len assms(4) by simp_all
  ultimately show ?thesis using assms(1,4,6) h
    by (auto simp: on_alloc_buffer_def as_ws_def session_type_ws_def length_ws_frame)
qed

interpretation ws: framing "on_receive_ws_data e p" "on_alloc_buffer junk (as_ws s)"
    "on_recv_client_command e p" ws_frame ws_ok
  for e p junk s
proof (unfold_locales, goal_cases)
  case 1 then show ?case by (simp add: length_ws_frame client_head_len_def)
next
  case 2 then show ?case by (rule ws_loop_partial)
next
  case 3 then show ?case by (rule ws_loop_frame)
next
  case 4 then show ?case by (simp add: on_alloc_buffer_def)
next
  case 5 then show ?case by (simp add: on_alloc_buffer_def)
next
  case 6 then show ?case by (rule ws_alloc_first)
qed

section \<open>Sequences of reads\<close>

text \<open>\<open>feed n p ks stream nb\<close>: the bytes of \<open>stream\<close> arrive; event \<open>i\<close> finds \<open>ks ! i\<close> of them
  ready. The result holds what has not been read yet.\<close>

fun feed :: "('d, 'm, 'a) net_env \<Rightarrow> addr \<Rightarrow> nat list \<Rightarrow> byte list \<Rightarrow> 'a netbus \<Rightarrow> (byte list \<times> 'a netbus) option" where
  "feed n p [] stream nb = Some (stream, nb)"
| "feed n p (k # ks) stream nb =
     (if stream = [] then Some ([], nb)
      else do {
        (used, nb) \<leftarrow> read_event n p (take k stream) nb;
        feed n p ks (drop used stream) nb })"

lemma feed_frame:
  assumes step: "\<And>nb bs r m. P nb bs \<Longrightarrow> f = bs @ r \<Longrightarrow> r \<noteq> [] \<Longrightarrow> 0 < m \<Longrightarrow>
      \<exists>j nb'. 0 < j \<and> j \<le> length r \<and> read_event n p (take m r) nb = Some (j, nb') \<and>
        (if j = length r then Q nb' else P nb' (bs @ take j r))"
    and "P nb bs" "f = bs @ r" "r \<noteq> []" "list_all ((<) 0) ks"
  shows "\<exists>st nb'. feed n p ks r nb = Some (st, nb') \<and> length st \<le> length r - length ks \<and>
    (if st = [] then Q nb' else \<exists>bs'. P nb' bs')"
  using assms(2-)
proof (induction ks arbitrary: nb bs r)
  case Nil
  then show ?case by auto
next
  case (Cons k ks)
  have k: "0 < k" using Cons.prems(4) by simp
  from step [OF Cons.prems(1-3) this] obtain j nb1 where j: "0 < j" "j \<le> length r"
    "read_event n p (take k r) nb = Some (j, nb1)" "if j = length r then Q nb1 else P nb1 (bs @ take j r)" by blast
  show ?case
  proof (cases "j = length r")
    case True
    then show ?thesis using j Cons.prems(3) by (cases ks) simp_all
  next
    case False
    have "f = (bs @ take j r) @ drop j r" "drop j r \<noteq> []" "P nb1 (bs @ take j r)" "list_all ((<) 0) ks"
      using Cons.prems j False by simp_all
    from Cons.IH [OF this(3,1,2,4)] obtain st nb' where st: "feed n p ks (drop j r) nb1 = Some (st, nb')"
      "length st \<le> length (drop j r) - length ks" "if st = [] then Q nb' else \<exists>bs'. P nb' bs'" by blast
    have "length (drop j r) - length ks \<le> length r - length (k # ks)" using j(1) by simp
    then have "length st \<le> length r - length (k # ks)" using st(2) by linarith
    then show ?thesis using j(3) st(1,3) Cons.prems(3) by simp
  qed
qed

text \<open>A read event of an open TCP session, and of a WebSocket session after its handshake, is
  \<open>rx_read\<close> with the session's loop.\<close>

lemma read_event_tcp:
  assumes "sessions (nb_world nb) p = Some s" "socket_type s = session_type_tcp" "nb_rx nb p = Some rx"
    and "rx_read (on_alloc_buffer (garbage n) (as_tcp s)) (on_receive_tcp_data (core n) p) avail rx (nb_world nb) =
      Some (j, rx', w')"
  shows "read_event n p avail nb = Some (j, set_rx p rx' (nb\<lparr>nb_world := w'\<rparr>))"
proof -
  have s: "as_tcp s = s" using assms(2) by (simp add: as_tcp_def)
  from assms(4) obtain rx1 t off len rx2 where "on_alloc_buffer (garbage n) s rx = Some (rx1, t, off, len)" "0 < len"
    "fill_buffer t off (take (nat len) avail) rx1 = Some rx2" "j = length (take (nat len) avail)"
    "on_receive_tcp_data (core n) p (rx2\<lparr>recved := recved rx2 + int (length (take (nat len) avail))\<rparr>)
      (nb_world nb) = Some (rx', w')" unfolding s by (rule rx_readE)
  then show ?thesis using assms(1-3)
    by (simp add: read_event_def after_read_def set_rx_def session_type_tcp_def session_type_ws_def)
qed

lemma read_event_ws:
  assumes "sessions (nb_world nb) p = Some s" "socket_type s = session_type_ws" "is_ws_shakehand s"
    and "nb_rx nb p = Some rx"
    and "rx_read (on_alloc_buffer (garbage n) (as_ws s)) (on_receive_ws_data (core n) p) avail rx (nb_world nb) =
      Some (j, rx', w')"
  shows "read_event n p avail nb = Some (j, set_rx p rx' (nb\<lparr>nb_world := w'\<rparr>))"
proof -
  have s: "as_ws s = s" using assms(2,3) by (simp add: as_ws_def)
  from assms(5) obtain rx1 t off len rx2 where "on_alloc_buffer (garbage n) s rx = Some (rx1, t, off, len)" "0 < len"
    "fill_buffer t off (take (nat len) avail) rx1 = Some rx2" "j = length (take (nat len) avail)"
    "on_receive_ws_data (core n) p (rx2\<lparr>recved := recved rx2 + int (length (take (nat len) avail))\<rparr>)
      (nb_world nb) = Some (rx', w')" unfolding s by (rule rx_readE)
  then show ?thesis using assms(1-4)
    by (simp add: read_event_def after_read_def set_rx_def session_type_tcp_def session_type_ws_def)
qed

text \<open>The state of a session in the middle of a frame of \<open>m\<close> bytes, and after it.\<close>

definition arriving :: "addr \<Rightarrow> nat \<Rightarrow> 'a world \<Rightarrow> 'a netbus \<Rightarrow> byte list \<Rightarrow> bool" where
  "arriving p m w nb bs \<longleftrightarrow> nb_world nb = w \<and> (\<exists>rx. nb_rx nb p = Some rx \<and> partial m bs rx)"

definition settled :: "addr \<Rightarrow> 'a world \<Rightarrow> 'a netbus \<Rightarrow> bool" where
  "settled p w nb \<longleftrightarrow> nb_world nb = w \<and> (\<exists>rx. nb_rx nb p = Some rx \<and> idle rx)"

lemma settled_arriving: "settled p w nb \<Longrightarrow> arriving p m w nb []"
  by (auto simp: settled_def arriving_def partial_idle)

lemma tcp_step:
  assumes "tcp_ok k d" "sessions w p = Some s" "socket_type s = session_type_tcp"
    and "on_recv_client_command (core n) p d w = Some (d', w')"
    and "arriving p (length (tcp_frame d)) w nb bs" "tcp_frame d = bs @ r" "r \<noteq> []" "0 < m"
  shows "\<exists>j nb'. 0 < j \<and> j \<le> length r \<and> read_event n p (take m r) nb = Some (j, nb') \<and>
    (if j = length r then settled p w' nb' else arriving p (length (tcp_frame d)) w nb' (bs @ take j r))"
proof -
  obtain rx where rx: "nb_world nb = w" "nb_rx nb p = Some rx" "partial (length (tcp_frame d)) bs rx"
    using assms(5) by (auto simp: arriving_def)
  from tcp.read_partial [OF assms(1,6,7) rx(3) assms(8,4), of "garbage n" s] obtain j rx' where j: "0 < j" "j \<le> length r"
    "rx_read (on_alloc_buffer (garbage n) (as_tcp s)) (on_receive_tcp_data (core n) p) (take m r) rx w =
       Some (j, rx', if j = length r then w' else w)"
    "if j = length r then idle rx' else partial (length (tcp_frame d)) (bs @ take j r) rx'" by blast
  have "read_event n p (take m r) nb = Some (j, set_rx p rx' (nb\<lparr>nb_world := if j = length r then w' else w\<rparr>))"
    by (rule read_event_tcp [where s = s]) (use assms(2,3) rx(1,2) j(3) in simp_all)
  then show ?thesis using j by (auto simp: settled_def arriving_def set_rx_def)
qed

lemma ws_step:
  assumes "ws_ok k d" "sessions w p = Some s" "socket_type s = session_type_ws" "is_ws_shakehand s"
    and "on_recv_client_command (core n) p d w = Some (d', w')"
    and "arriving p (length (ws_frame k d)) w nb bs" "ws_frame k d = bs @ r" "r \<noteq> []" "0 < m"
  shows "\<exists>j nb'. 0 < j \<and> j \<le> length r \<and> read_event n p (take m r) nb = Some (j, nb') \<and>
    (if j = length r then settled p w' nb' else arriving p (length (ws_frame k d)) w nb' (bs @ take j r))"
proof -
  obtain rx where rx: "nb_world nb = w" "nb_rx nb p = Some rx" "partial (length (ws_frame k d)) bs rx"
    using assms(6) by (auto simp: arriving_def)
  from ws.read_partial [OF assms(1,7,8) rx(3) assms(9,5), of "garbage n" s] obtain j rx' where j: "0 < j" "j \<le> length r"
    "rx_read (on_alloc_buffer (garbage n) (as_ws s)) (on_receive_ws_data (core n) p) (take m r) rx w =
       Some (j, rx', if j = length r then w' else w)"
    "if j = length r then idle rx' else partial (length (ws_frame k d)) (bs @ take j r) rx'" by blast
  have "read_event n p (take m r) nb = Some (j, set_rx p rx' (nb\<lparr>nb_world := if j = length r then w' else w\<rparr>))"
    by (rule read_event_ws [where s = s]) (use assms(2-4) rx(1,2) j(3) in simp_all)
  then show ?thesis using j by (auto simp: settled_def arriving_def set_rx_def)
qed

section \<open>Concrete environment for the witnesses\<close>

definition net_example :: "(unit, byte list, byte list list) net_env" where
  "net_example = \<lparr>core = env_example True, http_parser_execute = (\<lambda>_. []), garbage = (\<lambda>_. 0),
     callback = (\<lambda>_ _ _ w. Some w), uv_ip4_addr = (\<lambda>_ _. 0), uv_tcp_bind = (\<lambda>_. 0),
     uv_tcp_connect = (\<lambda>_ _. 0)\<rparr>"

text \<open>A server with one open session, of type \<open>t\<close>, at address 40.\<close>

definition nb_example :: "int \<Rightarrow> byte list list netbus" where
  "nb_example t = \<lparr>nb_world = world_tcp\<lparr>sessions := [40 \<mapsto> fresh_session\<lparr>socket_type := t, is_ws_shakehand := (t = 1)\<rparr>]\<rparr>,
     nb_rx = [40 \<mapsto> rx_init], nb_statics = ws_statics0, nb_listen = [], nb_udp = None, nb_connecting = []\<rparr>"

text \<open>A command for the service registered under type 3; it is recorded.\<close>

definition cmd_example :: "byte \<Rightarrow> byte list" where
  "cmd_example x = [3, 0, 2, 0, 0, 0, 0, 0, x]"

lemma idle_rx_init: "idle rx_init"
  by (simp add: idle_def rx_init_def)

lemma nb_example_simps:
  "nb_rx (nb_example t) 40 = Some rx_init"
  "sessions (nb_world (nb_example t)) 40 = Some (fresh_session\<lparr>socket_type := t, is_ws_shakehand := (t = 1)\<rparr>)"
  "app (nb_world (nb_example t)) = []"
  by (simp_all add: nb_example_def world_tcp_def world0_def)

lemma cmd_example_runs:
  assumes "slots w 3 = Some q"
  shows "on_recv_client_command (core net_example) 40 (cmd_example x) w =
    Some (cmd_example x, w\<lparr>app := app w @ [cmd_example x]\<rparr>)"
  using assms
  by (simp add: on_recv_client_command_def decode_raw_cmd_def cmd_example_def cmd_header_size_def decode_header_def
      rd_def le16_sum on_recv_raw_cmd_def max_service_def net_example_def env_example_def record_service_def
      base_service_def)

lemma slots_example: "slots (nb_world (nb_example t)) 3 = Some 1"
  by (simp add: nb_example_def world_tcp_def world0_def)

section \<open>Properties\<close>

text \<open>C1 (functional): reassembly of a TCP package. However the bytes of a package built by
  \<open>TCPProtocol::package\<close> are split over read events, and whether it fits the 4096-byte
  receive buffer or needs a long package, its payload is dispatched exactly once, when the last
  byte has arrived, and not before; afterwards the session is back in its initial receive
  state. Every event reads at least one byte, so as many events as the package has bytes are
  enough.\<close>

theorem tcp_reassembly:
  assumes "sessions (nb_world nb) p = Some s" "socket_type s = session_type_tcp"
    and "nb_rx nb p = Some rx" "idle rx" "length d \<le> 65535" "list_all ((<) 0) ks"
    and "on_recv_client_command (core n) p d (nb_world nb) = Some (d', w')"
  shows "\<exists>st nb'. feed n p ks (tcp_frame d) nb = Some (st, nb') \<and>
    length st \<le> length (tcp_frame d) - length ks \<and>
    (if st = [] then nb_world nb' = w' \<and> (\<exists>rx'. nb_rx nb' p = Some rx' \<and> idle rx')
     else nb_world nb' = nb_world nb)"
proof -
  let ?P = "arriving p (length (tcp_frame d)) (nb_world nb)" and ?Q = "settled p w'"
  have ok: "tcp_ok () d" using assms(5) by (simp add: tcp_ok_def)
  have "?P nb []" by (rule settled_arriving) (use assms(3,4) in \<open>simp add: settled_def\<close>)
  moreover have "tcp_frame d = [] @ tcp_frame d" "tcp_frame d \<noteq> []" by (simp_all add: tcp_frame_def Let_def)
  ultimately have "\<exists>st nb'. feed n p ks (tcp_frame d) nb = Some (st, nb') \<and>
      length st \<le> length (tcp_frame d) - length ks \<and> (if st = [] then ?Q nb' else \<exists>bs'. ?P nb' bs')"
    by (intro feed_frame [where P = ?P and Q = ?Q and f = "tcp_frame d" and bs = "[]"])
       (use tcp_step [OF ok assms(1,2,7)] assms(6) in blast)+
  then show ?thesis unfolding settled_def arriving_def by (smt (verit))
qed

theorem tcp_reassembly_witness:
  "\<exists>st nb'. feed net_example 40 (replicate 12 1) (tcp_frame (cmd_example 7)) (nb_example 0) = Some (st, nb') \<and>
     st = [] \<and> app (nb_world nb') = [cmd_example 7]"
proof -
  note c = cmd_example_runs [OF slots_example [of 0], of 7, unfolded nb_example_simps]
  from tcp_reassembly [OF nb_example_simps(2) _ nb_example_simps(1) idle_rx_init _ _ c, of "replicate 12 1"]
  show ?thesis by (auto simp: session_type_tcp_def list_all_length cmd_example_def)
qed

text \<open>C2 (functional): reassembly of a WebSocket frame. After the handshake the same holds for a
  masked client frame with a payload of at most 65535 bytes, in any split: it is unmasked and
  dispatched exactly once.\<close>

theorem ws_reassembly:
  assumes "sessions (nb_world nb) p = Some s" "socket_type s = session_type_ws" "is_ws_shakehand s"
    and "nb_rx nb p = Some rx" "idle rx" "op = 0x81 \<or> op = 0x82" "length key = 4" "length d \<le> 65535"
    and "list_all ((<) 0) ks"
    and "on_recv_client_command (core n) p d (nb_world nb) = Some (d', w')"
  shows "\<exists>st nb'. feed n p ks (client_frame op key d) nb = Some (st, nb') \<and>
    length st \<le> length (client_frame op key d) - length ks \<and>
    (if st = [] then nb_world nb' = w' \<and> (\<exists>rx'. nb_rx nb' p = Some rx' \<and> idle rx')
     else nb_world nb' = nb_world nb)"
proof -
  let ?k = "(op, key)"
  let ?P = "arriving p (length (ws_frame ?k d)) (nb_world nb)" and ?Q = "settled p w'"
  have ok: "ws_ok ?k d" using assms(6-8) by (simp add: ws_ok_def)
  have "?P nb []" by (rule settled_arriving) (use assms(4,5) in \<open>simp add: settled_def\<close>)
  moreover have "ws_frame ?k d = [] @ ws_frame ?k d" "ws_frame ?k d \<noteq> []"
    using ws_frame_start [of ?k d] by auto
  ultimately have "\<exists>st nb'. feed n p ks (ws_frame ?k d) nb = Some (st, nb') \<and>
      length st \<le> length (ws_frame ?k d) - length ks \<and> (if st = [] then ?Q nb' else \<exists>bs'. ?P nb' bs')"
    by (intro feed_frame [where P = ?P and Q = ?Q and f = "ws_frame ?k d" and bs = "[]"])
       (use ws_step [OF ok assms(1-3,10)] assms(9) in blast)+
  then show ?thesis unfolding settled_def arriving_def ws_frame_def fst_conv snd_conv by (smt (verit))
qed

theorem ws_reassembly_witness:
  "\<exists>st nb'. feed net_example 40 (replicate 20 3) (client_frame 0x82 [1, 2, 3, 4] (cmd_example 7)) (nb_example 1) =
     Some (st, nb') \<and> st = [] \<and> app (nb_world nb') = [cmd_example 7]"
proof -
  note c = cmd_example_runs [OF slots_example [of 1], of 7, unfolded nb_example_simps]
  from ws_reassembly [OF nb_example_simps(2) _ _ nb_example_simps(1) idle_rx_init _ _ _ _ c,
      of "0x82" "[1, 2, 3, 4]" "replicate 20 3"]
  show ?thesis by (auto simp: session_type_ws_def list_all_length cmd_example_def client_head_len_def)
qed

text \<open>Coalesced packages. When one read brings several complete packages and the
  beginning of another, all of them are dispatched in order and the beginning is kept, provided
  that behind every package there is never more than its own length and that twice its length
  stays inside the buffer (which is how much the code's \<open>memmove\<close> moves).\<close>

theorem tcp_coalesced:
  assumes "sessions (nb_world nb) p = Some s" "socket_type s = session_type_tcp"
    and "nb_rx nb p = Some rx" "idle rx"
    and "list_all (\<lambda>d. length d \<le> 65535) ds" "length d \<le> 65535" "tcp_frame d = bs @ r" "r \<noteq> []"
    and "stream = concat (map tcp_frame ds) @ bs" "length stream \<le> 4096"
    and "fits 4096 (map (\<lambda>d. length d + 2) ds @ [length bs])"
    and "dispatch_all (on_recv_client_command (core n) p) ds (nb_world nb) = Some w'"
  shows "\<exists>rx' nb'. read_event n p stream nb = Some (length stream, nb') \<and> nb_world nb' = w' \<and>
    nb_rx nb' p = Some rx' \<and> holds rx' bs"
proof -
  have fr: "map (\<lambda>(k, d). tcp_frame d) (map (Pair ()) ds) = map tcp_frame ds" by simp
  have "list_all (\<lambda>(k, d). tcp_ok k d) (map (Pair ()) ds)"
    using assms(5) by (simp add: tcp_ok_def list_all_iff)
  moreover have "tcp_ok () d" using assms(6) by (simp add: tcp_ok_def)
  moreover have "fits session_recv_len (map (\<lambda>(k, d). length (tcp_frame d)) (map (Pair ()) ds) @ [length bs])"
    using assms(11) by (simp add: session_recv_len_def comp_def)
  ultimately obtain rx' where rx': "rx_read (on_alloc_buffer (garbage n) (as_tcp s)) (on_receive_tcp_data (core n) p)
      stream rx (nb_world nb) = Some (length stream, rx', w')" "holds rx' bs"
    using tcp.read_frames [OF assms(4) _ _ assms(7,8), where fs = "map (Pair ()) ds" and stream = stream
        and w = "nb_world nb" and w' = w' and e = "core n" and p = p and junk = "garbage n" and s = s] assms(9,10,12)
    by (auto simp: session_recv_len_def comp_def)
  from read_event_tcp [OF assms(1-3) rx'(1)] rx'(2) show ?thesis by (auto simp: set_rx_def)
qed

theorem tcp_coalesced_witness:
  "\<exists>nb'. read_event net_example 40 (tcp_frame (cmd_example 1) @ tcp_frame (cmd_example 2)) (nb_example 0) =
     Some (22, nb') \<and> app (nb_world nb') = [cmd_example 1, cmd_example 2]"
proof -
  let ?w = "nb_world (nb_example 0)"
  have "slots (?w\<lparr>app := a\<rparr>) 3 = Some 1" for a using slots_example [of 0] by simp
  then have d: "dispatch_all (on_recv_client_command (core net_example) 40) [cmd_example 1, cmd_example 2] ?w =
      Some (?w\<lparr>app := [cmd_example 1, cmd_example 2]\<rparr>)"
    using slots_example [of 0] by (simp add: cmd_example_runs nb_example_simps)
  have l: "length (tcp_frame (cmd_example x)) = 11" for x by (simp add: cmd_example_def)
  from tcp_coalesced [OF nb_example_simps(2) _ nb_example_simps(1) idle_rx_init _ _ _ _ _ _ _ d,
      of "cmd_example 3" "[]" "tcp_frame (cmd_example 3)"]
  show ?thesis by (fastforce simp: session_type_tcp_def l room_def cmd_example_def tcp_frame_def Let_def)
qed

text \<open>A read into the empty receive buffer.\<close>

lemma read_all:
  assumes "idle rx" "length stream \<le> session_recv_len"
    and "loop (rx\<lparr>recv_buffer := stream @ drop (length stream) (recv_buffer rx),
      recved := int (length stream)\<rparr>) w = Some (rx', w')"
  shows "rx_read (on_alloc_buffer junk s) loop stream rx w = Some (length stream, rx', w')"
  using assms by (simp add: idle_def rx_read_def on_alloc_buffer_def session_recv_len_def fill_buffer_def c_mem)

text \<open>Three packages of one length \<open>n\<close> in one read: the first \<open>memmove\<close> copies the second
  package only.\<close>

lemma tcp_three:
  assumes "length d1 = m" "length d2 = m" "length d3 = m" "m \<le> 65535"
    and h: "holds rx (tcp_frame d1 @ tcp_frame d2 @ tcp_frame d3)"
    and "dispatch_all (on_recv_client_command e p) [d1, d2, d2] w = Some w'"
  shows "\<exists>rx'. on_receive_tcp_data e p rx w = Some (rx', w') \<and> holds rx' []"
proof -
  obtain d1' w1 where c: "on_recv_client_command e p d1 w = Some (d1', w1)"
    "dispatch_all (on_recv_client_command e p) [d2, d2] w1 = Some w'"
    using assms(6) by (auto simp: bind_eq_Some_conv)
  have ok: "tcp_ok () d1" "tcp_ok () d2" using assms by (simp_all add: tcp_ok_def)
  obtain f rx1 where f0: "length f = length (tcp_frame d1)" "holds rx1 (f @ tcp_frame d2 @ tcp_frame d3)"
    and e: "on_receive_tcp_data e p rx w = (do { rx' \<leftarrow> consume (int (length f)) rx1; on_receive_tcp_data e p rx' w1 })"
    by (rule tcp_round [OF ok(1) h c(1)])
  then have f: "length f = m + 2" "holds rx1 (f @ tcp_frame d2 @ tcp_frame d3)" using assms(1) by simp_all
  obtain r where r: "recved rx1 = int (3 * (m + 2))" "package_data rx1 = f @ tcp_frame d2 @ tcp_frame d3 @ r"
    using f(1,2) assms(2,3) by (auto simp: holds_def)
  let ?d = "tcp_frame d2 @ tcp_frame d2 @ tcp_frame d3 @ r"
  let ?rx = "(set_package_data ?d rx1)\<lparr>recved := int (2 * (m + 2))\<rparr>"
  have n: "length (tcp_frame d2) = m + 2" "length f = m + 2" using f(1) assms(2) by simp_all
  have "move_down (package_data rx1) (m + 2) (m + 2) = Some ?d"
    by (subst move_down_Some) (simp_all add: r(2) n del: length_tcp_frame)
  then have "consume (int (length f)) rx1 = Some ?rx"
    using r(1) f(1) by (simp add: consume_def Let_def nat_add_distrib)
  moreover have h2: "holds ?rx (tcp_frame d2 @ tcp_frame d2)" using assms(2) by (simp add: holds_def)
  moreover have "length (package_data ?rx) = length (package_data rx1)" using n by (simp add: r(2))
  moreover have "2 * (m + 2) \<le> length (package_data rx1)" using f(1) assms(2) by (simp add: r(2))
  ultimately show ?thesis
    using tcp.loop_frames [of ?rx "[((), d2), ((), d2)]" "[]" "()" d2 "tcp_frame d2" e p w1 w'] ok(2) c(2) e assms(2)
    by (auto simp: room_def tcp_frame_def Let_def)
qed

text \<open>Three coalesced packages of equal length are not all delivered: the service
  sees the first, the second, and the second again; the third is lost, and the session's
  receive buffer then counts as empty.\<close>

theorem tcp_three_coalesced:
  assumes "sessions (nb_world nb) p = Some s" "socket_type s = session_type_tcp"
    and "nb_rx nb p = Some rx" "idle rx" "length d1 = m" "length d2 = m" "length d3 = m" "m \<le> 1363"
    and "dispatch_all (on_recv_client_command (core n) p) [d1, d2, d2] (nb_world nb) = Some w'"
  shows "\<exists>rx' nb'. read_event n p (tcp_frame d1 @ tcp_frame d2 @ tcp_frame d3) nb = Some (3 * (m + 2), nb') \<and>
    nb_world nb' = w' \<and> nb_rx nb' p = Some rx' \<and> recved rx' = 0"
proof -
  let ?f = "tcp_frame d1 @ tcp_frame d2 @ tcp_frame d3"
  have i: "recved rx = 0" "long_pkg rx = None" "length (recv_buffer rx) = session_recv_len"
    using assms(4) by (simp_all add: idle_def)
  have lf: "length ?f = 3 * (m + 2)" using assms(5-7) by simp
  let ?rx = "rx\<lparr>recv_buffer := ?f @ drop (length ?f) (recv_buffer rx), recved := int (length ?f)\<rparr>"
  have "holds ?rx ?f" using i by (auto simp: holds_def package_data_def)
  from tcp_three [OF assms(5-7) _ this assms(9)] assms(8)
  obtain rx' where l: "on_receive_tcp_data (core n) p ?rx (nb_world nb) = Some (rx', w')" "holds rx' []" by auto
  have "length ?f \<le> session_recv_len" using lf assms(8) by (simp add: session_recv_len_def)
  from read_all [where loop = "on_receive_tcp_data (core n) p" and w = "nb_world nb", OF assms(4) this l(1)]
  have "rx_read (on_alloc_buffer (garbage n) (as_tcp s)) (on_receive_tcp_data (core n) p) ?f rx (nb_world nb) =
      Some (3 * (m + 2), rx', w')" unfolding lf .
  from read_event_tcp [OF assms(1-3) this] l(2) show ?thesis by (auto simp: set_rx_def holds_def)
qed

theorem tcp_three_coalesced_witness:
  "\<exists>nb'. read_event net_example 40
      (tcp_frame (cmd_example 1) @ tcp_frame (cmd_example 2) @ tcp_frame (cmd_example 3)) (nb_example 0) =
     Some (33, nb') \<and> app (nb_world nb') = [cmd_example 1, cmd_example 2, cmd_example 2]"
proof -
  let ?w = "nb_world (nb_example 0)"
  have "slots (?w\<lparr>app := a\<rparr>) 3 = Some 1" for a using slots_example [of 0] by simp
  then have d: "dispatch_all (on_recv_client_command (core net_example) 40)
      [cmd_example 1, cmd_example 2, cmd_example 2] ?w =
      Some (?w\<lparr>app := [cmd_example 1, cmd_example 2, cmd_example 2]\<rparr>)"
    using slots_example [of 0] by (simp add: cmd_example_runs nb_example_simps)
  have "length (cmd_example x) = 9" for x by (simp add: cmd_example_def)
  with tcp_three_coalesced [OF nb_example_simps(2) _ nb_example_simps(1) idle_rx_init _ _ _ _ d, of 9 "cmd_example 3"]
  show ?thesis by (fastforce simp: session_type_tcp_def)
qed

section \<open>Memory safety of receiving\<close>

text \<open>The shape of a TCP session's receive state before the loop, and between two events
  (\<open>tcp_safe\<close>: the package at the front is incomplete).\<close>

definition announced :: "byte list \<Rightarrow> int" where
  "announced b = 2 + le16 (b ! 0) (b ! 1)"

definition tcp_shape :: "rx_state \<Rightarrow> bool" where
  "tcp_shape rx \<longleftrightarrow> length (recv_buffer rx) = session_recv_len \<and>
     0 \<le> recved rx \<and> recved rx \<le> int (length (package_data rx)) \<and>
     (case long_pkg rx of None \<Rightarrow> True
      | Some b \<Rightarrow> long_pkg_len rx = int (length b) \<and> int (length b) = announced b \<and> int session_recv_len \<le> recved rx)"

definition tcp_safe :: "rx_state \<Rightarrow> bool" where
  "tcp_safe rx \<longleftrightarrow> tcp_shape rx \<and> (2 \<le> recved rx \<longrightarrow> recved rx < announced (package_data rx))"

lemma tcp_header_announced:
  "tcp_read_header b n = Some (Header h k) \<Longrightarrow> h = 2 \<and> 0 \<le> k \<and> k + h = announced b \<and> 2 \<le> n"
  by (auto simp: tcp_read_header_def announced_def rd_def le16_bounds bind_eq_Some_conv split: if_splits)

lemma consume_shape:
  assumes "tcp_shape rx" "consume used (set_package_data d rx) = Some rx'" "length d = length (package_data rx)"
    and "0 \<le> used" "used \<le> recved rx" "long_pkg rx \<noteq> None \<Longrightarrow> used = int (length (package_data rx))"
  shows "tcp_shape rx'"
proof (cases "long_pkg rx")
  case None
  then obtain b where b: "length b = length d" "rx' = rx\<lparr>recv_buffer := b, recved := recved rx - used\<rparr>"
    using assms(2) by (auto simp: consume_def Let_def set_package_data_def package_data_def bind_eq_Some_conv
        dest!: length_move_down split: if_splits)
  then show ?thesis using assms(1,3-5) None by (auto simp: tcp_shape_def package_data_def)
next
  case (Some b)
  then have "recved rx = used" using assms(1,5,6) by (auto simp: tcp_shape_def)
  then have "rx' = rx\<lparr>long_pkg := None, long_pkg_len := 0, recved := 0\<rparr>"
    using assms(2) Some by (auto simp: consume_def Let_def set_package_data_def)
  then show ?thesis using assms(1) by (simp add: tcp_shape_def package_data_def)
qed

lemma tcp_loop_safe:
  "tcp_shape rx \<Longrightarrow> on_receive_tcp_data e p rx w = Some (rx', w') \<Longrightarrow> tcp_safe rx'"
proof (induction e p rx w arbitrary: rx' w' rule: on_receive_tcp_data.induct)
  case (1 e p rx w)
  show ?case
  proof (cases "recved rx > 0")
    case False
    then have "on_receive_tcp_data e p rx w = Some (rx, w)" by (subst on_receive_tcp_data.simps) simp
    then show ?thesis using 1(2,3) False by (simp add: tcp_safe_def)
  next
    case True
    with 1(3) obtain h where h: "tcp_read_header (package_data rx) (recved rx) = Some h"
      by (subst (asm) on_receive_tcp_data.simps) (auto simp: bind_eq_Some_conv)
    show ?thesis
    proof (cases h)
      case No_Header
      then have "recved rx < 2" using h by (auto simp: tcp_read_header_def bind_eq_Some_conv split: if_splits)
      moreover have "rx' = rx" using 1(3) True h No_Header
        by (subst (asm) on_receive_tcp_data.simps) simp
      ultimately show ?thesis using 1(2) by (simp add: tcp_safe_def)
    next
      case (Header a k)
      note H = tcp_header_announced [OF h [unfolded Header]]
      show ?thesis
      proof (cases "recved rx < k + a")
        case True
        then have "rx' = rx" using 1(3) \<open>recved rx > 0\<close> h Header H
          by (subst (asm) on_receive_tcp_data.simps) simp
        then show ?thesis using 1(2) True H by (simp add: tcp_safe_def)
      next
        case False
        then obtain pl pl' w1 d rx1 where r: "bytes_at (package_data rx) (nat a) (nat k) = Some pl"
          "on_recv_client_command e p pl w = Some (pl', w1)"
          "store (package_data rx) (nat a) pl' = Some d"
          "consume (k + a) (set_package_data d rx) = Some rx1"
          "on_receive_tcp_data e p rx1 w1 = Some (rx', w')"
          using 1(3) True h Header H
          by (subst (asm) on_receive_tcp_data.simps) (auto simp: bind_eq_Some_conv)
        have "long_pkg rx \<noteq> None \<Longrightarrow> k + a = int (length (package_data rx))"
          using 1(2) H by (auto simp: tcp_shape_def package_data_def)
        then have "tcp_shape rx1"
          using consume_shape [OF 1(2) r(4) length_store [OF r(3)]] False H by simp
        from 1(1) [OF True h Header _ False r(1,2) refl r(3,4) this r(5)] H show ?thesis by simp
      qed
    qed
  qed
qed

lemma tcp_alloc_safe:
  assumes "tcp_safe rx"
  shows "\<exists>rx1 t off len. on_alloc_buffer junk (as_tcp s) rx = Some (rx1, t, off, len) \<and> 0 < len \<and>
    (\<forall>data. int (length data) \<le> len \<longrightarrow> (\<exists>rx2. fill_buffer t off data rx1 = Some rx2 \<and>
      tcp_shape (rx2\<lparr>recved := recved rx2 + int (length data)\<rparr>)))"
proof (cases "recved rx < int session_recv_len")
  case True
  then have "long_pkg rx = None" "length (recv_buffer rx) = session_recv_len" "0 \<le> recved rx"
    using assms by (auto simp: tcp_safe_def tcp_shape_def split: option.splits)
  then show ?thesis using True
    by (auto simp: on_alloc_buffer_def fill_buffer_def store_def tcp_shape_def package_data_def nat_le_iff
        nat_add_distrib of_nat_diff le_diff_conv2)
next
  case False
  have S: "tcp_shape rx" "recved rx < announced (package_data rx)"
    using assms False by (auto simp: tcp_safe_def session_recv_len_def)
  have buf: "length (recv_buffer rx) = session_recv_len" using S(1) by (simp add: tcp_shape_def)
  have keep: "announced (take off b @ x) = announced b" if "2 \<le> off" "off \<le> length b" for off and b x :: "byte list"
    using that by (simp add: announced_def nth_append)
  obtain b n rx1 where b: "on_alloc_buffer junk (as_tcp s) rx =
      Some (rx1, Into_Long, nat (recved rx), n - recved rx)" "rx1 = rx\<lparr>long_pkg := Some b, long_pkg_len := n\<rparr>"
    "n = int (length b)" "n = announced b" "recved rx < n"
  proof (cases "long_pkg rx")
    case (Some b)
    then show thesis using S False
      by (intro that [of rx "int (length b)" b])
         (simp_all add: on_alloc_buffer_def tcp_shape_def package_data_def)
  next
    case None
    let ?n = "announced (recv_buffer rx)"
    have r: "recved rx = int session_recv_len" using S(1) None False buf by (simp add: tcp_shape_def package_data_def)
    have "tcp_read_header (recv_buffer rx) (recved rx) = Some (Header 2 (?n - 2))"
      using buf r by (simp add: tcp_read_header_def rd_def announced_def session_recv_len_def)
    moreover have n: "int session_recv_len < ?n" using S(2) r None by (simp add: package_data_def)
    moreover have "bytes_at (recv_buffer rx) 0 session_recv_len = Some (recv_buffer rx)"
      using buf by (simp add: c_mem)
    moreover have "store (map junk [0..<nat ?n]) 0 (recv_buffer rx) =
        Some (recv_buffer rx @ drop session_recv_len (map junk [0..<nat ?n]))"
      using n buf by (subst store_Some) simp_all
    moreover have "announced (recv_buffer rx @ x) = ?n" for x
      using keep [of session_recv_len "recv_buffer rx" x] buf by (simp add: session_recv_len_def)
    ultimately show thesis using r None buf
      by (intro that [of "rx\<lparr>long_pkg := Some (recv_buffer rx @ drop session_recv_len (map junk [0..<nat ?n])),
            long_pkg_len := ?n\<rparr>" ?n "recv_buffer rx @ drop session_recv_len (map junk [0..<nat ?n])"])
         (simp_all add: on_alloc_buffer_def as_tcp_def session_type_tcp_def session_type_ws_def Let_def)
  qed
  have off: "2 \<le> nat (recved rx)" using False by (simp add: session_recv_len_def)
  show ?thesis using b buf False off
    by (auto simp: fill_buffer_def store_def tcp_shape_def package_data_def keep)
qed

text \<open>The receive states of a TCP session: the state after \<open>create\<close>, and whatever a read of any
  bytes leaves, whichever state the rest of the program is in.\<close>

inductive tcp_received :: "('d, 'm, 'a) env \<Rightarrow> addr \<Rightarrow> (nat \<Rightarrow> byte) \<Rightarrow> session \<Rightarrow> rx_state \<Rightarrow> bool"
  for e p junk s where
  start: "tcp_received e p junk s rx_init"
| read: "tcp_received e p junk s rx \<Longrightarrow>
    rx_read (on_alloc_buffer junk (as_tcp s)) (on_receive_tcp_data e p) avail rx w = Some (j, rx', w') \<Longrightarrow>
    tcp_received e p junk s rx'"

inductive_cases tcp_receivedE: "tcp_received e p junk s rx"

lemma tcp_received_safe: "tcp_received e p junk s rx \<Longrightarrow> tcp_safe rx"
proof (induction rule: tcp_received.induct)
  case start
  then show ?case by (simp add: tcp_safe_def tcp_shape_def rx_init_def package_data_def)
next
  case (read rx avail w j rx' w')
  obtain rx1 t off len where a: "on_alloc_buffer junk (as_tcp s) rx = Some (rx1, t, off, len)"
    and A: "\<And>data. int (length data) \<le> len \<Longrightarrow> \<exists>rx2. fill_buffer t off data rx1 = Some rx2 \<and>
      tcp_shape (rx2\<lparr>recved := recved rx2 + int (length data)\<rparr>)"
    using tcp_alloc_safe [OF read.IH, of junk s] by blast
  from read.hyps(2) a obtain rx2 where l: "0 < len" "fill_buffer t off (take (nat len) avail) rx1 = Some rx2"
    "on_receive_tcp_data e p (rx2\<lparr>recved := recved rx2 + int (length (take (nat len) avail))\<rparr>) w = Some (rx', w')"
    by (auto elim!: rx_readE)
  have "int (length (take (nat len) avail)) \<le> len" using l(1) by simp
  from A [OF this] l(2) have "tcp_shape (rx2\<lparr>recved := recved rx2 + int (length (take (nat len) avail))\<rparr>)" by auto
  from tcp_loop_safe [OF this l(3)] show ?case .
qed



text \<open>C22 (error): the same is false of WebSocket data. When a peer whose handshake is done sends
  4096 bytes that do not begin with a data or close opcode, they stay in the buffer, and the
  next event copies them into a long package of zero bytes: undefined behaviour (a heap
  overflow), whatever arrives next.\<close>

theorem ws_garbage_overflow:
  assumes "sessions (nb_world nb) p = Some s" "socket_type s = session_type_ws" "is_ws_shakehand s"
    and "nb_rx nb p = Some rx" "idle rx" "length stream = 4096" "hd stream \<notin> {0x81, 0x82, 0x88}"
  shows "\<exists>nb'. read_event n p stream nb = Some (4096, nb') \<and> nb_world nb' = nb_world nb \<and>
    (\<forall>avail. read_event n p avail nb' = None)"
proof -
  let ?rx = "rx\<lparr>recv_buffer := stream, recved := 4096\<rparr>"
  have i: "recved rx = 0" "long_pkg rx = None" "length (recv_buffer rx) = session_recv_len"
    using assms(5) by (simp_all add: idle_def)
  obtain b t where st: "stream = b # t" using assms(6) by (cases stream) auto
  then have b: "b \<noteq> 0x81" "b \<noteq> 0x82" "b \<noteq> 0x88" using assms(7) by auto
  have rd: "rd stream 0 = Some b" by (simp add: st rd_def)
  have h: "read_ws_header stream k = Some No_Header" for k
    using rd b by (simp add: read_ws_header_def)
  have "on_receive_ws_data (core n) p ?rx (nb_world nb) = Some (?rx, nb_world nb)"
    using i rd b h by (subst on_receive_ws_data.simps) (simp add: package_data_def)
  then have "rx_read (on_alloc_buffer (garbage n) (as_ws s)) (on_receive_ws_data (core n) p) stream rx (nb_world nb) =
      Some (length stream, ?rx, nb_world nb)"
    using i(3) assms(6)
    by (intro read_all [where loop = "on_receive_ws_data (core n) p" and w = "nb_world nb", OF assms(5)])
       (simp_all add: session_recv_len_def)
  from read_event_ws [OF assms(1-4) this] have
    "read_event n p stream nb = Some (4096, set_rx p ?rx (nb\<lparr>nb_world := nb_world nb\<rparr>))" using assms(6) by simp
  moreover have "on_alloc_buffer (garbage n) s ?rx = None"
    using assms(2,3,6) i(2) h by (simp add: on_alloc_buffer_def session_recv_len_def c_mem) (simp add: store_def)
  then have "read_event n p avail (set_rx p ?rx (nb\<lparr>nb_world := nb_world nb\<rparr>)) = None" for avail
    using assms(1) by (simp add: read_event_def set_rx_def)
  ultimately show ?thesis by (intro exI [of _ "set_rx p ?rx (nb\<lparr>nb_world := nb_world nb\<rparr>)"]) (simp add: set_rx_def)
qed

theorem ws_garbage_overflow_witness:
  "\<exists>nb'. read_event net_example 40 (replicate 4096 0) (nb_example 1) = Some (4096, nb') \<and>
     read_event net_example 40 [1] nb' = None"
proof -
  have "hd (replicate 4096 (0 :: byte)) \<notin> {0x81, 0x82, 0x88}" by (simp add: hd_replicate)
  from ws_garbage_overflow [where n = net_example, OF nb_example_simps(2) [of 1] _ _ nb_example_simps(1) idle_rx_init _ this]
  show ?thesis by (fastforce simp: session_type_ws_def)
qed

end
