(* ===== verification/Timestamp.thy ===== *)
theory Timestamp
  imports Prelude "HOL-Library.Signed_Division" "HOL-Library.Sublist"
begin

text \<open>
  The date parser and the time stamps of utils/timestamp.c. A C string is the list of its
  characters before the terminating NUL: \<open>*s\<close> is \<^term>\<open>c_char\<close> and \<open>s++\<close> is \<^term>\<open>tl\<close>, which the
  code only does on a character it has found not to be NUL. The fields of \<open>struct tm\<close> are \<open>int\<close>s of the
  model; the theorem on their ranges shows that the C arithmetic on them does not overflow.
  \<open>time\<close>, \<open>mktime\<close>, \<open>localtime\<close> and \<open>strftime\<close> depend on the clock and on the time zone and are
  the operations of a record \<open>libc_time\<close>.
\<close>

section \<open>Names and the broken-down time\<close>

definition TM_YEAR_BASE :: int where "TM_YEAR_BASE = 1900"

definition ALT_E :: "2 word" where "ALT_E = 1"

definition ALT_O :: "2 word" where "ALT_O = 2"

definition day :: "string list" where
  "day = [''Sunday'', ''Monday'', ''Tuesday'', ''Wednesday'', ''Thursday'', ''Friday'', ''Saturday'']"

definition abday :: "string list" where
  "abday = [''Sun'', ''Mon'', ''Tue'', ''Wed'', ''Thu'', ''Fri'', ''Sat'']"

definition mon :: "string list" where
  "mon = [''January'', ''February'', ''March'', ''April'', ''May'', ''June'', ''July'',
          ''August'', ''September'', ''October'', ''November'', ''December'']"

definition abmon :: "string list" where
  "abmon = [''Jan'', ''Feb'', ''Mar'', ''Apr'', ''May'', ''Jun'',
            ''Jul'', ''Aug'', ''Sep'', ''Oct'', ''Nov'', ''Dec'']"

definition am :: string where "am = ''AM''"

definition pm :: string where "pm = ''PM''"

record tm =
  tm_sec :: int
  tm_min :: int
  tm_hour :: int
  tm_mday :: int
  tm_mon :: int
  tm_year :: int
  tm_wday :: int
  tm_yday :: int
  tm_isdst :: int

text \<open>\<open>memset(&tmp_time, 0, sizeof(struct tm))\<close>.\<close>

definition zero_tm :: tm where
  "zero_tm = \<lparr>tm_sec = 0, tm_min = 0, tm_hour = 0, tm_mday = 0, tm_mon = 0, tm_year = 0,
              tm_wday = 0, tm_yday = 0, tm_isdst = 0\<rparr>"

section \<open>Characters\<close>

definition NUL :: char where "NUL = CHR 0x00"

definition c_char :: "string \<Rightarrow> char" where
  "c_char s = (case s of [] \<Rightarrow> NUL | c # _ \<Rightarrow> c)"

text \<open>
  \<open>isspace\<close> is defined on the values of an unsigned char and on EOF, which is \<open>-1\<close>. A \<open>char\<close> is
  signed here, so a character above 127 is a negative argument: undefined unless it is 255.
\<close>

definition isspace :: "char \<Rightarrow> bool option" where
  "isspace c = (let n = of_char c :: int in
     if n < 128 then Some (n = 32 \<or> 9 \<le> n \<and> n \<le> 13) else if n = 255 then Some False else None)"

text \<open>\<open>while (isspace(*bp)) bp++;\<close>\<close>

fun skip_space :: "string \<Rightarrow> string option" where
  "skip_space [] = Some []"
| "skip_space (c # s) = (case isspace c of None \<Rightarrow> None
      | Some sp \<Rightarrow> if sp then skip_space s else Some (c # s))"

definition is_digit :: "char \<Rightarrow> bool" where
  "is_digit c \<longleftrightarrow> \<not> ((of_char c :: int) < 48 \<or> (of_char c :: int) > 57)"

definition digit_value :: "char \<Rightarrow> int" where "digit_value c = of_char c - 48"

section \<open>Numbers\<close>

text \<open>
  The body of the do-while loop of \<open>conv_num\<close> and its condition. The position is a list, so the
  recursion is structural; the loop reads its first digit without testing it.
\<close>

fun conv_digits :: "int \<Rightarrow> int \<Rightarrow> int \<Rightarrow> string \<Rightarrow> int \<times> string" where
  "conv_digits ulim result rulim [] = (result, [])"
| "conv_digits ulim result rulim (c # s) =
     (let result = result * 10 + digit_value c; rulim = rulim div 10 in
      if result * 10 \<le> ulim \<and> rulim \<noteq> 0 \<and> is_digit (c_char s)
      then conv_digits ulim result rulim s else (result, s))"

text \<open>\<open>conv_num\<close>: the value and the advanced position, or \<open>None\<close> for the return value 0.\<close>

definition conv_num :: "string \<Rightarrow> int \<Rightarrow> int \<Rightarrow> (int \<times> string) option" where
  "conv_num buf llim ulim =
     (if \<not> is_digit (c_char buf) then None
      else let (result, s) = conv_digits ulim 0 ulim buf in
           if result < llim \<or> result > ulim then None else Some (result, s))"

section \<open>The conversions\<close>

text \<open>\<open>LEGAL_ALT(x)\<close>: true when the macro does not return.\<close>

definition LEGAL_ALT :: "2 word \<Rightarrow> 2 word \<Rightarrow> bool" where
  "LEGAL_ALT alt_format x \<longleftrightarrow> alt_format AND NOT x = 0"

text \<open>\<open>again\<close>: the conversion character, the modifiers seen before it and the rest of the format.\<close>

fun again :: "2 word \<Rightarrow> string \<Rightarrow> (char \<times> 2 word \<times> string) option" where
  "again alt_format [] = Some (NUL, alt_format, [])"
| "again alt_format (c # fmt) =
     (if c = CHR ''E'' then (if LEGAL_ALT alt_format 0 then again (alt_format OR ALT_E) fmt else None)
      else if c = CHR ''O'' then (if LEGAL_ALT alt_format 0 then again (alt_format OR ALT_O) fmt else None)
      else Some (c, alt_format, fmt))"

text \<open>The conversions that are abbreviations: their format and the modifiers they allow.\<close>

definition complex_conv :: "char \<Rightarrow> (2 word \<times> string) option" where
  "complex_conv c =
     (if c = CHR ''c'' then Some (ALT_E, ''%x %X'')
      else if c = CHR ''D'' then Some (0, ''%m/%d/%y'')
      else if c = CHR ''R'' then Some (0, ''%H:%M'')
      else if c = CHR ''r'' then Some (0, ''%I:%M:%S %p'')
      else if c = CHR ''T'' then Some (0, ''%H:%M:%S'')
      else if c = CHR ''X'' then Some (ALT_E, ''%H:%M:%S'')
      else if c = CHR ''x'' then Some (ALT_E, ''%m/%d/%y'')
      else None)"

text \<open>\<open>strncmp(name, bp, strlen(name)) == 0\<close>\<close>

definition has_prefix :: "string \<Rightarrow> string \<Rightarrow> bool" where
  "has_prefix name bp \<longleftrightarrow> take (length name) bp = name"

text \<open>The loop over the names: the index and the length of the name that matched.\<close>

fun find_name :: "nat \<Rightarrow> string list \<Rightarrow> string list \<Rightarrow> string \<Rightarrow> (nat \<times> nat) option" where
  "find_name i (full # fulls) (ab # abbrevs) bp =
     (if has_prefix full bp then Some (i, length full)
      else if has_prefix ab bp then Some (i, length ab)
      else find_name (Suc i) fulls abbrevs bp)"
| "find_name i _ _ bp = None"

text \<open>
  What one elementary conversion leaves: the position, the fields and \<open>split_year\<close>. \<open>None\<close> is
  \<open>return (0)\<close>; no conversion changes a field before it returns 0.
\<close>

type_synonym conv_result = "(string \<times> tm \<times> bool) option"

definition conv_weekday :: "2 word \<Rightarrow> string \<Rightarrow> tm \<Rightarrow> bool \<Rightarrow> conv_result" where
  "conv_weekday alt_format bp tm split_year =
     (if \<not> LEGAL_ALT alt_format 0 then None
      else case find_name 0 day abday bp of None \<Rightarrow> None
        | Some (i, len) \<Rightarrow> Some (drop len bp, tm\<lparr>tm_wday := int i\<rparr>, split_year))"

definition conv_month :: "2 word \<Rightarrow> string \<Rightarrow> tm \<Rightarrow> bool \<Rightarrow> conv_result" where
  "conv_month alt_format bp tm split_year =
     (if \<not> LEGAL_ALT alt_format 0 then None
      else case find_name 0 mon abmon bp of None \<Rightarrow> None
        | Some (i, len) \<Rightarrow> Some (drop len bp, tm\<lparr>tm_mon := int i\<rparr>, split_year))"

definition conv_century :: "2 word \<Rightarrow> string \<Rightarrow> tm \<Rightarrow> bool \<Rightarrow> conv_result" where
  "conv_century alt_format bp tm split_year =
     (if \<not> LEGAL_ALT alt_format ALT_E then None
      else case conv_num bp 0 99 of None \<Rightarrow> None
        | Some (i, bp) \<Rightarrow>
            if split_year then Some (bp, tm\<lparr>tm_year := (tm_year tm smod 100) + i * 100\<rparr>, split_year)
            else Some (bp, tm\<lparr>tm_year := i * 100\<rparr>, True))"

text \<open>\<open>if (!conv_num(&bp, &field, llim, ulim)) return 0;\<close>\<close>

definition num_field ::
  "2 word \<Rightarrow> 2 word \<Rightarrow> int \<Rightarrow> int \<Rightarrow> (int \<Rightarrow> tm \<Rightarrow> tm) \<Rightarrow> string \<Rightarrow> tm \<Rightarrow> bool \<Rightarrow> conv_result" where
  "num_field allowed alt_format llim ulim put bp tm split_year =
     (if \<not> LEGAL_ALT alt_format allowed then None
      else case conv_num bp llim ulim of None \<Rightarrow> None
        | Some (i, bp) \<Rightarrow> Some (bp, put i tm, split_year))"

text \<open>\<open>%k\<close> and \<open>%l\<close> test the modifier, then fall through to \<open>%H\<close> and \<open>%I\<close>.\<close>

definition conv_day_hour :: "char \<Rightarrow> 2 word \<Rightarrow> string \<Rightarrow> tm \<Rightarrow> bool \<Rightarrow> conv_result" where
  "conv_day_hour c alt_format bp tm split_year =
     (if c = CHR ''d'' \<or> c = CHR ''e'' then
        num_field ALT_O alt_format 1 31 (\<lambda>i. tm_mday_update (\<lambda>_. i)) bp tm split_year
      else if c = CHR ''k'' \<and> \<not> LEGAL_ALT alt_format 0 then None
      else if c = CHR ''k'' \<or> c = CHR ''H'' then
        num_field ALT_O alt_format 0 23 (\<lambda>i. tm_hour_update (\<lambda>_. i)) bp tm split_year
      else if c = CHR ''l'' \<and> \<not> LEGAL_ALT alt_format 0 then None
      else if c = CHR ''l'' \<or> c = CHR ''I'' then
        num_field ALT_O alt_format 1 12 (\<lambda>i. tm_hour_update (\<lambda>_. if i = 12 then 0 else i)) bp tm split_year
      else None)"

definition conv_day_min_mon :: "char \<Rightarrow> 2 word \<Rightarrow> string \<Rightarrow> tm \<Rightarrow> bool \<Rightarrow> conv_result" where
  "conv_day_min_mon c alt_format bp tm split_year =
     (if c = CHR ''j'' then
        num_field 0 alt_format 1 366 (\<lambda>i. tm_yday_update (\<lambda>_. i - 1)) bp tm split_year
      else if c = CHR ''M'' then
        num_field ALT_O alt_format 0 59 (\<lambda>i. tm_min_update (\<lambda>_. i)) bp tm split_year
      else if c = CHR ''m'' then
        num_field ALT_O alt_format 1 12 (\<lambda>i. tm_mon_update (\<lambda>_. i - 1)) bp tm split_year
      else None)"

text \<open>\<open>strcmp(am_pm[k], bp) == 0\<close> compares with the whole rest of the input.\<close>

definition conv_am_pm :: "2 word \<Rightarrow> string \<Rightarrow> tm \<Rightarrow> bool \<Rightarrow> conv_result" where
  "conv_am_pm alt_format bp tm split_year =
     (if \<not> LEGAL_ALT alt_format 0 then None
      else if bp = am then
        (if tm_hour tm > 11 then None else Some (drop (length am) bp, tm, split_year))
      else if bp = pm then
        (if tm_hour tm > 11 then None
         else Some (drop (length pm) bp, tm\<lparr>tm_hour := tm_hour tm + 12\<rparr>, split_year))
      else None)"

definition conv_sec_week :: "char \<Rightarrow> 2 word \<Rightarrow> string \<Rightarrow> tm \<Rightarrow> bool \<Rightarrow> conv_result" where
  "conv_sec_week c alt_format bp tm split_year =
     (if c = CHR ''S'' then
        num_field ALT_O alt_format 0 61 (\<lambda>i. tm_sec_update (\<lambda>_. i)) bp tm split_year
      else if c = CHR ''U'' \<or> c = CHR ''W'' then
        num_field ALT_O alt_format 0 53 (\<lambda>i tm. tm) bp tm split_year
      else if c = CHR ''w'' then
        num_field ALT_O alt_format 0 6 (\<lambda>i. tm_wday_update (\<lambda>_. i)) bp tm split_year
      else None)"

definition conv_year :: "char \<Rightarrow> 2 word \<Rightarrow> string \<Rightarrow> tm \<Rightarrow> bool \<Rightarrow> conv_result" where
  "conv_year c alt_format bp tm split_year =
     (if c = CHR ''Y'' then
        num_field ALT_E alt_format 0 9999 (\<lambda>i. tm_year_update (\<lambda>_. i - TM_YEAR_BASE)) bp tm split_year
      else if c = CHR ''y'' then
        (if \<not> LEGAL_ALT alt_format (ALT_E OR ALT_O) then None
         else case conv_num bp 0 99 of None \<Rightarrow> None
           | Some (i, bp) \<Rightarrow>
               if split_year
               then Some (bp, tm\<lparr>tm_year := ((tm_year tm sdiv 100) * 100) + i\<rparr>, split_year)
               else if i \<le> 68 then Some (bp, tm\<lparr>tm_year := i + 2000 - TM_YEAR_BASE\<rparr>, True)
               else Some (bp, tm\<lparr>tm_year := i + 1900 - TM_YEAR_BASE\<rparr>, True))
      else None)"

text \<open>The elementary cases of the switch that test no white space.\<close>

definition elementary_conv :: "char \<Rightarrow> 2 word \<Rightarrow> string \<Rightarrow> tm \<Rightarrow> bool \<Rightarrow> conv_result" where
  "elementary_conv c alt_format bp tm split_year =
     (if c = CHR ''A'' \<or> c = CHR ''a'' then conv_weekday alt_format bp tm split_year
      else if c = CHR ''B'' \<or> c = CHR ''b'' \<or> c = CHR ''h'' then conv_month alt_format bp tm split_year
      else if c = CHR ''C'' then conv_century alt_format bp tm split_year
      else if c \<in> set ''dekHlI'' then conv_day_hour c alt_format bp tm split_year
      else if c \<in> set ''jMm'' then conv_day_min_mon c alt_format bp tm split_year
      else if c = CHR ''p'' then conv_am_pm alt_format bp tm split_year
      else if c \<in> set ''SUWw'' then conv_sec_week c alt_format bp tm split_year
      else if c \<in> set ''Yy'' then conv_year c alt_format bp tm split_year
      else None)"

section \<open>The parser\<close>

text \<open>
  The weight of a format bounds the work left: an abbreviation weighs more than the format
  it stands for.
\<close>

definition fmt_weight :: "string \<Rightarrow> nat" where
  "fmt_weight fmt = sum_list (map (\<lambda>c. if c = CHR ''c'' then 60
     else if c \<in> set ''DRrTXx'' then 20 else 1) fmt)"

lemma fmt_weight_simps [simp]:
  "fmt_weight [] = 0"
  "fmt_weight (c # fmt) = (if c = CHR ''c'' then 60 else if c \<in> set ''DRrTXx'' then 20 else 1) + fmt_weight fmt"
  by (simp_all add: fmt_weight_def)

lemma again_weight:
  "again a fmt = Some (k, b, rest) \<Longrightarrow>
   fmt_weight rest + (if k = NUL then 0 else fmt_weight [k]) \<le> fmt_weight fmt"
  by (induction a fmt rule: again.induct) (force simp: NUL_def split: if_splits)+

lemma complex_weight:
  "complex_conv k = Some (allowed, sub) \<Longrightarrow> fmt_weight sub < fmt_weight [k] \<and> k \<noteq> NUL"
  by (auto simp: complex_conv_def NUL_def split: if_splits)

text \<open>\<open>literal: if (c != *bp++) return 0;\<close>\<close>

definition literal :: "char \<Rightarrow> string \<Rightarrow> string option" where
  "literal c bp = (if c \<noteq> c_char bp then None else Some (tl bp))"

text \<open>
  The loop over the format. The result is undefined when \<open>isspace\<close> is; else it is the pointer
  returned, where \<open>None\<close> is the null pointer, and the fields written so far. An abbreviation
  is a recursive call, whose \<open>split_year\<close> starts at 0.
\<close>

function strptime_loop :: "string \<Rightarrow> string \<Rightarrow> tm \<Rightarrow> bool \<Rightarrow> (string option \<times> tm) option" where
  "strptime_loop [] bp tm split_year = Some (Some bp, tm)"
| "strptime_loop (c # fmt) bp tm split_year =
    (case isspace c of None \<Rightarrow> None
     | Some space \<Rightarrow>
       if space then
         (case skip_space bp of None \<Rightarrow> None | Some bp \<Rightarrow> strptime_loop fmt bp tm split_year)
       else if c \<noteq> CHR ''%'' then
         (case literal c bp of None \<Rightarrow> Some (None, tm) | Some bp \<Rightarrow> strptime_loop fmt bp tm split_year)
       else
         (case again 0 fmt of None \<Rightarrow> Some (None, tm)
          | Some (k, alt_format, rest) \<Rightarrow>
            if k = CHR ''%'' then
              (case literal k bp of None \<Rightarrow> Some (None, tm) | Some bp \<Rightarrow> strptime_loop rest bp tm split_year)
            else
              (case complex_conv k of
                 Some (allowed, sub) \<Rightarrow>
                   if \<not> LEGAL_ALT alt_format allowed then Some (None, tm)
                   else (case strptime_loop sub bp tm False of None \<Rightarrow> None
                         | Some (None, tm) \<Rightarrow> Some (None, tm)
                         | Some (Some bp, tm) \<Rightarrow> strptime_loop rest bp tm split_year)
               | None \<Rightarrow>
                   if k = CHR ''n'' \<or> k = CHR ''t'' then
                     (if \<not> LEGAL_ALT alt_format 0 then Some (None, tm)
                      else (case skip_space bp of None \<Rightarrow> None
                            | Some bp \<Rightarrow> strptime_loop rest bp tm split_year))
                   else
                     (case elementary_conv k alt_format bp tm split_year of
                        None \<Rightarrow> Some (None, tm)
                      | Some (bp, tm, split_year) \<Rightarrow> strptime_loop rest bp tm split_year))))"
  by pat_completeness auto
termination
proof (relation "measure (\<lambda>(fmt, _). fmt_weight fmt)", goal_cases)
  case 1
  show ?case by simp
qed (auto dest!: again_weight complex_weight split: if_splits)

definition my_strptime :: "string \<Rightarrow> string \<Rightarrow> tm \<Rightarrow> (string option \<times> tm) option" where
  "my_strptime buf fmt tm = strptime_loop fmt buf tm False"

section \<open>The time stamps\<close>

text \<open>
  The C library's clock and calendar: \<open>time(NULL)\<close>, \<open>mktime\<close> (\<open>-1\<close> when the time has no
  representation), \<open>localtime\<close> (\<open>None\<close> for the null pointer) and the text \<open>strftime\<close> renders.
\<close>

record libc_time =
  time_now :: int
  mktime :: "tm \<Rightarrow> int"
  localtime :: "int \<Rightarrow> tm option"
  strftime :: "string \<Rightarrow> tm \<Rightarrow> string"

text \<open>\<open>unsigned long\<close> has 32 bits on Windows and 64 elsewhere: its width is left open.\<close>

definition timestamp :: "libc_time \<Rightarrow> 'w::len word" where
  "timestamp lc = word_of_int (time_now lc)"

text \<open>The result of \<open>my_strptime\<close> is not tested: what it wrote before failing is converted.\<close>

definition date2timestamp :: "libc_time \<Rightarrow> string \<Rightarrow> string \<Rightarrow> 'w::len word option" where
  "date2timestamp lc fmt_date date =
     (case my_strptime date fmt_date zero_tm of None \<Rightarrow> None
      | Some (_, tm) \<Rightarrow> Some (word_of_int (mktime lc tm)))"

text \<open>
  The text left in \<open>out_buf\<close>. \<open>strftime\<close> leaves the array indeterminate when the text and its NUL
  do not fit; \<open>buf_len\<close> is converted to \<open>size_t\<close>, so a negative length is no limit.
\<close>

definition timestamp2date :: "libc_time \<Rightarrow> 'w::len word \<Rightarrow> string \<Rightarrow> 32 word \<Rightarrow> string option" where
  "timestamp2date lc t fmt_date buf_len =
     (case localtime lc (signed_take_bit 63 (uint t)) of None \<Rightarrow> None
      | Some date \<Rightarrow>
          let s = strftime lc fmt_date date in
          if length s < unat (scast buf_len :: 64 word) then Some s else None)"

definition timestamp_today :: "libc_time \<Rightarrow> 'w::len word option" where
  "timestamp_today lc =
     (case localtime lc (time_now lc) of None \<Rightarrow> None
      | Some date \<Rightarrow> Some (word_of_int (mktime lc (date\<lparr>tm_hour := 0, tm_min := 0, tm_sec := 0\<rparr>))))"

section \<open>What a conversion reads\<close>

declare strptime_loop.simps(2) [simp del]

lemma conv_digits_suffix: "conv_digits u r l s = (n, s') \<Longrightarrow> suffix s' s"
  by (induction u r l s rule: conv_digits.induct)
     (auto simp: Let_def suffix_ConsI split: if_splits)

lemma conv_num_result:
  assumes "conv_num s llim ulim = Some (n, s')"
  shows "llim \<le> n \<and> n \<le> ulim \<and> suffix s' s"
  using assms by (auto simp: conv_num_def Let_def conv_digits_suffix split: if_splits prod.splits)

lemma find_name_result:
  "find_name i xs ys bp = Some (j, len) \<Longrightarrow> i \<le> j \<and> j < i + length xs"
  by (induction i xs ys bp rule: find_name.induct) (fastforce split: if_splits)+

lemma skip_space_suffix: "skip_space s = Some s' \<Longrightarrow> suffix s' s"
  by (induction s) (auto simp: suffix_ConsI split: option.splits if_splits)

lemma literal_suffix: "literal c s = Some s' \<Longrightarrow> suffix s' s"
  by (cases s) (auto simp: literal_def suffix_ConsI split: if_splits)

text \<open>The fields within the ranges the conversions allow.\<close>

definition tm_in_range :: "tm \<Rightarrow> bool" where
  "tm_in_range t \<longleftrightarrow> tm_sec t \<in> {0..61} \<and> tm_min t \<in> {0..59} \<and> tm_hour t \<in> {0..23} \<and>
     tm_mday t \<in> {0..31} \<and> tm_mon t \<in> {0..11} \<and> tm_year t \<in> {- 1900..9999} \<and>
     tm_wday t \<in> {0..6} \<and> tm_yday t \<in> {0..365}"

lemma zero_tm_in_range [simp]: "tm_in_range zero_tm"
  by (simp add: tm_in_range_def zero_tm_def)

lemma smod_100_bounds: "- 100 < (y::int) smod 100 \<and> y smod 100 < 100"
  using pos_mod_bound [of 100 "\<bar>y\<bar>"] pos_mod_sign [of 100 "\<bar>y\<bar>"]
  by (auto simp: signed_modulo_int_def sgn_if signed_divide_int_def)

lemma sdiv_100_bounds:
  assumes "- 1900 \<le> (y::int)" "y \<le> 9999"
  shows "- 1900 \<le> (y sdiv 100) * 100 \<and> (y sdiv 100) * 100 \<le> 9900"
proof (cases "y < 0")
  case True
  have "- (y sdiv 100) = (- y) div 100" using True by (simp add: signed_divide_int_def sgn_if)
  moreover have "(- y) div 100 \<le> 19" "0 \<le> (- y) div 100" using assms True by simp_all
  ultimately show ?thesis by linarith
next
  case False
  have "y sdiv 100 = y div 100" using False by (simp add: signed_divide_int_def sgn_if)
  moreover have "y div 100 \<le> 99" "0 \<le> y div 100" using assms False by simp_all
  ultimately show ?thesis by linarith
qed

text \<open>What every elementary conversion does to the position and to the fields.\<close>

definition conv_ok :: "string \<Rightarrow> tm \<Rightarrow> conv_result \<Rightarrow> bool" where
  "conv_ok bp t r \<longleftrightarrow> (\<forall>bp' t' sy. r = Some (bp', t', sy) \<longrightarrow>
     suffix bp' bp \<and> (tm_in_range t \<longrightarrow> tm_in_range t'))"

named_theorems conversions "the conversions keep the fields in range"

lemma conv_ok_None [conversions]: "conv_ok bp t None"
  by (simp add: conv_ok_def)

lemma conv_ok_num_field [conversions]:
  assumes "\<And>i. llim \<le> i \<Longrightarrow> i \<le> ulim \<Longrightarrow> tm_in_range t \<Longrightarrow> tm_in_range (put i t)"
  shows "conv_ok bp t (num_field allowed a llim ulim put bp t sy)"
  using assms by (auto simp: conv_ok_def num_field_def dest!: conv_num_result
      split: if_splits option.splits)

lemma conv_ok_weekday [conversions]: "conv_ok bp t (conv_weekday a bp t sy)"
  by (auto simp: conv_ok_def conv_weekday_def tm_in_range_def day_def suffix_drop
      dest!: find_name_result split: if_splits option.splits)

lemma conv_ok_month [conversions]: "conv_ok bp t (conv_month a bp t sy)"
  by (auto simp: conv_ok_def conv_month_def tm_in_range_def mon_def suffix_drop
      dest!: find_name_result split: if_splits option.splits)

lemma conv_ok_century [conversions]: "conv_ok bp t (conv_century a bp t sy)"
  using smod_100_bounds [of "tm_year t"]
  by (auto simp: conv_ok_def conv_century_def tm_in_range_def dest!: conv_num_result
      split: if_splits option.splits)

lemma conv_ok_day_hour [conversions]: "conv_ok bp t (conv_day_hour k a bp t sy)"
  by (auto simp: conv_day_hour_def tm_in_range_def intro!: conversions)

lemma conv_ok_day_min_mon [conversions]: "conv_ok bp t (conv_day_min_mon k a bp t sy)"
  by (auto simp: conv_day_min_mon_def tm_in_range_def intro!: conversions)

lemma conv_ok_sec_week [conversions]: "conv_ok bp t (conv_sec_week k a bp t sy)"
  by (auto simp: conv_sec_week_def tm_in_range_def intro!: conversions)

lemma conv_ok_am_pm [conversions]: "conv_ok bp t (conv_am_pm a bp t sy)"
  by (auto simp: conv_ok_def conv_am_pm_def tm_in_range_def suffix_drop)

lemma conv_ok_split_year:
  assumes "conv_num bp 0 99 = Some (i, bp')"
  shows "conv_ok bp t (Some (bp', t\<lparr>tm_year := ((tm_year t sdiv 100) * 100) + i\<rparr>, sy))"
  using conv_num_result [OF assms] sdiv_100_bounds [of "tm_year t"]
  by (auto simp: conv_ok_def tm_in_range_def)

lemma conv_ok_short_year:
  assumes "conv_num bp 0 99 = Some (i, bp')" "c \<in> {0..2000}"
  shows "conv_ok bp t (Some (bp', t\<lparr>tm_year := i + c - TM_YEAR_BASE\<rparr>, sy))"
  using conv_num_result [OF assms(1)] assms(2)
  by (auto simp: conv_ok_def tm_in_range_def TM_YEAR_BASE_def)

lemma full_year_in_range:
  "0 \<le> i \<Longrightarrow> i \<le> 9999 \<Longrightarrow> tm_in_range t \<Longrightarrow> tm_in_range (t\<lparr>tm_year := i - TM_YEAR_BASE\<rparr>)"
  by (simp add: tm_in_range_def TM_YEAR_BASE_def)

lemma conv_ok_year [conversions]: "conv_ok bp t (conv_year k a bp t sy)"
  by (auto simp: conv_year_def split: option.splits
      intro!: conversions conv_ok_split_year conv_ok_short_year full_year_in_range)

lemma conv_ok_elementary: "conv_ok bp t (elementary_conv k a bp t sy)"
  by (auto simp: elementary_conv_def intro!: conversions)

section \<open>The parser returns, inside the input and with fields in range\<close>

definition ascii_text :: "string \<Rightarrow> bool" where
  "ascii_text s \<longleftrightarrow> list_all (\<lambda>c. (of_char c :: int) < 128) s"

lemma isspace_ascii: "(of_char c :: int) < 128 \<Longrightarrow> \<exists>b. isspace c = Some b"
  by (simp add: isspace_def Let_def)

lemma skip_space_ascii: "ascii_text s \<Longrightarrow> \<exists>s'. skip_space s = Some s' \<and> ascii_text s' \<and> suffix s' s"
proof (induction s)
  case (Cons c s)
  then obtain b where "isspace c = Some b" by (auto simp: ascii_text_def dest: isspace_ascii)
  with Cons show ?case by (auto simp: ascii_text_def suffix_ConsI)
qed (simp add: ascii_text_def)

lemma ascii_suffix: "suffix s' s \<Longrightarrow> ascii_text s \<Longrightarrow> ascii_text s'"
  by (auto simp: suffix_def ascii_text_def)

lemma ascii_again: "again a fmt = Some (k, b, rest) \<Longrightarrow> ascii_text fmt \<Longrightarrow> ascii_text rest"
  by (induction a fmt rule: again.induct) (auto simp: ascii_text_def split: if_splits)

lemma ascii_complex: "complex_conv k = Some (allowed, sub) \<Longrightarrow> ascii_text sub"
  by (auto simp: complex_conv_def ascii_text_def split: if_splits)

text \<open>The result of the loop: a position within the input, and the fields in range.\<close>

definition parse_ok :: "string \<Rightarrow> tm \<Rightarrow> (string option \<times> tm) option \<Rightarrow> bool" where
  "parse_ok bp t r \<longleftrightarrow> (\<exists>p t'. r = Some (p, t') \<and>
     (\<forall>bp'. p = Some bp' \<longrightarrow> suffix bp' bp) \<and> (tm_in_range t \<longrightarrow> tm_in_range t'))"

lemma parse_ok_NULL [simp]: "parse_ok bp t (Some (None, t))"
  by (simp add: parse_ok_def)

lemma parse_ok_trans:
  "parse_ok bp' t' r \<Longrightarrow> suffix bp' bp \<Longrightarrow> (tm_in_range t \<Longrightarrow> tm_in_range t') \<Longrightarrow> parse_ok bp t r"
  by (auto simp: parse_ok_def dest: suffix_order.trans)

lemma parse_ok_conv:
  assumes "conv_ok bp t r" "\<And>bp' t' sy. r = Some (bp', t', sy) \<Longrightarrow> suffix bp' bp \<Longrightarrow> parse_ok bp' t' (f bp' t' sy)"
  shows "parse_ok bp t (case r of None \<Rightarrow> Some (None, t) | Some (bp', t', sy) \<Rightarrow> f bp' t' sy)"
  using assms by (auto simp: conv_ok_def split: option.split elim!: parse_ok_trans)

lemma parse_ok_bind:
  assumes "parse_ok bp t r" "\<And>bp' t'. r = Some (Some bp', t') \<Longrightarrow> suffix bp' bp \<Longrightarrow> parse_ok bp' t' (f bp' t')"
  shows "parse_ok bp t (case r of None \<Rightarrow> None | Some (None, t') \<Rightarrow> Some (None, t')
    | Some (Some bp', t') \<Rightarrow> f bp' t')"
proof (cases "\<exists>bp' t'. r = Some (Some bp', t')")
  case True
  then obtain bp' t' where r: "r = Some (Some bp', t')" by blast
  with assms(1) have "suffix bp' bp" "tm_in_range t \<Longrightarrow> tm_in_range t'" by (simp_all add: parse_ok_def)
  then show ?thesis using parse_ok_trans [OF assms(2) [OF r]] by (simp add: r)
next
  case False
  then show ?thesis using assms(1) by (auto simp: parse_ok_def split: option.split)
qed

lemma parse_ok_literal:
  assumes "\<And>bp'. suffix bp' bp \<Longrightarrow> parse_ok bp' t (f bp')"
  shows "parse_ok bp t (case literal c bp of None \<Rightarrow> Some (None, t) | Some bp' \<Rightarrow> f bp')"
  using assms by (auto split: option.split intro: parse_ok_trans dest: literal_suffix)

lemma parse_ok_skip:
  assumes "ascii_text bp" "\<And>bp'. suffix bp' bp \<Longrightarrow> parse_ok bp' t (f bp')"
  shows "parse_ok bp t (case skip_space bp of None \<Rightarrow> None | Some bp' \<Rightarrow> f bp')"
proof -
  obtain bp' where "skip_space bp = Some bp'" "suffix bp' bp"
    using skip_space_ascii [OF assms(1)] by blast
  then show ?thesis using parse_ok_trans [OF assms(2)] by simp
qed

text \<open>One turn of the loop: the four shapes of the head of the format.\<close>

lemma strptime_space:
  "isspace c = Some True \<Longrightarrow> strptime_loop (c # fmt) bp t sy =
     (case skip_space bp of None \<Rightarrow> None | Some bp \<Rightarrow> strptime_loop fmt bp t sy)"
  by (simp add: strptime_loop.simps)

lemma strptime_literal:
  "isspace c = Some False \<Longrightarrow> c \<noteq> CHR ''%'' \<Longrightarrow> strptime_loop (c # fmt) bp t sy =
     (case literal c bp of None \<Rightarrow> Some (None, t) | Some bp \<Rightarrow> strptime_loop fmt bp t sy)"
  by (simp add: strptime_loop.simps)

lemma isspace_percent [simp]: "isspace CHR ''%'' = Some False"
  by (simp add: isspace_def)

lemma strptime_percent:
  "strptime_loop (CHR ''%'' # fmt) bp t sy =
     (case again 0 fmt of None \<Rightarrow> Some (None, t)
      | Some (k, a, rest) \<Rightarrow>
        if k = CHR ''%'' then
          (case literal k bp of None \<Rightarrow> Some (None, t) | Some bp \<Rightarrow> strptime_loop rest bp t sy)
        else
          (case complex_conv k of
             Some (allowed, sub) \<Rightarrow>
               if \<not> LEGAL_ALT a allowed then Some (None, t)
               else (case strptime_loop sub bp t False of None \<Rightarrow> None
                     | Some (None, t') \<Rightarrow> Some (None, t')
                     | Some (Some bp', t') \<Rightarrow> strptime_loop rest bp' t' sy)
           | None \<Rightarrow>
               if k = CHR ''n'' \<or> k = CHR ''t'' then
                 (if \<not> LEGAL_ALT a 0 then Some (None, t)
                  else (case skip_space bp of None \<Rightarrow> None | Some bp \<Rightarrow> strptime_loop rest bp t sy))
               else
                 (case elementary_conv k a bp t sy of None \<Rightarrow> Some (None, t)
                  | Some (bp', t', sy') \<Rightarrow> strptime_loop rest bp' t' sy')))"
  by (simp add: strptime_loop.simps)

lemma parse_ok_percent:
  assumes bp: "ascii_text bp"
    and rest: "\<And>k a rest bp' t' sy'. again 0 fmt = Some (k, a, rest) \<Longrightarrow> suffix bp' bp \<Longrightarrow>
      parse_ok bp' t' (strptime_loop rest bp' t' sy')"
    and sub: "\<And>k a rest allowed sub. again 0 fmt = Some (k, a, rest) \<Longrightarrow>
      complex_conv k = Some (allowed, sub) \<Longrightarrow> parse_ok bp t (strptime_loop sub bp t False)"
  shows "parse_ok bp t (strptime_loop (CHR ''%'' # fmt) bp t sy)"
proof (cases "again 0 fmt")
  case None
  then show ?thesis by (simp add: strptime_percent)
next
  case (Some r)
  obtain k a rest where a: "again 0 fmt = Some (k, a, rest)" using Some by (cases r) auto
  note defs = strptime_percent a
  note rest = rest [OF a]
  consider "k = CHR ''%''" | x where "k \<noteq> CHR ''%''" "complex_conv k = Some x"
    | "k \<noteq> CHR ''%''" "complex_conv k = None" "k = CHR ''n'' \<or> k = CHR ''t''"
    | "k \<noteq> CHR ''%''" "complex_conv k = None" "\<not> (k = CHR ''n'' \<or> k = CHR ''t'')" by blast
  then show ?thesis
  proof cases
    case 1
    then show ?thesis using parse_ok_literal [OF rest] by (simp add: defs)
  next
    case 2
    then show ?thesis using parse_ok_bind [OF sub [OF a] rest] by (cases x) (simp add: defs)
  next
    case 3
    then show ?thesis using parse_ok_skip [OF bp rest] by (auto simp: defs)
  next
    case 4
    then show ?thesis using parse_ok_conv [OF conv_ok_elementary rest] by (simp add: defs)
  qed
qed

lemma strptime_loop_ok:
  "ascii_text fmt \<Longrightarrow> ascii_text bp \<Longrightarrow> parse_ok bp t (strptime_loop fmt bp t sy)"
proof (induction "fmt_weight fmt" arbitrary: fmt bp t sy rule: less_induct)
  case less
  note bp = less.prems(2)
  note asc = ascii_suffix [OF _ bp]
  show ?case
  proof (cases fmt)
    case Nil
    then show ?thesis by (simp add: parse_ok_def)
  next
    case (Cons c fmt')
    have fmt': "ascii_text fmt'" "fmt_weight fmt' < fmt_weight fmt"
      using less.prems(1) Cons by (simp_all add: ascii_text_def)
    then have IH: "suffix bp' bp \<Longrightarrow> parse_ok bp' t' (strptime_loop fmt' bp' t' sy')" for bp' t' sy'
      using less.hyps asc by blast
    obtain space where sp: "isspace c = Some space"
      using less.prems(1) Cons by (auto simp: ascii_text_def dest: isspace_ascii)
    consider "space" | "\<not> space" "c \<noteq> CHR ''%''" | "c = CHR ''%''" by blast
    then show ?thesis
    proof cases
      case 1
      then show ?thesis using sp parse_ok_skip [OF bp IH] by (simp add: Cons strptime_space)
    next
      case 2
      then show ?thesis using sp parse_ok_literal [OF IH] by (simp add: Cons strptime_literal)
    next
      case 3
      have rest: "suffix bp' bp \<Longrightarrow> parse_ok bp' t' (strptime_loop rest bp' t' sy')"
        if "again 0 fmt' = Some (k, a, rest)" for k a rest bp' t' sy'
        using less.hyps [of rest] ascii_again [OF that fmt'(1)] again_weight [OF that] fmt'(2) asc
        by force
      have sub: "parse_ok bp t (strptime_loop sub bp t False)"
        if "again 0 fmt' = Some (k, a, rest)" "complex_conv k = Some (allowed, sub)"
        for k a rest allowed sub
        using less.hyps [of sub] ascii_complex [OF that(2)] again_weight [OF that(1)]
          complex_weight [OF that(2)] fmt'(2) bp by force
      show ?thesis unfolding Cons 3 using bp rest sub by (rule parse_ok_percent)
    qed
  qed
qed

text \<open>C16 (type): on ASCII text, whatever the format, the parser returns without undefined
  behaviour; the pointer it returns is null or points into the input, and every field it wrote,
  on failure too, is within its calendar range, so the C arithmetic on the fields cannot overflow.\<close>

theorem my_strptime_safe:
  assumes "ascii_text fmt" "ascii_text buf" "tm_in_range t"
  shows "\<exists>p t'. my_strptime buf fmt t = Some (p, t') \<and> tm_in_range t' \<and>
     (case p of None \<Rightarrow> True | Some bp \<Rightarrow> suffix bp buf)"
proof -
  obtain p t' where "my_strptime buf fmt t = Some (p, t')" "tm_in_range t'"
    "\<forall>bp. p = Some bp \<longrightarrow> suffix bp buf"
    using strptime_loop_ok [OF assms(1,2), of t False] assms(3)
    unfolding my_strptime_def parse_ok_def by blast
  then show ?thesis by (simp split: option.split)
qed

lemma my_strptime_safe_witness:
  "\<exists>p t'. my_strptime ''10:75 PM'' ''%c'' zero_tm = Some (p, t') \<and> tm_in_range t' \<and>
     (case p of None \<Rightarrow> True | Some bp \<Rightarrow> suffix bp ''10:75 PM'')"
  by (rule my_strptime_safe) (simp_all add: ascii_text_def)

section \<open>Round trip\<close>

text \<open>
  The fixed-width decimals \<open>strftime\<close> prints, and formats as sequences of conversions with such a
  text and of literal characters; a blank in a format may not be followed by another.
\<close>

definition dec_digit :: "int \<Rightarrow> char" where "dec_digit n = char_of (48 + n mod 10)"

definition pad2 :: "int \<Rightarrow> string" where "pad2 n = [dec_digit (n div 10), dec_digit n]"

definition pad4 :: "int \<Rightarrow> string" where "pad4 n = pad2 (n div 100) @ pad2 n"

lemma of_char_dec_digit: "of_char (dec_digit n) = 48 + n mod 10"
proof -
  have "0 \<le> n mod 10" "n mod 10 < 10" by simp_all
  then have "(48 + n mod 10) mod 256 = 48 + n mod 10" by (intro mod_pos_pos_trivial) linarith+
  then show ?thesis by (simp add: dec_digit_def)
qed

lemma is_digit_dec_digit [simp]: "is_digit (dec_digit n)"
proof -
  have "0 \<le> n mod 10" "n mod 10 < 10" by simp_all
  then show ?thesis by (simp add: is_digit_def of_char_dec_digit) linarith
qed

lemma digit_value_dec_digit [simp]: "digit_value (dec_digit n) = n mod 10"
  by (simp add: digit_value_def of_char_dec_digit)

lemma c_char_Cons [simp]: "c_char (c # s) = c"
  by (simp add: c_char_def)

lemma div_mod_10:
  fixes n :: int
  obtains q r where "n div 10 = q" "n mod 10 = r" "n = q * 10 + r" "0 \<le> r" "r < 10"
  using that [of "n div 10" "n mod 10"] by simp

lemma conv_num_pad2:
  assumes "0 \<le> n" "llim \<le> n" "n \<le> ulim" "10 \<le> ulim" "ulim \<le> 99"
  shows "conv_num (pad2 n @ s) llim ulim = Some (n, s)"
proof -
  obtain q r where n: "n div 10 = q" "n mod 10 = r" "n = q * 10 + r" "0 \<le> r" "r < 10" by (rule div_mod_10)
  obtain u v where u: "ulim div 10 = u" "ulim = u * 10 + v" "0 \<le> v" "v < 10" by (rule div_mod_10)
  have q: "q mod 10 = q" "q * 10 \<le> ulim" using n assms by simp_all
  have "u \<noteq> 0" "u div 10 = 0" using u(2-) assms by simp_all
  then show ?thesis using assms(2,3) n(1,2) q u(1) n(3) by (simp add: conv_num_def pad2_def Let_def)
qed

lemma conv_num_pad4:
  assumes "0 \<le> n" "n \<le> 9999"
  shows "conv_num (pad4 n @ s) 0 9999 = Some (n, s)"
proof -
  obtain m d where m: "n div 10 = m" "n mod 10 = d" "n = m * 10 + d" "0 \<le> d" "d < 10" by (rule div_mod_10)
  obtain k c where k: "m div 10 = k" "m mod 10 = c" "m = k * 10 + c" "0 \<le> c" "c < 10" by (rule div_mod_10)
  obtain a b where a: "k div 10 = a" "k mod 10 = b" "k = a * 10 + b" "0 \<le> b" "b < 10" by (rule div_mod_10)
  have "n div 100 = k" using zdiv_zmult2_eq [of 10 n 10] m(1) k(1) by simp
  moreover have "a mod 10 = a" using assms m(3-) k(3-) a(3-) by simp
  ultimately show ?thesis using assms m(1,2) k(1,2) a(1,2) m(3-) k(3-) a(3-)
    by (simp add: conv_num_def pad4_def pad2_def Let_def)
qed

datatype fmt_item = Lit char | Field char

fun item_fmt :: "fmt_item \<Rightarrow> string" where
  "item_fmt (Lit c) = [c]"
| "item_fmt (Field c) = [CHR ''%'', c]"

definition fields :: "char list" where "fields = ''YmdHMS''"

definition field_text :: "char \<Rightarrow> tm \<Rightarrow> string" where
  "field_text c t =
     (if c = CHR ''Y'' then pad4 (tm_year t + 1900) else if c = CHR ''m'' then pad2 (tm_mon t + 1)
      else if c = CHR ''d'' then pad2 (tm_mday t) else if c = CHR ''H'' then pad2 (tm_hour t)
      else if c = CHR ''M'' then pad2 (tm_min t) else pad2 (tm_sec t))"

definition copy_field :: "char \<Rightarrow> tm \<Rightarrow> tm \<Rightarrow> tm" where
  "copy_field c t u =
     (if c = CHR ''Y'' then u\<lparr>tm_year := tm_year t\<rparr> else if c = CHR ''m'' then u\<lparr>tm_mon := tm_mon t\<rparr>
      else if c = CHR ''d'' then u\<lparr>tm_mday := tm_mday t\<rparr> else if c = CHR ''H'' then u\<lparr>tm_hour := tm_hour t\<rparr>
      else if c = CHR ''M'' then u\<lparr>tm_min := tm_min t\<rparr> else u\<lparr>tm_sec := tm_sec t\<rparr>)"

fun item_text :: "tm \<Rightarrow> fmt_item \<Rightarrow> string" where
  "item_text t (Lit c) = [c]"
| "item_text t (Field c) = field_text c t"

fun copy_item :: "tm \<Rightarrow> fmt_item \<Rightarrow> tm \<Rightarrow> tm" where
  "copy_item t (Lit c) u = u"
| "copy_item t (Field c) u = copy_field c t u"

fun blank :: "fmt_item \<Rightarrow> bool" where
  "blank (Lit c) \<longleftrightarrow> isspace c = Some True"
| "blank (Field c) \<longleftrightarrow> False"

fun item_ok :: "fmt_item \<Rightarrow> bool" where
  "item_ok (Lit c) \<longleftrightarrow> isspace c \<noteq> None \<and> c \<noteq> CHR ''%'' \<and> c \<noteq> NUL"
| "item_ok (Field c) \<longleftrightarrow> c \<in> set fields"

fun items_ok :: "fmt_item list \<Rightarrow> bool" where
  "items_ok [] = True"
| "items_ok [i] = item_ok i"
| "items_ok (i # j # items) \<longleftrightarrow> item_ok i \<and> \<not> (blank i \<and> blank j) \<and> items_ok (j # items)"

definition printable :: "tm \<Rightarrow> bool" where
  "printable t \<longleftrightarrow> tm_sec t \<in> {0..61} \<and> tm_min t \<in> {0..59} \<and> tm_hour t \<in> {0..23} \<and>
     tm_mday t \<in> {1..31} \<and> tm_mon t \<in> {0..11} \<and> tm_year t \<in> {- 1900..8099}"

lemma again_field: "c \<in> set fields \<Longrightarrow> again 0 (c # fmt) = Some (c, 0, fmt)"
  by (auto simp: fields_def)

lemma LEGAL_ALT_0 [simp]: "LEGAL_ALT 0 x"
  by (simp add: LEGAL_ALT_def)

lemma elementary_conv_field:
  assumes "c \<in> set fields" "printable t"
  shows "elementary_conv c 0 (field_text c t @ s) u sy = Some (s, copy_field c t u, sy)"
proof -
  note defs = elementary_conv_def field_text_def copy_field_def num_field_def conv_day_hour_def
    conv_day_min_mon_def conv_sec_week_def conv_year_def TM_YEAR_BASE_def conv_num_pad2 conv_num_pad4
  have t: "0 \<le> tm_sec t" "tm_sec t \<le> 61" "0 \<le> tm_min t" "tm_min t \<le> 59" "0 \<le> tm_hour t" "tm_hour t \<le> 23"
    "1 \<le> tm_mday t" "tm_mday t \<le> 31" "0 \<le> tm_mon t" "tm_mon t \<le> 11" "0 \<le> tm_year t + 1900"
    "tm_year t + 1900 \<le> 9999"
    using assms(2) by (simp_all add: printable_def)
  consider "c = CHR ''Y''" | "c = CHR ''m''" | "c = CHR ''d''" | "c = CHR ''H''" | "c = CHR ''M''" | "c = CHR ''S''"
    using assms(1) by (auto simp: fields_def)
  then show ?thesis using t by cases (simp_all add: defs)
qed

lemma strptime_field:
  assumes "c \<in> set fields" "printable t"
  shows "strptime_loop (CHR ''%'' # c # fmt) (field_text c t @ s) u sy =
    strptime_loop fmt s (copy_field c t u) sy"
proof -
  have "complex_conv c = None \<and> c \<noteq> CHR ''%'' \<and> c \<noteq> CHR ''n'' \<and> c \<noteq> CHR ''t''"
    using assms(1) by (auto simp: fields_def complex_conv_def)
  then show ?thesis
    by (simp add: strptime_percent again_field [OF assms(1)] elementary_conv_field [OF assms] del: again.simps)
qed

lemma isspace_dec_digit: "isspace (dec_digit n) = Some False"
proof -
  have "0 \<le> n mod 10" "n mod 10 < 10" by simp_all
  then show ?thesis by (simp add: isspace_def of_char_dec_digit Let_def) linarith
qed

lemma field_text_Cons: "\<exists>n s. field_text c t = dec_digit n # s"
  by (auto simp: field_text_def pad2_def pad4_def)

lemma skip_space_text:
  assumes "items_ok items" "items = [] \<or> \<not> blank (hd items)"
  shows "skip_space (concat (map (item_text t) items)) = Some (concat (map (item_text t) items))"
proof (cases items)
  case (Cons i js)
  then have "item_ok i" "\<not> blank i" using assms by (cases js; simp)+
  then obtain c s where "item_text t i = c # s" "isspace c = Some False"
    using field_text_Cons isspace_dec_digit by (cases i) fastforce+
  then show ?thesis by (simp add: Cons)
qed simp

lemma strptime_items:
  "items_ok items \<Longrightarrow> printable t \<Longrightarrow>
   strptime_loop (concat (map item_fmt items)) (concat (map (item_text t) items)) u sy =
     Some (Some [], fold (copy_item t) items u)"
proof (induction items arbitrary: u)
  case (Cons i items)
  have ok: "item_ok i" "items_ok items" using Cons.prems(1) by (cases items; simp)+
  show ?case
  proof (cases i)
    case (Field c)
    then show ?thesis using ok Cons.IH [OF ok(2) Cons.prems(2)] Cons.prems(2)
      by (simp add: strptime_field)
  next
    case (Lit c)
    then obtain sp where sp: "isspace c = Some sp" "c \<noteq> CHR ''%''" using ok by auto
    have "skip_space (concat (map (item_text t) items)) = Some (concat (map (item_text t) items))" if sp
      by (rule skip_space_text [OF ok(2)]) (use that Cons.prems(1) Lit sp in \<open>cases items; simp\<close>)
    then show ?thesis using Cons.IH [OF ok(2) Cons.prems(2)] Lit sp
      by (cases sp) (simp_all add: strptime_space strptime_literal literal_def)
  qed
qed simp


definition example_tm :: tm where
  "example_tm = \<lparr>tm_sec = 9, tm_min = 30, tm_hour = 23, tm_mday = 29, tm_mon = 1, tm_year = 124,
     tm_wday = 4, tm_yday = 59, tm_isdst = 0\<rparr>"

definition date_time_items :: "fmt_item list" where
  "date_time_items = [Field CHR ''Y'', Lit CHR ''-'', Field CHR ''m'', Lit CHR ''-'', Field CHR ''d'',
     Lit CHR '' '', Field CHR ''H'', Lit CHR '':'', Field CHR ''M'', Lit CHR '':'', Field CHR ''S'']"


section \<open>The century, the marker of the half day, and daylight saving time\<close>

text \<open>\<open>%C\<close> writes the century without subtracting the base year, so \<open>%C%y\<close> and \<open>%Y\<close> differ by 1900.\<close>

lemma century_year_off:
  assumes "c \<in> {0..99}" "y \<in> {0..99}"
  shows "my_strptime (pad2 c @ pad2 y) ''%C%y'' zero_tm = Some (Some [], zero_tm\<lparr>tm_year := c * 100 + y\<rparr>)"
proof -
  have "c * 100 sdiv 100 = c"
    using assms by (simp add: signed_divide_int_def sgn_if abs_if)
  then show ?thesis using assms conv_num_pad2 [of y 0 99 "[]"]
    by (simp add: my_strptime_def strptime_percent complex_conv_def elementary_conv_def conv_century_def
        conv_year_def conv_num_pad2 zero_tm_def)
qed

text \<open>\<open>%p\<close> compares with the whole rest of the input, so it only matches at its end.\<close>

lemma am_pm_only_last:
  "conv_am_pm a bp t sy = Some (bp', t', sy') \<Longrightarrow> bp' = []"
  by (auto simp: conv_am_pm_def am_def pm_def split: if_splits)

text \<open>
  What \<open>mktime\<close> and \<open>localtime\<close> document: \<open>mktime\<close> inverts \<open>localtime\<close>, ignores the day of the week
  and of the year, and reads a time marked as standard time one hour later than the same
  time marked as daylight saving time.
\<close>

definition calendar :: "libc_time \<Rightarrow> bool" where
  "calendar lc \<longleftrightarrow> (\<forall>t d. localtime lc t = Some d \<longrightarrow> mktime lc d = t) \<and>
     (\<forall>d w y. mktime lc (d\<lparr>tm_wday := w, tm_yday := y\<rparr>) = mktime lc d) \<and>
     (\<forall>d. tm_isdst d > 0 \<longrightarrow> mktime lc (d\<lparr>tm_isdst := 0\<rparr>) = mktime lc d + 3600)"

definition date_time_fmt :: string where "date_time_fmt = ''%Y-%m-%d %H:%M:%S''"

definition renders_date_time :: "libc_time \<Rightarrow> bool" where
  "renders_date_time lc \<longleftrightarrow>
     (\<forall>d. printable d \<longrightarrow> strftime lc date_time_fmt d = concat (map (item_text d) date_time_items))"

lemma date_time_fmt: "date_time_fmt = concat (map item_fmt date_time_items)"
  by (simp add: date_time_fmt_def date_time_items_def)

lemma date_time_items_ok: "items_ok date_time_items"
  by (simp add: date_time_items_def fields_def isspace_def NUL_def)

lemma copy_date_time:
  "fold (copy_item d) date_time_items zero_tm = d\<lparr>tm_wday := 0, tm_yday := 0, tm_isdst := 0\<rparr>"
  by (simp add: date_time_items_def copy_field_def zero_tm_def)

text \<open>Parsing the date that \<open>timestamp2date\<close> printed gives the time stamp back when
  the date is in standard time; in daylight saving time it is one hour off, since the parser leaves the
  marker of the zeroed fields at 0.\<close>

theorem date2timestamp_timestamp2date:
  fixes t :: "32 word"
  assumes "calendar lc" "renders_date_time lc"
    and "localtime lc (uint t) = Some d" "printable d" "tm_isdst d \<ge> 0"
    and "timestamp2date lc t date_time_fmt len = Some s"
  shows "date2timestamp lc date_time_fmt s = Some (if tm_isdst d = 0 then t else t + 3600)"
proof -
  have "0 \<le> uint t" "uint t < 4294967296" using uint_lt2p [of t] by simp_all
  then have "- (2 ^ 63) \<le> uint t" "uint t < 2 ^ 63" by (auto intro: order.trans [of _ 0])
  then have t: "signed_take_bit 63 (uint t) = uint t" by (rule signed_take_bit_int_eq_self)
  have s: "s = concat (map (item_text d) date_time_items)"
    using assms(2-4,6) by (auto simp: timestamp2date_def t renders_date_time_def Let_def split: if_splits)
  have parse: "my_strptime s date_time_fmt zero_tm =
      Some (Some [], d\<lparr>tm_wday := 0, tm_yday := 0, tm_isdst := 0\<rparr>)"
    using strptime_items [OF date_time_items_ok assms(4)]
    by (simp add: my_strptime_def s date_time_fmt copy_date_time)
  have "d\<lparr>tm_wday := 0, tm_yday := 0, tm_isdst := 0\<rparr> = (d\<lparr>tm_isdst := 0\<rparr>)\<lparr>tm_wday := 0, tm_yday := 0\<rparr>"
    by simp
  then have mk: "mktime lc (d\<lparr>tm_wday := 0, tm_yday := 0, tm_isdst := 0\<rparr>) = mktime lc (d\<lparr>tm_isdst := 0\<rparr>)"
    using assms(1) by (simp only: calendar_def)
  have "mktime lc (d\<lparr>tm_isdst := 0\<rparr>) = uint t + (if tm_isdst d = 0 then 0 else 3600)"
  proof (cases "tm_isdst d = 0")
    case True
    then have "d\<lparr>tm_isdst := 0\<rparr> = d" by simp
    then show ?thesis using True assms(1,3) by (simp add: calendar_def)
  next
    case False
    then show ?thesis using assms(1,3,5) by (simp add: calendar_def)
  qed
  then show ?thesis by (simp add: date2timestamp_def parse mk)
qed

text \<open>A zone whose standard time is Greenwich and whose clocks are one hour ahead at time 0.\<close>

definition example_libc :: libc_time where
  "example_libc = \<lparr>time_now = 0,
     mktime = (\<lambda>d. tm_sec d + 60 * tm_min d + 3600 * tm_hour d + 86400 * (tm_mday d - 1)
        - (if tm_isdst d > 0 then 3600 else 0)),
     localtime = (\<lambda>t. if t = 0 then Some (zero_tm\<lparr>tm_hour := 1, tm_mday := 1, tm_year := 70, tm_wday := 4,
        tm_isdst := 1\<rparr>) else None),
     strftime = (\<lambda>f d. if f = date_time_fmt then concat (map (item_text d) date_time_items) else [])\<rparr>"

lemma date2timestamp_timestamp2date_witness:
  "timestamp2date example_libc (0 :: 32 word) ''%Y-%m-%d %H:%M:%S'' 20 = Some ''1970-01-01 01:00:00'' \<and>
   date2timestamp example_libc ''%Y-%m-%d %H:%M:%S'' ''1970-01-01 01:00:00'' = Some (3600 :: 32 word)"
proof -
  define d where "d = zero_tm\<lparr>tm_hour := 1, tm_mday := 1, tm_year := 70, tm_wday := 4, tm_isdst := 1\<rparr>"
  have d: "localtime example_libc (uint (0 :: 32 word)) = Some d" "printable d" "tm_isdst d \<ge> 0"
    by (simp_all add: example_libc_def d_def printable_def zero_tm_def)
  have laws: "calendar example_libc" "renders_date_time example_libc"
    by (auto simp: calendar_def renders_date_time_def example_libc_def zero_tm_def)
  have shown: "concat (map (item_text d) date_time_items) = ''1970-01-01 01:00:00''"
    by (simp add: date_time_items_def field_text_def pad2_def pad4_def dec_digit_def d_def zero_tm_def char_of_def)
  have len: "unat (scast (20 :: 32 word) :: 64 word) = 20" by simp
  have print: "timestamp2date example_libc (0 :: 32 word) date_time_fmt 20 = Some ''1970-01-01 01:00:00''"
    using laws(2) d shown by (simp add: timestamp2date_def renders_date_time_def len Let_def)
  have "date2timestamp example_libc date_time_fmt ''1970-01-01 01:00:00'' = Some (3600 :: 32 word)"
    using date2timestamp_timestamp2date [OF laws d print] by (simp add: d_def)
  then show ?thesis using print by (simp add: date_time_fmt_def)
qed

end
