(* ===== verification/Time_List.thy ===== *)
theory Time_List
  imports Prelude
begin

text \<open>
  The timers of utils/time_list.c on top of the libuv loop. The state holds the heap of \<open>timer_data\<close>
  blocks and the loop. libuv is a record of its operations on a loop of any type; what the
  theorems rely on of it is \<open>uv_documented\<close>, the documented effect of each on the timers. A callback is
  the argument \<open>run\<close>: it may call \<open>schedule\<close> and \<open>unschedule\<close> again, so it maps states to states and may
  be undefined. The list \<open>calls\<close> records the invocations (the timer, the callback and its data) and
  \<open>handles\<close> the handles given to the loop and never closed.
\<close>

section \<open>State\<close>

record timer_data =
  t_callback :: nat
  t_data :: addr
  t_repeat :: int

record ('l, 'u) timers =
  heap :: "addr \<rightharpoonup> timer_data"
  fresh :: addr
  malloc_fails :: bool
  loop :: 'l
  handles :: "addr set"
  calls :: "(addr \<times> nat \<times> addr) list"
  user :: 'u

type_synonym ('l, 'u) callbacks = "nat \<Rightarrow> addr \<Rightarrow> ('l, 'u) timers \<Rightarrow> ('l, 'u) timers option"

section \<open>libuv\<close>

text \<open>
  \<open>uv_timer_init\<close>, \<open>uv_timer_start\<close> and \<open>uv_timer_stop\<close>; then what the loop does by itself: time passes,
  a timer is due, and a due timer is re-armed or stopped before its callback runs. \<open>uv_timer\<close> is
  the remaining time and the repeat interval of a started timer.
\<close>

record 'l uv_timer_api =
  uv_init :: "addr \<Rightarrow> 'l \<Rightarrow> 'l"
  uv_start :: "addr \<Rightarrow> nat \<Rightarrow> nat \<Rightarrow> 'l \<Rightarrow> 'l"
  uv_stop :: "addr \<Rightarrow> 'l \<Rightarrow> 'l"
  uv_elapse :: "nat \<Rightarrow> 'l \<Rightarrow> 'l"
  uv_rearm :: "addr \<Rightarrow> 'l \<Rightarrow> 'l"
  uv_timer :: "'l \<Rightarrow> addr \<Rightarrow> (nat \<times> nat) option"

definition rearmed :: "nat \<times> nat \<Rightarrow> (nat \<times> nat) option" where
  "rearmed u = (if snd u = 0 then None else Some (snd u, snd u))"

definition uv_documented :: "'l uv_timer_api \<Rightarrow> bool" where
  "uv_documented uv \<longleftrightarrow>
     (\<forall>a l. uv_timer uv (uv_init uv a l) = (uv_timer uv l)(a := None)) \<and>
     (\<forall>a after rep l. uv_timer uv (uv_start uv a after rep l) = (uv_timer uv l)(a \<mapsto> (after, rep))) \<and>
     (\<forall>a l. uv_timer uv (uv_stop uv a l) = (uv_timer uv l)(a := None)) \<and>
     (\<forall>ms l a. uv_timer uv (uv_elapse uv ms l) a = map_option (map_prod (\<lambda>d. d - ms) id) (uv_timer uv l a)) \<and>
     (\<forall>a l. uv_timer uv (uv_rearm uv a l) = (uv_timer uv l)(a := uv_timer uv l a \<bind> rearmed))"

definition uv_due :: "'l uv_timer_api \<Rightarrow> addr \<Rightarrow> 'l \<Rightarrow> bool" where
  "uv_due uv a l \<longleftrightarrow> (case uv_timer uv l a of None \<Rightarrow> False | Some (remaining, _) \<Rightarrow> remaining = 0)"

section \<open>The code\<close>

text \<open>\<open>alloc_timer\<close>: \<open>None\<close> in the first component is the null pointer.\<close>

definition alloc_timer ::
  "'l uv_timer_api \<Rightarrow> nat \<Rightarrow> addr \<Rightarrow> int \<Rightarrow> ('l, 'u) timers \<Rightarrow> addr option \<times> ('l, 'u) timers" where
  "alloc_timer uv callback data repeat w =
     (if malloc_fails w then (None, w)
      else let a = fresh w in
        (Some a, w\<lparr>heap := (heap w)(a \<mapsto> \<lparr>t_callback = callback, t_data = data, t_repeat = repeat\<rparr>),
                  fresh := Suc a, handles := insert a (handles w), loop := uv_init uv a (loop w)\<rparr>))"

definition free_timer :: "addr \<Rightarrow> ('l, 'u) timers \<Rightarrow> ('l, 'u) timers option" where
  "free_timer a w = (if heap w a = None then None else Some (w\<lparr>heap := (heap w)(a := None)\<rparr>))"

text \<open>\<open>timer->callback(timer->data)\<close>\<close>

definition invoke :: "('l, 'u) callbacks \<Rightarrow> addr \<Rightarrow> timer_data \<Rightarrow> ('l, 'u) timers \<Rightarrow> ('l, 'u) timers option" where
  "invoke run a t w =
     run (t_callback t) (t_data t) (w\<lparr>calls := calls w @ [(a, t_callback t, t_data t)]\<rparr>)"

text \<open>The block is read again after the callback, which may have freed it.\<close>

definition timer_callback ::
  "'l uv_timer_api \<Rightarrow> ('l, 'u) callbacks \<Rightarrow> addr \<Rightarrow> ('l, 'u) timers \<Rightarrow> ('l, 'u) timers option" where
  "timer_callback uv run a w =
     (case heap w a of None \<Rightarrow> None
      | Some t \<Rightarrow>
          if t_repeat t > 0 then
            do { w \<leftarrow> invoke run a t w; t \<leftarrow> heap w a;
                 Some (w\<lparr>heap := (heap w)(a \<mapsto> t\<lparr>t_repeat := t_repeat t - 1\<rparr>)\<rparr>) }
          else if t_repeat t = 0 then free_timer a (w\<lparr>loop := uv_stop uv a (loop w)\<rparr>)
          else invoke run a t w)"

text \<open>The first statement after \<open>alloc_timer\<close> dereferences its result without a test.\<close>

definition schedule ::
  "'l uv_timer_api \<Rightarrow> nat \<Rightarrow> addr \<Rightarrow> nat \<Rightarrow> nat \<Rightarrow> int \<Rightarrow> ('l, 'u) timers \<Rightarrow> (addr \<times> ('l, 'u) timers) option" where
  "schedule uv callback data after_ms repeat_interval_ms repeat w =
     (case alloc_timer uv callback data repeat w of (None, w) \<Rightarrow> None
      | (Some a, w) \<Rightarrow> Some (a, w\<lparr>loop := uv_start uv a after_ms repeat_interval_ms (loop w)\<rparr>))"

definition unschedule :: "'l uv_timer_api \<Rightarrow> addr \<Rightarrow> ('l, 'u) timers \<Rightarrow> ('l, 'u) timers option" where
  "unschedule uv a w =
     (case heap w a of None \<Rightarrow> None
      | Some t \<Rightarrow> if t_repeat t = 0 then Some w else free_timer a (w\<lparr>loop := uv_stop uv a (loop w)\<rparr>))"

definition schedule_once ::
  "'l uv_timer_api \<Rightarrow> nat \<Rightarrow> addr \<Rightarrow> nat \<Rightarrow> ('l, 'u) timers \<Rightarrow> (addr \<times> ('l, 'u) timers) option" where
  "schedule_once uv callback data after_ms w = schedule uv callback data after_ms 1000 1 w"

section \<open>The loop\<close>

text \<open>
  What the program and the loop may do: time passes, a timer that is due is re-armed and fires,
  and the program cancels a timer. Firing a timer that is not due does nothing.
\<close>

datatype event = Elapse nat | Fire addr | Cancel addr

fun timer_event ::
  "'l uv_timer_api \<Rightarrow> ('l, 'u) callbacks \<Rightarrow> event \<Rightarrow> ('l, 'u) timers \<Rightarrow> ('l, 'u) timers option" where
  "timer_event uv run (Elapse ms) w = Some (w\<lparr>loop := uv_elapse uv ms (loop w)\<rparr>)"
| "timer_event uv run (Fire a) w =
     (if uv_due uv a (loop w) then timer_callback uv run a (w\<lparr>loop := uv_rearm uv a (loop w)\<rparr>) else Some w)"
| "timer_event uv run (Cancel a) w = unschedule uv a w"

fun timer_events ::
  "'l uv_timer_api \<Rightarrow> ('l, 'u) callbacks \<Rightarrow> event list \<Rightarrow> ('l, 'u) timers \<Rightarrow> ('l, 'u) timers option" where
  "timer_events uv run [] w = Some w"
| "timer_events uv run (e # es) w = timer_event uv run e w \<bind> timer_events uv run es"

lemma timer_events_Nil [simp]: "m \<bind> timer_events uv run [] = m"
  by (cases m) auto

lemma timer_events_append:
  "timer_events uv run (es @ es') w = timer_events uv run es w \<bind> timer_events uv run es'"
  by (induction es arbitrary: w) (auto split: bind_split)

section \<open>How often a timer fires\<close>

text \<open>
  What every callback that only uses this interface does to the other timers: it leaves a block as it
  is, or cancels it, or creates it; it does not run callbacks itself.
\<close>

definition uses_interface :: "('l, 'u) callbacks \<Rightarrow> bool" where
  "uses_interface run \<longleftrightarrow> (\<forall>cb d w w'. run cb d w = Some w' \<longrightarrow> calls w' = calls w \<and> fresh w \<le> fresh w' \<and>
     (\<forall>a < fresh w. heap w' a = heap w a \<or> heap w' a = None))"

definition calls_of :: "addr \<Rightarrow> ('l, 'u) timers \<Rightarrow> nat" where
  "calls_of a w = length (filter (\<lambda>(b, _). b = a) (calls w))"

text \<open>The calls made and the calls left of a timer add up to its repeat count.\<close>

definition within_count :: "addr \<Rightarrow> int \<Rightarrow> ('l, 'u) timers \<Rightarrow> bool" where
  "within_count a n w \<longleftrightarrow> a < fresh w \<and>
     (case heap w a of Some t \<Rightarrow> 0 \<le> t_repeat t \<and> int (calls_of a w) + t_repeat t = n
      | None \<Rightarrow> int (calls_of a w) \<le> n)"

lemma invoke_cases:
  assumes "uses_interface run" "invoke run b t w = Some w'" "a < fresh w"
  shows "calls_of a w' = calls_of a w + (if a = b then 1 else 0)" "a < fresh w'"
    "heap w' a = heap w a \<or> heap w' a = None"
  using assms by (fastforce simp: uses_interface_def invoke_def calls_of_def)+

lemma free_timer_heap:
  "free_timer b w = Some w' \<Longrightarrow>
   w' = w\<lparr>heap := (heap w)(b := None)\<rparr> \<and> heap w b \<noteq> None"
  by (auto simp: free_timer_def split: if_splits)

lemma calls_of_update [simp]:
  "calls_of a (w\<lparr>heap := h\<rparr>) = calls_of a w" "calls_of a (w\<lparr>loop := l\<rparr>) = calls_of a w"
  by (simp_all add: calls_of_def)

lemma within_count_loop [simp]: "within_count a n (w\<lparr>loop := l\<rparr>) = within_count a n w"
  by (simp add: within_count_def split: option.split)

lemma within_count_freed: "within_count a n w \<Longrightarrow> within_count a n (w\<lparr>heap := (heap w)(b := None)\<rparr>)"
  by (auto simp: within_count_def split: option.splits)

lemma within_count_callback:
  assumes run: "uses_interface run" and count: "within_count a n w" and ok: "timer_callback uv run b w = Some w'"
  shows "within_count a n w'"
proof -
  obtain t where t: "heap w b = Some t" using ok by (auto simp: timer_callback_def split: option.splits)
  have a: "a < fresh w" using count by (simp add: within_count_def)
  consider "t_repeat t > 0" | "t_repeat t = 0" | "t_repeat t < 0" by linarith
  then show ?thesis
  proof cases
    case 1
    then obtain w1 t1 where w1: "invoke run b t w = Some w1" "heap w1 b = Some t1"
        "w' = w1\<lparr>heap := (heap w1)(b \<mapsto> t1\<lparr>t_repeat := t_repeat t1 - 1\<rparr>)\<rparr>"
      using ok t by (auto simp: timer_callback_def split: bind_splits)
    show ?thesis
      using invoke_cases [OF run w1(1) a] w1(2,3) count t 1
      by (auto simp: within_count_def split: option.splits if_splits)
  next
    case 2
    then show ?thesis using ok t count
      by (auto simp: timer_callback_def within_count_def dest!: free_timer_heap split: option.splits if_splits)
  next
    case 3
    then have w': "invoke run b t w = Some w'" using ok t by (auto simp: timer_callback_def)
    have "a \<noteq> b" using 3 t count by (auto simp: within_count_def)
    then show ?thesis using invoke_cases [OF run w' a] count
      by (auto simp: within_count_def split: option.splits)
  qed
qed

lemma within_count_event:
  assumes "uses_interface run" "within_count a n w" "timer_event uv run e w = Some w'"
  shows "within_count a n w'"
proof (cases e)
  case (Elapse ms)
  then show ?thesis using assms by auto
next
  case (Fire b)
  have "within_count a n (w\<lparr>loop := uv_rearm uv b (loop w)\<rparr>)" using assms(2) by simp
  from within_count_callback [OF assms(1) this] show ?thesis using assms(2,3) Fire
    by (simp split: if_splits)
next
  case (Cancel b)
  then show ?thesis using assms
    by (auto simp: unschedule_def within_count_def dest!: free_timer_heap split: option.splits if_splits)
qed

lemma within_count_schedule:
  assumes "schedule uv cb d after iv n w = Some (a, w')" "0 \<le> n" "calls_of a w = 0"
  shows "within_count a n w'"
  using assms by (auto simp: schedule_def alloc_timer_def within_count_def Let_def calls_of_def
      split: prod.splits option.splits if_splits)

text \<open>C20 (invariant): whatever the loop and the callbacks do afterwards, cancellations included, a
  timer scheduled with a repeat count of n calls its callback at most n times.\<close>

theorem timer_calls_bounded:
  assumes "uses_interface run" "0 \<le> n" "calls_of a w = 0"
    and "schedule uv cb d after iv n w = Some (a, w0)" "timer_events uv run es w0 = Some w'"
  shows "int (calls_of a w') \<le> n"
proof -
  have "timer_events uv run es v = Some w' \<Longrightarrow> within_count a n v \<Longrightarrow> within_count a n w'" for v
    using within_count_event [OF assms(1)]
    by (induction es arbitrary: v) (auto split: bind_splits)
  then have "within_count a n w'" using within_count_schedule assms by blast
  then show ?thesis by (auto simp: within_count_def split: option.splits)
qed

text \<open>A loop that is the map from its timers to remaining times and intervals.\<close>

definition uv_example :: "(addr \<rightharpoonup> nat \<times> nat) uv_timer_api" where
  "uv_example = \<lparr>uv_init = \<lambda>a l. l(a := None), uv_start = \<lambda>a after rep l. l(a \<mapsto> (after, rep)),
     uv_stop = \<lambda>a l. l(a := None), uv_elapse = \<lambda>ms l. map_option (map_prod (\<lambda>d. d - ms) id) \<circ> l,
     uv_rearm = \<lambda>a l. l(a := l a \<bind> rearmed), uv_timer = \<lambda>l. l\<rparr>"

lemma uv_example_documented: "uv_documented uv_example"
  by (simp add: uv_documented_def uv_example_def)

definition idle_loop :: "(addr \<rightharpoonup> nat \<times> nat, unit) timers" where
  "idle_loop = \<lparr>heap = Map.empty, fresh = 1, malloc_fails = False, loop = Map.empty, handles = {},
     calls = [], user = ()\<rparr>"

definition quiet :: "('l, 'u) callbacks" where "quiet cb d w = Some w"

lemmas timer_eval = schedule_def alloc_timer_def idle_loop_def timer_callback_def invoke_def quiet_def
  free_timer_def uv_example_def uv_due_def rearmed_def Let_def

lemma timer_calls_bounded_witness:
  "\<exists>w0 w'. schedule uv_example 7 0 5 10 2 idle_loop = Some (1, w0) \<and>
     timer_events uv_example quiet [Elapse 5, Fire 1, Elapse 10, Fire 1, Elapse 10, Fire 1, Fire 1] w0 = Some w' \<and>
     int (calls_of 1 w') \<le> 2"
proof -
  let ?es = "[Elapse 5, Fire 1, Elapse 10, Fire 1, Elapse 10, Fire 1, Fire 1]"
  obtain w0 where w0: "schedule uv_example 7 0 5 10 2 idle_loop = Some (1, w0)" and
    ex: "\<exists>w'. timer_events uv_example quiet ?es w0 = Some w'"
    by (simp add: timer_eval)
  then obtain w' where w': "timer_events uv_example quiet ?es w0 = Some w'" by blast
  have "uses_interface (quiet :: (addr \<rightharpoonup> nat \<times> nat, unit) callbacks)" "calls_of 1 idle_loop = 0"
    by (simp_all add: uses_interface_def quiet_def calls_of_def idle_loop_def)
  from timer_calls_bounded [OF this(1) _ this(2) w0 w'] show ?thesis using w0 w' by auto
qed

section \<open>A timer completes\<close>

text \<open>A callback that returns and touches neither the timer \<open>a\<close> nor the clock.\<close>

definition leaves_alone :: "'l uv_timer_api \<Rightarrow> ('l, 'u) callbacks \<Rightarrow> addr \<Rightarrow> bool" where
  "leaves_alone uv run a \<longleftrightarrow> (\<forall>cb d w. \<exists>w'. run cb d w = Some w' \<and> heap w' a = heap w a \<and>
     uv_timer uv (loop w') a = uv_timer uv (loop w) a \<and> calls w' = calls w)"

text \<open>The timer is started, and due after \<open>delay\<close>.\<close>

definition armed :: "'l uv_timer_api \<Rightarrow> addr \<Rightarrow> timer_data \<Rightarrow> nat \<Rightarrow> nat \<Rightarrow> ('l, 'u) timers \<Rightarrow> bool" where
  "armed uv a t delay iv w \<longleftrightarrow> heap w a = Some t \<and> uv_timer uv (loop w) a = Some (delay, iv)"

definition wait_fire :: "nat \<Rightarrow> addr \<Rightarrow> event list" where
  "wait_fire delay a = [Elapse delay, Fire a]"

lemma wait_fire_armed:
  assumes "uv_documented uv" "armed uv a t delay iv w" "0 < iv"
  shows "\<exists>l. timer_events uv run (wait_fire delay a) w = timer_callback uv run a (w\<lparr>loop := l\<rparr>) \<and>
    uv_timer uv l a = Some (iv, iv)"
proof -
  let ?l = "uv_elapse uv delay (loop w)"
  have "uv_timer uv ?l a = Some (0, iv)"
    using assms(1,2) by (simp add: uv_documented_def armed_def)
  moreover have "uv_timer uv (uv_rearm uv a l) a = uv_timer uv l a \<bind> rearmed" for l
    using assms(1) by (simp add: uv_documented_def)
  ultimately have "uv_due uv a ?l" "uv_timer uv (uv_rearm uv a ?l) a = Some (iv, iv)"
    using assms(3) by (simp_all add: uv_due_def rearmed_def)
  then show ?thesis by (auto simp: wait_fire_def)
qed

text \<open>One firing, from what the callback does in the state it is called in.\<close>

lemma armed_fires_at:
  assumes "uv_documented uv" "armed uv a t delay iv w" "0 < iv" "0 < t_repeat t"
    and "\<And>v. user v = user w \<Longrightarrow>
      \<exists>w1. run (t_callback t) (t_data t) v = Some w1 \<and> heap w1 a = heap v a \<and>
        uv_timer uv (loop w1) a = uv_timer uv (loop v) a \<and> calls w1 = calls v \<and> P (user w1)"
  shows "\<exists>w'. timer_events uv run (wait_fire delay a) w = Some w' \<and>
     armed uv a (t\<lparr>t_repeat := t_repeat t - 1\<rparr>) iv iv w' \<and>
     calls w' = calls w @ [(a, t_callback t, t_data t)] \<and> P (user w')"
proof -
  obtain l where l: "timer_events uv run (wait_fire delay a) w = timer_callback uv run a (w\<lparr>loop := l\<rparr>)"
      "uv_timer uv l a = Some (iv, iv)"
    using wait_fire_armed [OF assms(1-3)] by blast
  define v where "v = w\<lparr>loop := l, calls := calls w @ [(a, t_callback t, t_data t)]\<rparr>"
  obtain w1 where w1: "run (t_callback t) (t_data t) v = Some w1" "heap w1 a = heap v a"
      "uv_timer uv (loop w1) a = uv_timer uv (loop v) a" "calls w1 = calls v" "P (user w1)"
    using assms(5) [of v] by (auto simp: v_def)
  have "timer_callback uv run a (w\<lparr>loop := l\<rparr>) =
      Some (w1\<lparr>heap := (heap w1)(a \<mapsto> t\<lparr>t_repeat := t_repeat t - 1\<rparr>)\<rparr>)"
    using assms(2,4) w1(1,2) by (simp add: timer_callback_def invoke_def armed_def v_def)
  then show ?thesis using l w1 by (simp add: armed_def v_def)
qed

lemma armed_fires:
  assumes "uv_documented uv" "armed uv a t delay iv w" "leaves_alone uv run a" "0 < iv" "0 < t_repeat t"
  shows "\<exists>w'. timer_events uv run (wait_fire delay a) w = Some w' \<and>
     armed uv a (t\<lparr>t_repeat := t_repeat t - 1\<rparr>) iv iv w' \<and>
     calls w' = calls w @ [(a, t_callback t, t_data t)]"
  using armed_fires_at [OF assms(1,2,4,5), of run "\<lambda>_. True"] assms(3)
  by (simp add: leaves_alone_def)

lemma armed_frees:
  assumes "uv_documented uv" "armed uv a t delay iv w" "0 < iv" "t_repeat t = 0"
  shows "\<exists>w'. timer_events uv run (wait_fire delay a) w = Some w' \<and> heap w' a = None \<and>
     uv_timer uv (loop w') a = None \<and> calls w' = calls w \<and> user w' = user w"
proof -
  obtain l where "timer_events uv run (wait_fire delay a) w = timer_callback uv run a (w\<lparr>loop := l\<rparr>)"
    using wait_fire_armed [OF assms(1-3)] by blast
  then show ?thesis using assms by (simp add: timer_callback_def armed_def free_timer_def uv_documented_def)
qed

lemma armed_completes:
  assumes "uv_documented uv" "leaves_alone uv run a" "0 < iv"
  shows "armed uv a t delay iv w \<Longrightarrow> t_repeat t = int n \<Longrightarrow>
    \<exists>w'. timer_events uv run (wait_fire delay a @ concat (replicate n (wait_fire iv a))) w = Some w' \<and>
      heap w' a = None \<and> uv_timer uv (loop w') a = None \<and>
      calls w' = calls w @ replicate n (a, t_callback t, t_data t)"
proof (induction n arbitrary: t delay w)
  case 0
  then show ?case using armed_frees [OF assms(1) 0(1) assms(3), of run] by auto
next
  case (Suc n)
  obtain w1 where w1: "timer_events uv run (wait_fire delay a) w = Some w1"
      "armed uv a (t\<lparr>t_repeat := t_repeat t - 1\<rparr>) iv iv w1"
      "calls w1 = calls w @ [(a, t_callback t, t_data t)]"
    using armed_fires [OF assms(1) Suc.prems(1) assms(2,3)] Suc.prems(2) by auto
  obtain w2 where w2: "timer_events uv run (wait_fire iv a @ concat (replicate n (wait_fire iv a))) w1 = Some w2"
      "heap w2 a = None" "uv_timer uv (loop w2) a = None"
      "calls w2 = calls w1 @ replicate n (a, t_callback t, t_data t)"
    using Suc.IH [OF w1(2)] Suc.prems(2) by auto
  have "timer_events uv run (wait_fire delay a @ concat (replicate (Suc n) (wait_fire iv a))) w = Some w2"
    using w1(1) w2(1) by (simp add: timer_events_append)
  then show ?case using w1 w2 by auto
qed

lemma schedule_arms:
  assumes "schedule uv cb d after iv n w = Some (a, w')"
  shows "uv_documented uv \<Longrightarrow> armed uv a \<lparr>t_callback = cb, t_data = d, t_repeat = n\<rparr> after iv w'"
    "calls w' = calls w"
  using assms by (auto simp: schedule_def alloc_timer_def armed_def uv_documented_def Let_def
      split: prod.splits option.splits if_splits)

text \<open>C19 (liveness): a timer scheduled n times with a positive interval, whose callback leaves it
  alone, calls its callback exactly n times as its due times pass, and is then stopped and freed, one
  interval after the last call.\<close>

theorem timer_completes:
  assumes "uv_documented uv" "leaves_alone uv run a" "0 < iv"
    and "schedule uv cb d after iv (int n) w = Some (a, w0)"
  shows "\<exists>w'. timer_events uv run (wait_fire after a @ concat (replicate n (wait_fire iv a))) w0 = Some w' \<and>
     heap w' a = None \<and> uv_timer uv (loop w') a = None \<and> calls w' = calls w @ replicate n (a, cb, d)"
  using armed_completes [OF assms(1-3) schedule_arms(1) [OF assms(4,1)]] schedule_arms(2) [OF assms(4)]
  by auto

lemma timer_completes_witness:
  "\<exists>w0 w'. schedule_once uv_example 7 0 5 idle_loop = Some (1, w0) \<and>
     timer_events uv_example quiet (wait_fire 5 1 @ wait_fire 1000 1) w0 = Some w' \<and>
     heap w' 1 = None \<and> calls w' = [(1, 7, 0)]"
proof -
  obtain w0 where w0: "schedule uv_example 7 0 5 1000 (int 1) idle_loop = Some (1, w0)"
    by (simp add: timer_eval)
  have "leaves_alone uv_example quiet 1" by (simp add: leaves_alone_def quiet_def)
  from timer_completes [OF uv_example_documented this _ w0] w0 show ?thesis
    by (auto simp: schedule_once_def idle_loop_def)
qed

section \<open>Cancelling a timer from its own callback\<close>

text \<open>A callback that cancels the timer whose address is its data.\<close>

definition cancel_self :: "'l uv_timer_api \<Rightarrow> ('l, 'u) callbacks" where
  "cancel_self uv cb d w = unschedule uv d w"

text \<open>A callback that cancels its own timer frees the block that \<open>timer_callback\<close> then
  writes to: undefined for every counted timer, while one that repeats for ever is freed properly.\<close>

theorem cancel_in_callback:
  assumes "heap w a = Some t" "t_data t = a" "t_repeat t \<noteq> 0"
  shows "timer_callback uv (cancel_self uv) a w =
     (if t_repeat t > 0 then None
      else Some (w\<lparr>heap := (heap w)(a := None), loop := uv_stop uv a (loop w),
        calls := calls w @ [(a, t_callback t, a)]\<rparr>))"
  using assms by (simp add: timer_callback_def invoke_def cancel_self_def unschedule_def free_timer_def)

lemma cancel_in_callback_witness:
  "\<exists>w0. schedule uv_example 7 1 5 1000 3 idle_loop = Some (1, w0) \<and>
     timer_callback uv_example (cancel_self uv_example) 1 w0 = None"
proof -
  obtain w0 where w0: "schedule uv_example 7 1 5 1000 3 idle_loop = Some (1, w0)"
      "heap w0 1 = Some \<lparr>t_callback = 7, t_data = 1, t_repeat = 3\<rparr>"
    by (simp add: timer_eval)
  from cancel_in_callback [OF w0(2), of uv_example] w0(1) show ?thesis by simp
qed

text \<open>The loop still lists the handle inside a block that was freed: no operation closes it.\<close>

lemma freed_handle_stays:
  assumes "unschedule uv a w = Some w'" "a \<in> handles w" "heap w' a = None"
  shows "a \<in> handles w'"
  using assms by (auto simp: unschedule_def dest!: free_timer_heap split: option.splits if_splits)

end
