(* ===== verification/Lua_Values.thy ===== *)
theory Lua_Values
  imports Prelude Complex_Main "HOL-Library.Multiset"
begin

text \<open>
  The Lua values the C++ code exchanges with scripts, and the conversions of the Lua 5.4 C interface it
  uses. A Lua number is an integer of 64 bits or a float, of which only the finite values are
  represented; a table is the list of its entries, latest first; a function or a
  userdata is a name. A string of the C++ code is a list of characters, a Lua string a list of bytes.
\<close>

section \<open>Values\<close>

text \<open>What a light userdata points to: using it as another type is undefined.\<close>

datatype pointer = Session_Ptr addr | Raw_Ptr addr | Timer_Ptr addr | Redis_Ptr addr | Mysql_Ptr addr

datatype lua_val = LNil | LBoolean bool | LInteger int | LNumber rat | LString "byte list" | LFunction nat
  | LTable "(lua_val \<times> lua_val) list" | LUserdata pointer

fun is_function :: "lua_val \<Rightarrow> bool" where
  "is_function (LFunction f) = True"
| "is_function _ = False"

fun is_table :: "lua_val \<Rightarrow> bool" where
  "is_table (LTable t) = True"
| "is_table _ = False"

text \<open>A string pushed by the C++ code; the bytes of its characters, so no two strings are confused.\<close>

definition lua_str :: "string \<Rightarrow> lua_val" where
  "lua_str s = LString (ascii s)"

text \<open>The C string in a Lua string.\<close>

definition c_string :: "byte list \<Rightarrow> string" where
  "c_string s = map (\<lambda>b. char_of (unat b)) (takeWhile (\<lambda>b. b \<noteq> 0) s)"

text \<open>The arguments of a C function called from Lua; an index past the last is no value.\<close>

definition lua_arg :: "lua_val list \<Rightarrow> nat \<Rightarrow> lua_val" where
  "lua_arg args i = (if 0 < i \<and> i \<le> length args then args ! (i - 1) else LNil)"

text \<open>\<open>t[k] = v\<close> and \<open>t[k]\<close>; assigning \<open>nil\<close> removes the entry.\<close>

definition table_set :: "lua_val \<Rightarrow> lua_val \<Rightarrow> (lua_val \<times> lua_val) list \<Rightarrow> (lua_val \<times> lua_val) list" where
  "table_set k v t =
     (if v = LNil then filter (\<lambda>(j, _). j \<noteq> k) t else (k, v) # filter (\<lambda>(j, _). j \<noteq> k) t)"

definition table_get :: "lua_val \<Rightarrow> (lua_val \<times> lua_val) list \<Rightarrow> lua_val" where
  "table_get k t = (case map_of t k of None \<Rightarrow> LNil | Some v \<Rightarrow> v)"

section \<open>Conversions\<close>

text \<open>
  What depends on the Lua library and on the floating point unit: how an integer is rounded to a
  \<open>lua_Number\<close>, how a \<open>lua_Number\<close> is rounded to a \<open>float\<close>, which strings are numbers, how a number is printed,
  and in which order \<open>lua_next\<close> visits the entries of a table.
\<close>

record lua_lib =
  to_double :: "int \<Rightarrow> rat"
  to_float :: "rat \<Rightarrow> rat"
  str2number :: "byte list \<Rightarrow> lua_val option"
  number2str :: "lua_val \<Rightarrow> byte list"
  next_order :: "(lua_val \<times> lua_val) list \<Rightarrow> (lua_val \<times> lua_val) list"
  table_len :: "(lua_val \<times> lua_val) list \<Rightarrow> nat"

text \<open>
  Integers of at most 53 bits are doubles; rounding to \<open>float\<close> a second time changes nothing; a printed integer is
  read back as that integer; \<open>lua_next\<close> visits every entry once, in no specified order; the length of a table
  is a border: the entry at it is there (unless it is 0), the one after it is not.
\<close>

definition lua_documented :: "lua_lib \<Rightarrow> bool" where
  "lua_documented lib \<longleftrightarrow>
     (\<forall>n. \<bar>n\<bar> \<le> 2 ^ 53 \<longrightarrow> to_double lib n = of_int n) \<and>
     (\<forall>x. to_float lib (to_float lib x) = to_float lib x) \<and>
     (\<forall>n. - (2 ^ 63) \<le> n \<and> n < 2 ^ 63 \<longrightarrow> str2number lib (ascii (dec_int n)) = Some (LInteger n)) \<and>
     (\<forall>t. mset (next_order lib t) = mset t) \<and>
     (\<forall>t. (table_len lib t = 0 \<or> table_get (LInteger (int (table_len lib t))) t \<noteq> LNil) \<and>
       table_get (LInteger (int (table_len lib t) + 1)) t = LNil)"

text \<open>A C cast of a \<open>double\<close> to an integer type drops the fraction; a result out of range is undefined.\<close>

definition c_cast :: "int \<Rightarrow> int \<Rightarrow> rat \<Rightarrow> int option" where
  "c_cast lo hi r = (let n = (if r < 0 then \<lceil>r\<rceil> else \<lfloor>r\<rfloor>) in if lo \<le> n \<and> n < hi then Some n else None)"

definition c_int32 :: "rat \<Rightarrow> int option" where "c_int32 = c_cast (- (2 ^ 31)) (2 ^ 31)"
definition c_uint32 :: "rat \<Rightarrow> int option" where "c_uint32 = c_cast 0 (2 ^ 32)"
definition c_int64 :: "rat \<Rightarrow> int option" where "c_int64 = c_cast (- (2 ^ 63)) (2 ^ 63)"
definition c_uint64 :: "rat \<Rightarrow> int option" where "c_uint64 = c_cast 0 (2 ^ 64)"

text \<open>Storing a \<open>lua_Integer\<close> in an \<open>int\<close> keeps its low 32 bits.\<close>

definition int32 :: "int \<Rightarrow> int" where
  "int32 n = (n + 2 ^ 31) mod 2 ^ 32 - 2 ^ 31"

text \<open>The number a value stands for, as \<open>lua_tonumber\<close> and \<open>lua_tointeger\<close> see it.\<close>

definition to_number :: "lua_lib \<Rightarrow> lua_val \<Rightarrow> lua_val option" where
  "to_number lib v =
     (case v of LInteger n \<Rightarrow> Some v | LNumber r \<Rightarrow> Some v | LString s \<Rightarrow> str2number lib s | _ \<Rightarrow> None)"

definition lua_isnumber :: "lua_lib \<Rightarrow> lua_val \<Rightarrow> bool" where
  "lua_isnumber lib v \<longleftrightarrow> to_number lib v \<noteq> None"

definition number_double :: "lua_lib \<Rightarrow> lua_val \<Rightarrow> rat" where
  "number_double lib v = (case v of LInteger n \<Rightarrow> to_double lib n | LNumber r \<Rightarrow> r | _ \<Rightarrow> 0)"

definition lua_tonumber :: "lua_lib \<Rightarrow> lua_val \<Rightarrow> rat" where
  "lua_tonumber lib v = (case to_number lib v of None \<Rightarrow> 0 | Some x \<Rightarrow> number_double lib x)"

definition tolua_tonumber :: "lua_lib \<Rightarrow> lua_val \<Rightarrow> rat" where
  "tolua_tonumber lib v = lua_tonumber lib v"

text \<open>A float without a fraction converts to an integer; any other value that does not is 0.\<close>

definition number_integer :: "lua_val \<Rightarrow> int option" where
  "number_integer v = (case v of LInteger n \<Rightarrow> Some n
     | LNumber r \<Rightarrow> if of_int \<lfloor>r\<rfloor> = r \<and> - (2 ^ 63) \<le> \<lfloor>r\<rfloor> \<and> \<lfloor>r\<rfloor> < 2 ^ 63 then Some \<lfloor>r\<rfloor> else None
     | _ \<Rightarrow> None)"

definition lua_tointeger :: "lua_lib \<Rightarrow> lua_val \<Rightarrow> int" where
  "lua_tointeger lib v = (case Option.bind (to_number lib v) number_integer of None \<Rightarrow> 0 | Some n \<Rightarrow> n)"

fun lua_toboolean :: "lua_val \<Rightarrow> bool" where
  "lua_toboolean LNil = False"
| "lua_toboolean (LBoolean b) = b"
| "lua_toboolean _ = True"

text \<open>\<open>lua_tostring\<close>: \<open>NULL\<close> for a value that is neither a string nor a number.\<close>

definition lua_tostring :: "lua_lib \<Rightarrow> lua_val \<Rightarrow> byte list option" where
  "lua_tostring lib v = (case v of LString s \<Rightarrow> Some s
     | LInteger n \<Rightarrow> Some (number2str lib v) | LNumber r \<Rightarrow> Some (number2str lib v) | _ \<Rightarrow> None)"

text \<open>\<open>tolua_touserdata\<close> of a light userdata, which is all the program pushes; \<open>NULL\<close> for other values.\<close>

definition tolua_touserdata :: "lua_val \<Rightarrow> pointer option" where
  "tolua_touserdata v = (case v of LUserdata p \<Rightarrow> Some p | _ \<Rightarrow> None)"

section \<open>Results of C functions called from Lua\<close>

text \<open>\<open>lua_error\<close> leaves the C function at once, with a message; \<open>Bad_Argument\<close> is the same, raised by a
  \<open>luaL_check\<close> function.\<close>

datatype 'a lua_result = Lua_Error string | Bad_Argument | Returned 'a

section \<open>A concrete library\<close>

text \<open>
  For the witnesses: numbers are not rounded, and a string is a number when it is the decimal print of one.
\<close>

definition read_dec :: "byte list \<Rightarrow> int" where
  "read_dec s = fold (\<lambda>b n. 10 * n + (uint b - 48)) s 0"

definition read_dec_int :: "byte list \<Rightarrow> int" where
  "read_dec_int s = (case s of b # s' \<Rightarrow> if b = 45 then - read_dec s' else read_dec s | [] \<Rightarrow> 0)"

text \<open>The first border.\<close>

definition table_border :: "(lua_val \<times> lua_val) list \<Rightarrow> nat" where
  "table_border t = length (takeWhile (\<lambda>i. table_get (LInteger (int i)) t \<noteq> LNil) [1..<2 + length t])"

definition lib_example :: lua_lib where
  "lib_example = \<lparr>to_double = of_int, to_float = id,
     str2number = (\<lambda>s. if s = ascii (dec_int (read_dec_int s)) then Some (LInteger (read_dec_int s)) else None),
     number2str = (\<lambda>v. case v of LInteger n \<Rightarrow> ascii (dec_int n) | _ \<Rightarrow> []), next_order = id,
     table_len = table_border\<rparr>"

section \<open>Lemmas\<close>

lemma inj_ascii: "inj ascii"
proof -
  have "word_of_nat (of_char c) = (word_of_nat (of_char d) :: byte) \<longleftrightarrow> c = d" for c d :: char
    using of_char_eq_iff [of c d] by (simp add: word_of_nat_eq_iff take_bit_nat_eq_self)
  then have "inj (\<lambda>c. word_of_nat (of_char c) :: byte)" by (auto simp: inj_def)
  then show ?thesis unfolding ascii_def [abs_def] by (rule inj_mapI)
qed

lemma c_string_ascii: "\<forall>c \<in> set s. c \<noteq> CHR 0x00 \<Longrightarrow> c_string (ascii s) = s"
proof (induction s)
  case (Cons c s)
  have "unat (word_of_nat (of_char c) :: byte) = of_char c"
    by (simp add: unat_of_nat take_bit_nat_eq_self)
  moreover have "of_char c \<noteq> (0 :: nat)" using Cons(2) of_char_eq_iff [of c "CHR 0x00", where ?'a = nat] by simp
  then have "(word_of_nat (of_char c) :: byte) \<noteq> 0" using calculation by (metis unat_0)
  ultimately show ?case using Cons by (simp add: c_string_def ascii_def)
qed (simp add: c_string_def ascii_def)

lemma lua_str_eq [simp]: "lua_str s = lua_str t \<longleftrightarrow> s = t"
  using inj_ascii by (auto simp: lua_str_def dest: injD)

lemma lua_str_not_nil [simp]: "lua_str s \<noteq> LNil"
  by (simp add: lua_str_def)

lemma c_cast_int: "lo \<le> n \<Longrightarrow> n < hi \<Longrightarrow> c_cast lo hi (of_int n) = Some n"
  by (simp add: c_cast_def)

lemma int32_id: "- (2 ^ 31) \<le> n \<Longrightarrow> n < 2 ^ 31 \<Longrightarrow> int32 n = n"
  by (simp add: int32_def)

lemma table_get_set: "table_get k (table_set j v t) = (if k = j then v else table_get k t)"
proof -
  have "map_of (filter (\<lambda>(i, _). i \<noteq> j) t) k = (if k = j then None else map_of t k)"
    by (induction t) auto
  then show ?thesis by (cases "k = j") (simp_all add: table_get_def table_set_def)
qed

lemma table_get_empty [simp]: "table_get k [] = LNil"
  by (simp add: table_get_def)

text \<open>A printed number is read back.\<close>

lemma ascii_append [simp]: "ascii (s @ t) = ascii s @ ascii t"
  by (simp add: ascii_def)

lemma uint_digit: "n < 10 \<Longrightarrow> uint (48 + word_of_nat n :: byte) = 48 + int n"
proof -
  assume "n < 10"
  then have "n \<in> {0, 1, 2, 3, 4, 5, 6, 7, 8, 9}" by auto
  then show ?thesis by auto
qed

lemma read_dec_dec: "read_dec (ascii (dec n)) = int n"
proof (induction n rule: dec.induct)
  case (1 n)
  show ?case
  proof (cases "n < 10")
    case True
    then show ?thesis by (subst dec.simps) (simp add: read_dec_def ascii_def uint_digit)
  next
    case False
    moreover have "int (n mod 10) + 10 * int (n div 10) = int n"
      by (metis div_mult_mod_eq mult.commute add.commute of_nat_add of_nat_mult of_nat_numeral)
    ultimately show ?thesis using 1 by (subst dec.simps) (simp add: read_dec_def ascii_def uint_digit)
  qed
qed

lemma dec_head: "\<exists>k r. k < 10 \<and> dec n = char_of (48 + k :: nat) # r"
proof (induction n rule: dec.induct)
  case (1 n)
  then show ?case by (cases "n < 10") (force simp: dec.simps [of n])+
qed

lemma read_dec_int: "read_dec_int (ascii (dec_int n)) = n"
proof (cases "n < 0")
  case True
  then show ?thesis using read_dec_dec [of "nat (- n)"]
    by (simp add: read_dec_int_def dec_int_def) (simp add: ascii_def)
next
  case False
  obtain k r where k: "k < 10" "dec (nat \<bar>n\<bar>) = char_of (48 + k :: nat) # r" using dec_head by blast
  have "k \<in> {0, 1, 2, 3, 4, 5, 6, 7, 8, 9}" using k(1) by auto
  then have "(3 + word_of_nat k :: byte) \<noteq> 0" by auto
  then show ?thesis using False k read_dec_dec [of "nat \<bar>n\<bar>"]
    by (simp add: read_dec_int_def dec_int_def ascii_def)
qed

lemma table_border_ok:
  "table_border t = 0 \<or> table_get (LInteger (int (table_border t))) t \<noteq> LNil"
  "table_get (LInteger (int (table_border t) + 1)) t = LNil"
proof -
  let ?P = "\<lambda>i. table_get (LInteger (int i)) t \<noteq> LNil" and ?l = "[1..<2 + length t]"
  let ?n = "table_border t"
  have n: "?n \<le> length ?l" unfolding table_border_def by (rule length_takeWhile_le)
  have at: "?l ! i = i + 1" if "i < length t + 1" for i
    using that nth_upt [of 1 i "2 + length t"] by (simp del: upt_Suc)
  have len: "length ?l = length t + 1" by (simp del: upt_Suc)
  have pre: "?P (i + 1)" if "i < ?n" for i
  proof -
    have "takeWhile ?P ?l ! i \<in> set (takeWhile ?P ?l)" using that by (simp add: table_border_def del: upt_Suc)
    then have "?P (takeWhile ?P ?l ! i)" by (rule set_takeWhileD [THEN conjunct2])
    moreover have "takeWhile ?P ?l ! i = ?l ! i" using that by (intro takeWhile_nth) (simp add: table_border_def)
    moreover have "i < length t + 1" using that n len by simp
    ultimately show ?thesis using at [of i] by (simp del: upt_Suc)
  qed
  show "?n = 0 \<or> ?P ?n" using pre [of "?n - 1"] by (cases ?n) auto
  have small: "?n \<le> length t"
  proof (rule ccontr)
    assume "\<not> ?n \<le> length t"
    then have "LInteger (int i + 1) \<in> fst ` set t" if "i < length t + 1" for i
      using pre [of i] that by (force simp: table_get_def add.commute dest: map_of_SomeD split: option.splits)
    then have "(\<lambda>i. LInteger (int i + 1)) ` {..<length t + 1} \<subseteq> fst ` set t" by auto
    then have "card ((\<lambda>i. LInteger (int i + 1)) ` {..<length t + 1}) \<le> card (fst ` set t)"
      by (intro card_mono) auto
    moreover have "card ((\<lambda>i. LInteger (int i + 1)) ` {..<length t + 1}) = length t + 1"
      by (subst card_image) (auto simp: inj_on_def)
    ultimately show False using card_image_le [of "set t" fst] card_length [of t] by simp
  qed
  then have "\<not> ?P (?l ! ?n)" using nth_length_takeWhile [of ?P ?l] small len
    by (simp add: table_border_def del: upt_Suc)
  then show "table_get (LInteger (int ?n + 1)) t = LNil" using small at [of ?n] by (simp add: add.commute)
qed

lemma lib_example_documented: "lua_documented lib_example"
  using table_border_ok by (simp add: lua_documented_def lib_example_def read_dec_int)

text \<open>The numbers a script passes: integers that fit an \<open>int\<close>.\<close>

definition int_args :: "int list \<Rightarrow> bool" where
  "int_args ns \<longleftrightarrow> (\<forall>n \<in> set ns. - (2 ^ 31) \<le> n \<and> n < 2 ^ 31)"

lemma c_int32_arg:
  assumes "lua_documented lib" "- (2 ^ 31) \<le> n" "n < 2 ^ 31"
  shows "c_int32 (tolua_tonumber lib (LInteger n)) = Some n"
proof -
  have "\<bar>n\<bar> \<le> 2 ^ 53" using assms(2,3) by simp
  then have "to_double lib n = of_int n" using assms(1) by (simp add: lua_documented_def)
  then show ?thesis using c_cast_int [OF assms(2,3)]
    by (simp add: tolua_tonumber_def lua_tonumber_def to_number_def number_double_def c_int32_def)
qed

end
