(* ===== verification/Scheduler.thy ===== *)
theory Scheduler
  imports Time_List Lua_Values
begin

text \<open>
  The Lua scheduler of lua_wrapper/scheduler_export_to_lua.cc: Lua functions as callbacks of the
  timers of Time_List. Functions are kept in the table of references of vendor/tolua/tolua_fix.cc, and
  each timer has a small block with the reference and a count of its own. What a Lua function
  does is the argument \<open>script\<close>, a map on states that may call the scheduler again.
\<close>

section \<open>State\<close>

record lua_schedule_data =
  ls_handle :: nat
  ls_repeat :: int

text \<open>
  The references to Lua functions (reference 0 is none), the blocks, and the functions executed so far.
\<close>

record lua_user =
  s_function_ref_id :: nat
  refid_fun :: "nat \<rightharpoonup> nat"
  ldata :: "addr \<rightharpoonup> lua_schedule_data"
  ldata_fresh :: addr
  executed :: "nat list"

type_synonym 'l lua_world = "('l, lua_user) timers"

type_synonym 'l script = "nat \<Rightarrow> 'l lua_world \<Rightarrow> 'l lua_world option"

section \<open>References to functions\<close>

definition toluafix_ref_function :: "lua_val \<Rightarrow> 'l lua_world \<Rightarrow> nat \<times> 'l lua_world" where
  "toluafix_ref_function v w =
     (case v of
        LFunction f \<Rightarrow>
          let u = user w; r = Suc (s_function_ref_id u) in
            (r, w\<lparr>user := u\<lparr>s_function_ref_id := r, refid_fun := (refid_fun u)(r \<mapsto> f)\<rparr>\<rparr>)
      | _ \<Rightarrow> (0, w))"

definition scheduler_remove_handler :: "nat \<Rightarrow> 'l lua_world \<Rightarrow> 'l lua_world" where
  "scheduler_remove_handler h w = w\<lparr>user := (user w)\<lparr>refid_fun := (refid_fun (user w))(h := None)\<rparr>\<rparr>"

text \<open>A reference that names no function is reported in the log and nothing is called.\<close>

definition scheduler_execute_handler :: "'l script \<Rightarrow> nat \<Rightarrow> 'l lua_world \<Rightarrow> 'l lua_world option" where
  "scheduler_execute_handler script h w =
     (case refid_fun (user w) h of None \<Rightarrow> Some w
      | Some f \<Rightarrow> script f (w\<lparr>user := (user w)\<lparr>executed := executed (user w) @ [f]\<rparr>\<rparr>))"

section \<open>The callbacks\<close>

definition ldata_free :: "addr \<Rightarrow> 'l lua_world \<Rightarrow> 'l lua_world option" where
  "ldata_free d w =
     (if ldata (user w) d = None then None
      else Some (w\<lparr>user := (user w)\<lparr>ldata := (ldata (user w))(d := None)\<rparr>\<rparr>))"

definition lua_scheduler_callback :: "'l script \<Rightarrow> addr \<Rightarrow> 'l lua_world \<Rightarrow> 'l lua_world option" where
  "lua_scheduler_callback script d w =
     do { t \<leftarrow> ldata (user w) d;
          w \<leftarrow> scheduler_execute_handler script (ls_handle t) w;
          t \<leftarrow> ldata (user w) d;
          if ls_repeat t = - 1 then Some w
          else do {
            let t = t\<lparr>ls_repeat := ls_repeat t - 1\<rparr>;
            let w = w\<lparr>user := (user w)\<lparr>ldata := (ldata (user w))(d \<mapsto> t)\<rparr>\<rparr>;
            if ls_repeat t = 0 then ldata_free d (scheduler_remove_handler (ls_handle t) w) else Some w } }"

definition lua_scheduler_once_callback :: "'l script \<Rightarrow> addr \<Rightarrow> 'l lua_world \<Rightarrow> 'l lua_world option" where
  "lua_scheduler_once_callback script d w =
     do { t \<leftarrow> ldata (user w) d;
          w \<leftarrow> scheduler_execute_handler script (ls_handle t) w;
          t \<leftarrow> ldata (user w) d;
          ldata_free d (scheduler_remove_handler (ls_handle t) w) }"

text \<open>The two C functions passed to \<open>schedule\<close> are the callbacks 1 and 2.\<close>

definition lua_callbacks :: "'l script \<Rightarrow> ('l, lua_user) callbacks" where
  "lua_callbacks script cb d w =
     (if cb = 1 then lua_scheduler_callback script d w
      else if cb = 2 then lua_scheduler_once_callback script d w else None)"

section \<open>The functions called from Lua\<close>

text \<open>
  The result is the list of values returned to Lua. On the failure path \<open>nil\<close> is pushed but the
  number of results is 0.
\<close>

definition lua_failed :: "nat \<Rightarrow> 'l lua_world \<Rightarrow> (lua_val list \<times> 'l lua_world) option" where
  "lua_failed h w = Some ([], if h \<noteq> 0 then scheduler_remove_handler h w else w)"

definition new_ldata :: "nat \<Rightarrow> int \<Rightarrow> 'l lua_world \<Rightarrow> (addr \<times> 'l lua_world) option" where
  "new_ldata h repeat w =
     (if malloc_fails w then None
      else let u = user w; d = ldata_fresh u in
        Some (d, w\<lparr>user := u\<lparr>ldata := (ldata u)(d \<mapsto> \<lparr>ls_handle = h, ls_repeat = repeat\<rparr>),
                             ldata_fresh := Suc d\<rparr>\<rparr>))"

definition lua_scheduler_schedule ::
  "lua_lib \<Rightarrow> 'l uv_timer_api \<Rightarrow> lua_val list \<Rightarrow> 'l lua_world \<Rightarrow> (lua_val list \<times> 'l lua_world) option" where
  "lua_scheduler_schedule lib uv args w =
     (let (h, w) = toluafix_ref_function (lua_arg args 1) w in
      if h = 0 then lua_failed h w
      else do {
        after_ms \<leftarrow> c_int32 (tolua_tonumber lib (lua_arg args 2));
        if after_ms < 0 then lua_failed h w
        else do {
          repeat_interval_ms \<leftarrow> c_int32 (tolua_tonumber lib (lua_arg args 3));
          if repeat_interval_ms < 0 then lua_failed h w
          else do {
            n \<leftarrow> c_int32 (tolua_tonumber lib (lua_arg args 4));
            let repeat = (if n < 0 then - 1 else n);
            (d, w) \<leftarrow> new_ldata h repeat w;
            (a, w) \<leftarrow> schedule uv 1 d (nat after_ms) (nat repeat_interval_ms) repeat w;
            Some ([LUserdata (Timer_Ptr a)], w) } } })"

definition lua_scheduler_unschedule ::
  "'l uv_timer_api \<Rightarrow> lua_val list \<Rightarrow> 'l lua_world \<Rightarrow> (lua_val list \<times> 'l lua_world) option" where
  "lua_scheduler_unschedule uv args w =
     (case lua_arg args 1 of
        LUserdata (Timer_Ptr a) \<Rightarrow> map_option (\<lambda>w. ([], w)) (unschedule uv a w)
      | LUserdata _ \<Rightarrow> None
      | _ \<Rightarrow> Some ([], w))"

definition lua_scheduler_schedule_once ::
  "lua_lib \<Rightarrow> 'l uv_timer_api \<Rightarrow> lua_val list \<Rightarrow> 'l lua_world \<Rightarrow> (lua_val list \<times> 'l lua_world) option" where
  "lua_scheduler_schedule_once lib uv args w =
     (let (h, w) = toluafix_ref_function (lua_arg args 1) w in
      if h = 0 then lua_failed h w
      else do {
        after_ms \<leftarrow> c_int32 (tolua_tonumber lib (lua_arg args 2));
        if after_ms \<le> 0 then lua_failed h w
        else do {
          (d, w) \<leftarrow> new_ldata h 1 w;
          (a, w) \<leftarrow> schedule_once uv 2 d (nat after_ms) w;
          Some ([LUserdata (Timer_Ptr a)], w) } })"

section \<open>A scheduled function runs as often as asked, and everything is released\<close>

text \<open>A script that returns and leaves the timer, its block and its reference alone.\<close>

definition plain_script :: "'l uv_timer_api \<Rightarrow> 'l script \<Rightarrow> addr \<Rightarrow> addr \<Rightarrow> nat \<Rightarrow> bool" where
  "plain_script uv script a d h \<longleftrightarrow> (\<forall>f w. \<exists>w'. script f w = Some w' \<and> heap w' a = heap w a \<and>
     uv_timer uv (loop w') a = uv_timer uv (loop w) a \<and> calls w' = calls w \<and>
     ldata (user w') d = ldata (user w) d \<and> refid_fun (user w') h = refid_fun (user w) h \<and>
     executed (user w') = executed (user w))"

text \<open>The block of a timer with n calls left; with none left, block and reference are gone.\<close>

definition lua_left :: "addr \<Rightarrow> nat \<Rightarrow> nat \<Rightarrow> nat \<Rightarrow> nat list \<Rightarrow> lua_user \<Rightarrow> bool" where
  "lua_left d h f n ex u \<longleftrightarrow> executed u = ex \<and>
     (if n = 0 then ldata u d = None \<and> refid_fun u h = None
      else ldata u d = Some \<lparr>ls_handle = h, ls_repeat = int n\<rparr> \<and> refid_fun u h = Some f)"

lemma lua_callback_runs:
  assumes "plain_script uv script a d h" "lua_left d h f (Suc n) ex (user v)"
  shows "\<exists>w1. lua_callbacks script 1 d v = Some w1 \<and> heap w1 a = heap v a \<and>
     uv_timer uv (loop w1) a = uv_timer uv (loop v) a \<and> calls w1 = calls v \<and>
     lua_left d h f n (ex @ [f]) (user w1)"
proof -
  define v' where "v' = v\<lparr>user := (user v)\<lparr>executed := executed (user v) @ [f]\<rparr>\<rparr>"
  obtain w1 where w1: "script f v' = Some w1" "heap w1 a = heap v' a"
     "uv_timer uv (loop w1) a = uv_timer uv (loop v') a" "calls w1 = calls v'"
     "ldata (user w1) d = ldata (user v') d" "refid_fun (user w1) h = refid_fun (user v') h"
     "executed (user w1) = executed (user v')"
    using assms(1) unfolding plain_script_def by blast
  have v: "ldata (user v) d = Some \<lparr>ls_handle = h, ls_repeat = int (Suc n)\<rparr>" "refid_fun (user v) h = Some f"
    "executed (user v) = ex"
    using assms(2) by (simp_all add: lua_left_def)
  have "scheduler_execute_handler script h v = Some w1"
    using w1(1) v by (simp add: scheduler_execute_handler_def v'_def)
  then show ?thesis using v w1(2-)
    by (auto simp: lua_callbacks_def lua_scheduler_callback_def ldata_free_def scheduler_remove_handler_def
        lua_left_def v'_def Let_def)
qed

lemma lua_timer_runs:
  assumes "uv_documented uv" "plain_script uv script a d h" "0 < iv"
  shows "armed uv a \<lparr>t_callback = 1, t_data = d, t_repeat = int n\<rparr> delay iv w \<Longrightarrow> 0 < n \<Longrightarrow>
    lua_left d h f n ex (user w) \<Longrightarrow>
    \<exists>w'. timer_events uv (lua_callbacks script)
        (wait_fire delay a @ concat (replicate (n - 1) (wait_fire iv a))) w = Some w' \<and>
      armed uv a \<lparr>t_callback = 1, t_data = d, t_repeat = 0\<rparr> iv iv w' \<and>
      lua_left d h f 0 (ex @ replicate n f) (user w')"
proof (induction n arbitrary: delay w ex)
  case (Suc n)
  let ?run = "lua_callbacks script"
  obtain w1 where w1: "timer_events uv ?run (wait_fire delay a) w = Some w1"
      "armed uv a \<lparr>t_callback = 1, t_data = d, t_repeat = int n\<rparr> iv iv w1"
      "lua_left d h f n (ex @ [f]) (user w1)"
    using armed_fires_at [OF assms(1) Suc.prems(1) assms(3), of ?run "lua_left d h f n (ex @ [f])"]
      lua_callback_runs [OF assms(2), of f n ex] Suc.prems(3) by force
  show ?case
  proof (cases n)
    case 0
    then show ?thesis using w1 by (simp add: lua_left_def)
  next
    case (Suc m)
    then obtain w' where w': "timer_events uv ?run (wait_fire iv a @ concat (replicate m (wait_fire iv a))) w1 = Some w'"
      "armed uv a \<lparr>t_callback = 1, t_data = d, t_repeat = 0\<rparr> iv iv w'"
      "lua_left d h f 0 ((ex @ [f]) @ replicate n f) (user w')"
      using Suc.IH [OF w1(2) _ w1(3)] by auto
    then show ?thesis using w1(1) Suc by (simp add: timer_events_append)
  qed
qed simp

lemma lua_schedule_state:
  assumes "lua_scheduler_schedule lib uv [LFunction f, LInteger after, LInteger iv, LInteger n] w = Some ([LUserdata (Timer_Ptr a)], w0)"
    and lib: "lua_documented lib" "int_args [after, iv, n]"
    and "0 \<le> n" "d = ldata_fresh (user w)" "h = Suc (s_function_ref_id (user w))"
  shows "0 \<le> after" "0 \<le> iv" "executed (user w0) = executed (user w)"
    "uv_documented uv \<Longrightarrow> armed uv a \<lparr>t_callback = 1, t_data = d, t_repeat = n\<rparr> (nat after) (nat iv) w0"
    "ldata (user w0) d = Some \<lparr>ls_handle = h, ls_repeat = n\<rparr>" "refid_fun (user w0) h = Some f"
proof -
  have c: "c_int32 (tolua_tonumber lib (LInteger x)) = Some x" if "x \<in> {after, iv, n}" for x
    using c_int32_arg [OF lib(1), of x] lib(2) that by (auto simp: int_args_def)
  have cs: "c_int32 (tolua_tonumber lib (LInteger after)) = Some after"
    "c_int32 (tolua_tonumber lib (LInteger iv)) = Some iv" "c_int32 (tolua_tonumber lib (LInteger n)) = Some n"
    by (simp_all add: c)
  note r = assms(1) [unfolded lua_scheduler_schedule_def toluafix_ref_function_def lua_arg_def, simplified]
  show "0 \<le> after" "0 \<le> iv" "executed (user w0) = executed (user w)"
    "uv_documented uv \<Longrightarrow> armed uv a \<lparr>t_callback = 1, t_data = d, t_repeat = n\<rparr> (nat after) (nat iv) w0"
    "ldata (user w0) d = Some \<lparr>ls_handle = h, ls_repeat = n\<rparr>" "refid_fun (user w0) h = Some f"
    using r assms(4-)
    by (auto simp: cs new_ldata_def lua_failed_def schedule_def alloc_timer_def armed_def uv_documented_def Let_def
        split: if_splits bind_splits prod.splits option.splits)
qed

lemma concat_replicate_snoc: "concat (replicate n xs) @ xs = concat (replicate (Suc n) xs)"
  by (induction n) auto

text \<open>C21 (functional): a Lua function scheduled n > 0 times with a positive interval runs exactly n times
  as its due times pass; then its reference and its block are released, and one interval later
  the timer too.\<close>

theorem lua_schedule_runs:
  assumes "uv_documented uv" "0 < n" "0 < iv"
    and lib: "lua_documented lib" "int_args [after, iv, int n]"
    and sch: "lua_scheduler_schedule lib uv [LFunction f, LInteger after, LInteger iv, LInteger (int n)] w =
      Some ([LUserdata (Timer_Ptr a)], w0)"
    and d: "d = ldata_fresh (user w)" and h: "h = Suc (s_function_ref_id (user w))"
    and scr: "plain_script uv script a d h"
  shows "\<exists>w'. timer_events uv (lua_callbacks script)
       (wait_fire (nat after) a @ concat (replicate n (wait_fire (nat iv) a))) w0 = Some w' \<and>
     executed (user w') = executed (user w) @ replicate n f \<and> heap w' a = None \<and>
     ldata (user w') d = None \<and> refid_fun (user w') h = None"
proof -
  note st = lua_schedule_state [OF sch lib _ d h, simplified]
  have left: "lua_left d h f n (executed (user w)) (user w0)"
    using st(3,5,6) assms(2) by (simp add: lua_left_def)
  have iv: "0 < nat iv" using assms(3) by simp
  obtain w1 where w1: "timer_events uv (lua_callbacks script)
        (wait_fire (nat after) a @ concat (replicate (n - 1) (wait_fire (nat iv) a))) w0 = Some w1"
      "armed uv a \<lparr>t_callback = 1, t_data = d, t_repeat = 0\<rparr> (nat iv) (nat iv) w1"
      "lua_left d h f 0 (executed (user w) @ replicate n f) (user w1)"
    using lua_timer_runs [OF assms(1) scr iv, of n "nat after" w0] st(4) [OF assms(1)] assms(2) left by auto
  obtain w2 where w2: "timer_events uv (lua_callbacks script) (wait_fire (nat iv) a) w1 = Some w2"
      "heap w2 a = None" "user w2 = user w1"
    using armed_frees [OF assms(1) w1(2) iv, of "lua_callbacks script"] by auto
  have "concat (replicate n (wait_fire (nat iv) a)) =
      concat (replicate (n - 1) (wait_fire (nat iv) a)) @ wait_fire (nat iv) a"
    using assms(2) concat_replicate_snoc [of "n - 1" "wait_fire (nat iv) a"] by simp
  then have "timer_events uv (lua_callbacks script)
      (wait_fire (nat after) a @ concat (replicate n (wait_fire (nat iv) a))) w0 = Some w2"
    using w1(1) w2(1) timer_events_append [of uv "lua_callbacks script"
      "wait_fire (nat after) a @ concat (replicate (n - 1) (wait_fire (nat iv) a))" "wait_fire (nat iv) a" w0]
    by simp
  then show ?thesis using w1(3) w2(2,3) by (auto simp: lua_left_def)
qed

definition idle_lua :: "(addr \<rightharpoonup> nat \<times> nat) lua_world" where
  "idle_lua = \<lparr>heap = Map.empty, fresh = 1, malloc_fails = False, loop = Map.empty, handles = {}, calls = [],
     user = \<lparr>s_function_ref_id = 0, refid_fun = Map.empty, ldata = Map.empty, ldata_fresh = 1, executed = []\<rparr>\<rparr>"

lemma lua_schedule_runs_witness:
  "\<exists>w0 w'. lua_scheduler_schedule lib_example uv_example [LFunction 9, LInteger 5, LInteger 10, LInteger 2] idle_lua =
       Some ([LUserdata (Timer_Ptr 1)], w0) \<and>
     timer_events uv_example (lua_callbacks (\<lambda>f w. Some w)) (wait_fire 5 1 @ wait_fire 10 1 @ wait_fire 10 1) w0 =
       Some w' \<and> executed (user w') = [9, 9] \<and> heap w' 1 = None"
proof -
  have c: "c_int32 (tolua_tonumber lib_example (LInteger x)) = Some x" if "x \<in> {2, 5, 10}" for x
    using c_int32_arg [OF lib_example_documented, of x] that by auto
  obtain w0 where w0: "lua_scheduler_schedule lib_example uv_example
       [LFunction 9, LInteger 5, LInteger 10, LInteger (int 2)] idle_lua = Some ([LUserdata (Timer_Ptr 1)], w0)"
    by (simp add: lua_scheduler_schedule_def toluafix_ref_function_def lua_arg_def c
        new_ldata_def idle_lua_def schedule_def alloc_timer_def Let_def)
  have "plain_script uv_example (\<lambda>f w. Some w) 1 1 1" by (simp add: plain_script_def)
  from lua_schedule_runs [OF uv_example_documented _ _ lib_example_documented _ w0 refl refl, of "\<lambda>f w. Some w"] this w0
  show ?thesis by (auto simp: idle_lua_def numeral_2_eq_2 int_args_def)
qed

text \<open>Cancelling from Lua frees the timer, but neither its block nor its reference.\<close>

lemma lua_cancel_leaks:
  assumes "lua_scheduler_schedule lib uv [LFunction f, LInteger after, LInteger iv, LInteger n] w = Some ([LUserdata (Timer_Ptr a)], w0)"
    and lib: "lua_documented lib" "int_args [after, iv, n]"
    and "0 \<le> n" "d = ldata_fresh (user w)" "h = Suc (s_function_ref_id (user w))"
    and uns: "lua_scheduler_unschedule uv [LUserdata (Timer_Ptr a)] w0 = Some ([], w1)"
  shows "ldata (user w1) d \<noteq> None" "refid_fun (user w1) h = Some f"
proof -
  have "user w1 = user w0"
    using uns by (auto simp: lua_scheduler_unschedule_def lua_arg_def unschedule_def
        dest!: free_timer_heap split: option.splits if_splits)
  then show "ldata (user w1) d \<noteq> None" "refid_fun (user w1) h = Some f"
    using lua_schedule_state(5,6) [OF assms(1-6)] by simp_all
qed

text \<open>With a repeat count of 0 the function never runs, and its block and reference stay.\<close>

lemma lua_schedule_zero:
  assumes "uv_documented uv" "0 < iv" "d = ldata_fresh (user w)" "h = Suc (s_function_ref_id (user w))"
    and lib: "lua_documented lib" "int_args [after, iv, 0]"
    and sch: "lua_scheduler_schedule lib uv [LFunction f, LInteger after, LInteger iv, LInteger 0] w = Some ([LUserdata (Timer_Ptr a)], w0)"
  shows "\<exists>w'. timer_events uv run (wait_fire (nat after) a) w0 = Some w' \<and> heap w' a = None \<and>
     executed (user w') = executed (user w) \<and> ldata (user w') d \<noteq> None \<and> refid_fun (user w') h = Some f"
  using lua_schedule_state [OF sch lib _ assms(3,4)] armed_frees [OF assms(1), of a _ "nat after" "nat iv" w0 run]
    assms(1,2) by fastforce

end
