(* ===== verification/Logger.thy ===== *)
theory Logger
  imports Timestamp
begin

text \<open>
  The logger of utils/logger.cc. The static variables are the record \<open>logger\<close>; the file system is reached
  through libuv, so the model records the calls made (\<open>fs_call\<close>) and takes their results, the clock
  and the calendar from the record \<open>logger_env\<close>. A write past a fixed-size buffer is undefined.
\<close>

section \<open>State\<close>

datatype fs_call = Mkdir string | Close int | Open string | Write int string | Stdout string
  | Open_failed string | Write_failed

record logger =
  g_time_zone :: int
  g_log_path :: string
  g_prefix :: string
  g_file :: int
  g_current_date :: u32
  g_last_second :: u32
  g_format_time :: string
  g_std_output :: bool
  g_init :: bool
  fs :: "fs_call list"

text \<open>The initial values of the static variables.\<close>

definition logger0 :: logger where
  "logger0 = \<lparr>g_time_zone = - 5, g_log_path = [], g_prefix = [], g_file = 0, g_current_date = 0,
     g_last_second = 0, g_format_time = [], g_std_output = False, g_init = False, fs = []\<rparr>"

text \<open>
  The clock, \<open>gmtime\<close>, and the results of opening a file and of writing to one.
\<close>

record logger_env =
  clock_now :: int
  gmtime :: "int \<Rightarrow> tm"
  fs_open :: "string \<Rightarrow> int"
  fs_write :: "int \<Rightarrow> string \<Rightarrow> int"

definition call_fs :: "fs_call \<Rightarrow> logger \<Rightarrow> logger" where
  "call_fs c g = g\<lparr>fs := fs g @ [c]\<rparr>"

definition g_log_level :: "string list" where
  "g_log_level = [''[DEBUG]'', ''[WARN]'', ''[ERROR]'']"

section \<open>Printed numbers\<close>

text \<open>\<open>%4d\<close> (padded with blanks) and \<open>%02d\<close> (padded with zeros).\<close>

definition pad_left :: "char \<Rightarrow> nat \<Rightarrow> string \<Rightarrow> string" where
  "pad_left c width s = replicate (width - length s) c @ s"

definition fmt_4d :: "int \<Rightarrow> string" where
  "fmt_4d n = pad_left CHR '' '' 4 ((if n < 0 then ''-'' else []) @ dec (nat \<bar>n\<bar>))"

definition fmt_02d :: "int \<Rightarrow> string" where
  "fmt_02d n = (if n < 0 then CHR ''-'' # pad_left CHR ''0'' 1 (dec (nat \<bar>n\<bar>))
                else pad_left CHR ''0'' 2 (dec (nat n)))"

section \<open>Initialisation\<close>

text \<open>\<open>find("/", from)\<close>\<close>

definition find_slash :: "string \<Rightarrow> nat \<Rightarrow> nat option" where
  "find_slash path from = List.find (\<lambda>i. path ! i = CHR ''/'') [from..<length path]"

lemma find_slash_bounds: "find_slash path k = Some i \<Longrightarrow> k \<le> i \<and> i < length path"
  by (auto simp: find_slash_def find_Some_iff)

text \<open>The loop that makes the directory before each slash; \<open>tmp_path\<close> equals \<open>g_log_path\<close>.\<close>

function mkdir_loop :: "string \<Rightarrow> nat option \<Rightarrow> fs_call list" where
  "mkdir_loop path None = []"
| "mkdir_loop path (Some i) = Mkdir (take i path) # mkdir_loop path (find_slash path (i + 1))"
  by pat_completeness auto
termination
  by (relation "measure (\<lambda>(path, from). case from of None \<Rightarrow> 0 | Some i \<Rightarrow> Suc (length path - i))")
     (auto dest: find_slash_bounds split: option.splits)

text \<open>\<open>*(g_log_path.end() - 1)\<close> is undefined for an empty path.\<close>

definition logger_init :: "string \<Rightarrow> string \<Rightarrow> bool \<Rightarrow> int \<Rightarrow> logger \<Rightarrow> logger option" where
  "logger_init path name_prefix std_output time_zone g =
     (if g_init g then Some g
      else if path = [] then None
      else let path = (if last path \<noteq> CHR ''/'' then path @ ''/'' else path) in
        Some (g\<lparr>g_init := True, g_log_path := path, g_prefix := name_prefix, g_std_output := std_output,
               g_time_zone := time_zone, fs := fs g @ mkdir_loop path (find_slash path 0)\<rparr>))"

section \<open>The file and the time text\<close>

definition log_file_name :: "logger \<Rightarrow> tm \<Rightarrow> string" where
  "log_file_name g d = g_log_path g @ g_prefix g @ ''.'' @ fmt_4d (tm_year d + 1900) @ fmt_02d (tm_mon d + 1) @
     fmt_02d (tm_mday d) @ ''.log''"

definition open_file :: "logger_env \<Rightarrow> tm \<Rightarrow> logger \<Rightarrow> logger option" where
  "open_file E d g =
     (let g = (if g_file g \<noteq> 0 then call_fs (Close (g_file g)) g\<lparr>g_file := 0\<rparr> else g) in
      do { name \<leftarrow> sprintf 128 (log_file_name g d);
           let result = fs_open E name;
           let g = (call_fs (Open name) g)\<lparr>g_file := result\<rparr>;
           Some (if result < 0 then call_fs (Open_failed name) g else g) })"

definition local_now :: "logger_env \<Rightarrow> logger \<Rightarrow> int" where
  "local_now E g = clock_now E + g_time_zone g * 3600"

text \<open>A file is open when the result kept of the last request is not 0. Only the day of the month is compared.\<close>

definition prepare_file :: "logger_env \<Rightarrow> logger \<Rightarrow> logger option" where
  "prepare_file E g =
     (let d = gmtime E (local_now E g); today = word_of_int (tm_mday d) :: u32 in
      if g_file g = 0 then open_file E d (g\<lparr>g_current_date := today\<rparr>)
      else if g_current_date g \<noteq> today then open_file E d (g\<lparr>g_current_date := today\<rparr>)
      else Some g)"

definition time_text :: "tm \<Rightarrow> string" where
  "time_text d = fmt_4d (tm_year d + 1900) @ ''-'' @ fmt_02d (tm_mon d + 1) @ ''-'' @ fmt_02d (tm_mday d) @ '' '' @
     fmt_02d (tm_hour d) @ '':'' @ fmt_02d (tm_min d) @ '':'' @ fmt_02d (tm_sec d) @ '' ''"

text \<open>The comparison is between a 64-bit and an unsigned 32-bit number, so it is one of integers.\<close>

definition format_time :: "logger_env \<Rightarrow> logger \<Rightarrow> logger option" where
  "format_time E g =
     (let now = local_now E g in
      if now \<noteq> uint (g_last_second g) then
        do { s \<leftarrow> sprintf 64 (time_text (gmtime E now));
             Some (g\<lparr>g_last_second := word_of_int now, g_format_time := s\<rparr>) }
      else Some g)"

section \<open>Writing a line\<close>

text \<open>
  \<open>msg\<close> is the text the caller's format and arguments render; \<open>vsnprintf\<close> cuts it to its buffer of
  10240 bytes. The six buffers go to the file in one write.
\<close>

definition logger_log :: "logger_env \<Rightarrow> string \<Rightarrow> u32 \<Rightarrow> int \<Rightarrow> string \<Rightarrow> logger \<Rightarrow> logger option" where
  "logger_log E file_name line_num level msg g =
     do { g \<leftarrow> prepare_file E g;
          g \<leftarrow> format_time E g;
          let msg_content = take (1024 * 10 - 1) msg;
          msg_meta_info \<leftarrow> sprintf 1024 ('' '' @ file_name @ '':'' @ dec (unat line_num));
          if level < 0 \<or> level \<ge> 3 then None
          else do {
            let lv = g_log_level ! nat level;
            let line = g_format_time g @ lv @ msg_meta_info @ [CHR 0x0A] @ msg_content @ [CHR 0x0A];
            let result = fs_write E (g_file g) line;
            let g = call_fs (Write (g_file g) line) g;
            let g = (if result < 0 then call_fs Write_failed g else g);
            Some (if g_std_output g
                  then call_fs (Stdout (file_name @ '':'' @ dec (unat line_num) @ [CHR 0x0A] @ lv @ '' '' @
                         msg_content @ [CHR 0x0A])) g
                  else g) } }"

section \<open>The directories made\<close>

lemma filter_upt_find:
  "filter P [k..<n] = (case List.find P [k..<n] of None \<Rightarrow> [] | Some i \<Rightarrow> i # filter P [Suc i..<n])"
proof (induction "n - k" arbitrary: k)
  case (Suc m)
  then have "[k..<n] = k # [Suc k..<n]" by (simp add: upt_conv_Cons)
  then show ?case using Suc(1) [of "Suc k"] Suc(2) by simp
qed simp

lemma mkdir_loop_prefixes:
  "mkdir_loop path (find_slash path k) =
     map (\<lambda>i. Mkdir (take i path)) (filter (\<lambda>i. path ! i = CHR ''/'') [k..<length path])"
proof (induction "length path - k" arbitrary: k rule: less_induct)
  case less
  show ?case
  proof (cases "find_slash path k")
    case None
    then show ?thesis by (simp add: filter_upt_find [of _ k] find_slash_def)
  next
    case (Some i)
    have "length path - (i + 1) < length path - k" using find_slash_bounds [OF Some] by linarith
    from less [OF this] show ?thesis
      using Some by (simp add: filter_upt_find [of _ k] find_slash_def)
  qed
qed

text \<open>C28 (equivalence): initialisation makes exactly the directories that end before a slash of the path,
  parents first and the log directory last; a second call does nothing.\<close>

theorem logger_init_dirs:
  assumes "path \<noteq> []" "\<not> g_init g"
  shows "\<exists>g' p. logger_init path pre out tz g = Some g' \<and> p = g_log_path g' \<and>
     butlast p = (if last path = CHR ''/'' then butlast path else path) \<and>
     fs g' = fs g @ map (\<lambda>i. Mkdir (take i p)) (filter (\<lambda>i. p ! i = CHR ''/'') [0..<length p]) \<and>
     last (fs g') = Mkdir (butlast p) \<and>
     logger_init path2 pre2 out2 tz2 g' = Some g'"
proof -
  define p where "p = (if last path \<noteq> CHR ''/'' then path @ ''/'' else path)"
  have p: "p \<noteq> []" "last p = CHR ''/''" using assms(1) by (auto simp: p_def)
  define m where "m = length p - 1"
  have m: "[0..<length p] = [0..<m] @ [m]" "p ! m = CHR ''/''" "take m p = butlast p"
    using p by (auto simp: m_def last_conv_nth butlast_conv_take upt_Suc_append [symmetric] simp del: upt_Suc)
  let ?dirs = "map (\<lambda>i. Mkdir (take i p)) (filter (\<lambda>i. p ! i = CHR ''/'') [0..<length p])"
  have "last (fs g @ ?dirs) = Mkdir (butlast p)" by (simp add: m)
  then show ?thesis using assms
    by (auto simp: logger_init_def mkdir_loop_prefixes [of _ 0] p_def Let_def)
qed

lemma logger_init_dirs_witness:
  "\<exists>g'. logger_init ''logs/game'' ''moba'' True 0 logger0 = Some g' \<and> g_log_path g' = ''logs/game/'' \<and>
     fs g' = [Mkdir ''logs'', Mkdir ''logs/game'']"
proof -
  obtain g' p where g: "logger_init ''logs/game'' ''moba'' True 0 logger0 = Some g'" "p = g_log_path g'"
      "fs g' = fs logger0 @ map (\<lambda>i. Mkdir (take i p)) (filter (\<lambda>i. p ! i = CHR ''/'') [0..<length p])"
    using logger_init_dirs [of "''logs/game''" logger0 "''moba''" True 0 "[]" "[]" False 0]
    by (fastforce simp: logger0_def)
  moreover have "g_log_path g' = ''logs/game/''"
    using g(1) by (auto simp: logger_init_def logger0_def Let_def)
  ultimately show ?thesis by (simp add: logger0_def upt_rec)
qed

section \<open>The line written\<close>

lemma length_fmt_02d:
  assumes "0 \<le> n" "n \<le> 99"
  shows "length (fmt_02d n) = 2"
proof -
  have "nat n < 10 ^ Suc 1" using assms by simp
  from length_dec [OF this] show ?thesis using assms by (simp add: fmt_02d_def pad_left_def)
qed

lemma length_fmt_4d:
  assumes "0 \<le> n" "n \<le> 9999"
  shows "length (fmt_4d n) = 4"
proof -
  have "nat \<bar>n\<bar> < 10 ^ Suc 3" using assms by simp
  from length_dec [OF this] show ?thesis using assms by (simp add: fmt_4d_def pad_left_def)
qed

text \<open>Dates the formats print with their fixed widths.\<close>

definition loggable :: "tm \<Rightarrow> bool" where
  "loggable d \<longleftrightarrow> tm_year d + 1900 \<in> {0..9999} \<and> tm_mon d \<in> {0..11} \<and> tm_mday d \<in> {1..31} \<and>
     tm_hour d \<in> {0..23} \<and> tm_min d \<in> {0..59} \<and> tm_sec d \<in> {0..61}"

text \<open>The kept text is that of the kept second, once there is one.\<close>

definition time_cached :: "logger_env \<Rightarrow> logger \<Rightarrow> bool" where
  "time_cached E g \<longleftrightarrow> g_last_second g = 0 \<or> g_format_time g = time_text (gmtime E (uint (g_last_second g)))"

lemma length_time_text: "loggable d \<Longrightarrow> length (time_text d) = 20"
  by (simp add: time_text_def loggable_def length_fmt_02d length_fmt_4d)

lemma length_log_file_name:
  "loggable d \<Longrightarrow> length (log_file_name g d) = length (g_log_path g) + length (g_prefix g) + 13"
  by (simp add: log_file_name_def loggable_def length_fmt_02d length_fmt_4d)

text \<open>What preparing the file leaves as it was.\<close>

definition same_settings :: "logger \<Rightarrow> logger \<Rightarrow> bool" where
  "same_settings g g' \<longleftrightarrow> g_time_zone g' = g_time_zone g \<and> g_last_second g' = g_last_second g \<and>
     g_format_time g' = g_format_time g \<and> g_std_output g' = g_std_output g"

lemma open_file_defined:
  assumes "loggable d" "length (g_log_path g) + length (g_prefix g) \<le> 114"
  shows "\<exists>g' cs. open_file E d g = Some g' \<and> same_settings g g' \<and> fs g' = fs g @ cs \<and>
     g_file g' = fs_open E (log_file_name g d)"
  using assms length_log_file_name [OF assms(1), of g]
  by (auto simp: open_file_def sprintf_def call_fs_def same_settings_def log_file_name_def Let_def)

lemma prepare_file_defined:
  assumes "loggable (gmtime E (local_now E g))" "length (g_log_path g) + length (g_prefix g) \<le> 114"
  shows "\<exists>g' cs. prepare_file E g = Some g' \<and> same_settings g g' \<and> fs g' = fs g @ cs"
proof -
  let ?g = "g\<lparr>g_current_date := word_of_int (tm_mday (gmtime E (local_now E g)))\<rparr>"
  obtain g' cs where "open_file E (gmtime E (local_now E g)) ?g = Some g'" "same_settings ?g g'" "fs g' = fs g @ cs"
    using open_file_defined [OF assms(1), of ?g E] assms(2) by auto
  then show ?thesis by (auto simp: prepare_file_def same_settings_def Let_def)
qed

lemma format_time_defined:
  assumes "loggable (gmtime E (local_now E g))" "time_cached E g" "0 < local_now E g" "local_now E g < 2 ^ 32"
  shows "\<exists>g'. format_time E g = Some g' \<and> g_format_time g' = time_text (gmtime E (local_now E g)) \<and>
     time_cached E g' \<and> fs g' = fs g \<and> g_file g' = g_file g \<and> g_std_output g' = g_std_output g"
proof (cases "local_now E g = uint (g_last_second g)")
  case True
  then have "g_last_second g \<noteq> 0" using assms(3) by auto
  then show ?thesis using True assms(2) by (simp add: format_time_def time_cached_def Let_def)
next
  case False
  have "uint (word_of_int (local_now E g) :: u32) = local_now E g"
    using assms(3,4) by (simp add: uint_word_of_int take_bit_int_eq_self)
  then show ?thesis using False length_time_text [OF assms(1)]
    by (simp add: format_time_def sprintf_def time_cached_def Let_def)
qed

text \<open>With a path and a file name within their buffers, a valid level and a date of four
  digits, a log call is defined: it writes exactly one line, the time, the level, the
  place and the message cut to 10239 characters, with the time that belongs to this second although
  its text is cached; after it only the copy for the terminal follows.\<close>

theorem log_writes_line:
  assumes date: "loggable (gmtime E (local_now E g))" and cached: "time_cached E g"
    and now: "0 < local_now E g" "local_now E g < 2 ^ 32"
    and path: "length (g_log_path g) + length (g_prefix g) \<le> 114"
    and lv: "level \<in> {0..2}" and len: "length file \<le> 1011"
  shows "\<exists>g' before after. logger_log E file line_num level msg g = Some g' \<and> time_cached E g' \<and>
     fs g' = fs g @ before @
       [Write (g_file g') (time_text (gmtime E (local_now E g)) @ g_log_level ! nat level @ '' '' @ file @ '':'' @
          dec (unat line_num) @ [CHR 0x0A] @ take 10239 msg @ [CHR 0x0A])] @ after \<and>
     (\<forall>c \<in> set after. c = Write_failed \<or> (\<exists>s. c = Stdout s))"
proof -
  obtain g1 cs where g1: "prepare_file E g = Some g1" "same_settings g g1" "fs g1 = fs g @ cs"
    using prepare_file_defined [OF date path] by blast
  have now1: "local_now E g1 = local_now E g" "time_cached E g1"
    using g1(2) cached by (simp_all add: local_now_def same_settings_def time_cached_def)
  obtain g2 where g2: "format_time E g1 = Some g2" "g_format_time g2 = time_text (gmtime E (local_now E g))"
      "time_cached E g2" "fs g2 = fs g1"
    using format_time_defined [of E g1] date now now1 by auto
  have meta: "sprintf 1024 ('' '' @ file @ '':'' @ dec (unat line_num)) = Some ('' '' @ file @ '':'' @ dec (unat line_num))"
    using len length_dec_u32 [of line_num] by (simp add: sprintf_def)
  define line where "line = time_text (gmtime E (local_now E g)) @ g_log_level ! nat level @ '' '' @ file @ '':'' @
    dec (unat line_num) @ [CHR 0x0A] @ take 10239 msg @ [CHR 0x0A]"
  define after where "after = (if fs_write E (g_file g2) line < 0 then [Write_failed] else []) @
    (if g_std_output g2 then [Stdout (file @ '':'' @ dec (unat line_num) @ [CHR 0x0A] @ g_log_level ! nat level @ '' '' @
       take 10239 msg @ [CHR 0x0A])] else [])"
  have "logger_log E file line_num level msg g = Some (g2\<lparr>fs := fs g2 @ [Write (g_file g2) line] @ after\<rparr>)"
    using g1(1) g2(1,2) lv
    by (simp add: logger_log_def meta [simplified] call_fs_def line_def after_def Let_def)
  moreover have "time_cached E (g2\<lparr>fs := c\<rparr>)" for c using g2(3) by (simp add: time_cached_def)
  moreover have "\<forall>c \<in> set after. c = Write_failed \<or> (\<exists>s. c = Stdout s)" by (auto simp: after_def)
  ultimately show ?thesis using g1(3) g2(4) unfolding line_def by fastforce
qed

definition example_env :: logger_env where
  "example_env = \<lparr>clock_now = 1709249409, gmtime = \<lambda>_. example_tm, fs_open = \<lambda>_. 3, fs_write = \<lambda>_ _. 1\<rparr>"

lemma log_writes_line_witness:
  "\<exists>g' before after. logger_log example_env ''main.cc'' 7 2 ''lost'' (logger0\<lparr>g_log_path := ''logs/''\<rparr>) = Some g' \<and>
     fs g' = before @ [Write (g_file g') (''2024-02-29 23:30:09 [ERROR] main.cc:7'' @ [CHR 0x0A] @ ''lost'' @ [CHR 0x0A])]
       @ after"
proof -
  let ?g = "logger0\<lparr>g_log_path := ''logs/''\<rparr>"
  have "loggable (gmtime example_env (local_now example_env ?g))" "time_cached example_env ?g"
    "0 < local_now example_env ?g" "local_now example_env ?g < 2 ^ 32"
    "length (g_log_path ?g) + length (g_prefix ?g) \<le> 114"
    by (simp_all add: loggable_def example_env_def example_tm_def time_cached_def logger0_def local_now_def)
  from log_writes_line [OF this, of 2 "''main.cc''" 7 "''lost''"]
  obtain g' before after where log: "logger_log example_env ''main.cc'' 7 2 ''lost'' ?g = Some g'"
    "fs g' = fs ?g @ before @ [Write (g_file g') (time_text example_tm @ g_log_level ! nat 2 @ '' '' @ ''main.cc'' @ '':'' @
       dec (unat (7 :: u32)) @ [CHR 0x0A] @ take 10239 ''lost'' @ [CHR 0x0A])] @ after"
    by (auto simp: example_env_def)
  moreover have "time_text example_tm = ''2024-02-29 23:30:09 ''"
    by (simp add: time_text_def example_tm_def fmt_02d_def fmt_4d_def pad_left_def dec.simps char_of_def bit_0)
  moreover have "dec (unat (7 :: u32)) = ''7''" by (subst dec.simps) (simp add: char_of_def bit_0)
  moreover have "fs ?g = []" "g_log_level ! nat 2 = ''[ERROR]''"
    by (simp_all add: logger0_def g_log_level_def nat_numeral)
  ultimately show ?thesis by auto
qed

section \<open>When the file is not renewed\<close>

text \<open>
  As long as the result kept is not 0, no file is opened while the day of the month is the same: not a
  month later, and not after the opening failed, when the result kept is the error code.
\<close>

lemma prepare_file_stale:
  assumes "g_file g \<noteq> 0" "g_current_date g = word_of_int (tm_mday (gmtime E (local_now E g)))"
  shows "prepare_file E g = Some g"
  using assms by (simp add: prepare_file_def Let_def)

lemma failed_open_not_retried:
  assumes "prepare_file E g = Some g'" "g_file g = 0" "g_file g' < 0"
    and "tm_mday (gmtime E' (local_now E' g')) = tm_mday (gmtime E (local_now E g))"
  shows "prepare_file E' g' = Some g'"
proof -
  have "g_current_date g' = word_of_int (tm_mday (gmtime E (local_now E g)))"
    using assms(1,2) by (auto simp: prepare_file_def open_file_def call_fs_def Let_def split: bind_splits)
  then show ?thesis using assms(3,4) by (intro prepare_file_stale) simp_all
qed

text \<open>A path and prefix of more than 114 characters overflow the buffer of the file name.\<close>

lemma long_path_overflows:
  assumes "loggable d" "length (g_log_path g) + length (g_prefix g) > 114"
  shows "open_file E d g = None"
  using assms length_log_file_name [OF assms(1)]
  by (simp add: open_file_def sprintf_def call_fs_def log_file_name_def Let_def)

end
