(* ===== verification/Blocks.thy ===== *)
theory Blocks
  imports Prelude
begin

text \<open>
  A heap of typed blocks for the database wrappers: what \<open>small_alloc\<close> returned and \<open>small_free\<close> has not
  been given back. Address 0 is the null pointer; a block is created at a fresh address, and reading,
  writing or freeing an address that holds no block is undefined.
\<close>

record 'b mem =
  blocks :: "addr \<rightharpoonup> 'b"
  brk :: addr

definition new_block :: "'b \<Rightarrow> 'b mem \<Rightarrow> addr \<times> 'b mem" where
  "new_block b m = (brk m, m\<lparr>blocks := (blocks m)(brk m \<mapsto> b), brk := Suc (brk m)\<rparr>)"

definition free_block :: "addr \<Rightarrow> 'b mem \<Rightarrow> 'b mem option" where
  "free_block a m = (if blocks m a = None then None else Some (m\<lparr>blocks := (blocks m)(a := None)\<rparr>))"

definition put_block :: "addr \<Rightarrow> 'b \<Rightarrow> 'b mem \<Rightarrow> 'b mem option" where
  "put_block a b m = (if blocks m a = None then None else Some (m\<lparr>blocks := (blocks m)(a \<mapsto> b)\<rparr>))"

text \<open>\<open>if (p) free(p);\<close>\<close>

definition free_unless_null :: "addr \<Rightarrow> 'b mem \<Rightarrow> 'b mem option" where
  "free_unless_null a m = (if a = 0 then Some m else free_block a m)"

definition mem_wf :: "'b mem \<Rightarrow> bool" where
  "mem_wf m \<longleftrightarrow> blocks m 0 = None \<and> 0 < brk m \<and> (\<forall>a \<ge> brk m. blocks m a = None)"

definition empty_mem :: "'b mem" where "empty_mem = \<lparr>blocks = Map.empty, brk = 1\<rparr>"

lemma mem_wf_empty [simp]: "mem_wf empty_mem"
  by (simp add: mem_wf_def empty_mem_def)

lemma new_block_wf: "new_block b m = (a, m') \<Longrightarrow> mem_wf m \<Longrightarrow> mem_wf m' \<and> 0 < a \<and> blocks m a = None"
  by (auto simp: new_block_def mem_wf_def)

lemma free_block_wf: "free_block a m = Some m' \<Longrightarrow> mem_wf m \<Longrightarrow> mem_wf m'"
  by (auto simp: free_block_def mem_wf_def split: if_splits)

lemma put_block_wf: "put_block a b m = Some m' \<Longrightarrow> mem_wf m \<Longrightarrow> mem_wf m'"
  by (auto simp: put_block_def mem_wf_def split: if_splits) (metis gr0I option.distinct(1))

lemma mem_wf_fresh: "mem_wf m \<Longrightarrow> brk m \<le> a \<Longrightarrow> blocks m a = None"
  unfolding mem_wf_def by blast

lemma mem_wf_null: "mem_wf m \<Longrightarrow> blocks m 0 = None"
  unfolding mem_wf_def by blast

lemma mem_wf_brk: "mem_wf m \<Longrightarrow> 0 < brk m"
  unfolding mem_wf_def by blast

lemma mem_wf_bound: "mem_wf m \<Longrightarrow> blocks m a = Some b \<Longrightarrow> a < brk m"
  by (rule ccontr) (simp add: mem_wf_def)

end
