(* ===== verification/Redis.thy ===== *)
theory Redis
  imports Blocks
begin

text \<open>
  The Redis client of database/redis_wrapper.cc. hiredis is not part of the repository: its connection
  objects are the records \<open>async\<close>, of which the code uses the field \<open>data\<close>, the error text and the
  requests it makes (recorded in \<open>commands\<close> and \<open>disconnects\<close>); when hiredis calls back, and with which
  reply, is a choice of the caller of \<open>connectCallback\<close> and \<open>getCallback\<close>. The user's callbacks are the
  argument \<open>run\<close>, which may use the client again.
\<close>

section \<open>State\<close>

record redis_connect_req =
  cr_host :: addr
  cr_port :: int
  cr_open_cb :: nat
  cr_err :: addr
  cr_redis_context :: addr
  cr_udata :: addr

record redis_context =
  rc_context :: addr
  rc_is_closing :: bool

record query_req =
  qr_redis_context :: addr
  qr_sql :: addr
  qr_query_cb :: nat
  qr_result :: nat
  qr_err :: addr
  qr_udata :: addr

datatype rblock = RString string | RConnect redis_connect_req | RContext redis_context | RQuery query_req

record async =
  c_data :: addr
  c_errstr :: string

text \<open>What a callback of the user is given: an error text, a context, or a reply (a number naming it).\<close>

datatype answer = Error string | Connected addr | Reply nat

record 'u redis =
  rmem :: "rblock mem"
  asyncs :: "addr \<rightharpoonup> async"
  commands :: "(addr \<times> string) list"
  disconnects :: "addr list"
  answers :: "(nat \<times> answer \<times> addr) list"
  ruser :: 'u

type_synonym 'u redis_run = "nat \<Rightarrow> answer \<Rightarrow> addr \<Rightarrow> 'u redis \<Rightarrow> 'u redis option"

section \<open>Helpers\<close>

definition in_mem :: "(rblock mem \<Rightarrow> rblock mem option) \<Rightarrow> 'u redis \<Rightarrow> 'u redis option" where
  "in_mem f w = map_option (\<lambda>m. w\<lparr>rmem := m\<rparr>) (f (rmem w))"

definition my_malloc :: "rblock \<Rightarrow> 'u redis \<Rightarrow> addr \<times> 'u redis" where
  "my_malloc b w = (let (a, m) = new_block b (rmem w) in (a, w\<lparr>rmem := m\<rparr>))"

definition my_strdup :: "string \<Rightarrow> 'u redis \<Rightarrow> addr \<times> 'u redis" where
  "my_strdup src w = my_malloc (RString src) w"

definition free_strdup :: "addr \<Rightarrow> 'u redis \<Rightarrow> 'u redis option" where
  "free_strdup a w = in_mem (free_unless_null a) w"

definition my_free :: "addr \<Rightarrow> 'u redis \<Rightarrow> 'u redis option" where
  "my_free a w = in_mem (free_block a) w"

text \<open>Reading a block as one of the structures: undefined when it holds another, or none.\<close>

definition connect_req_at :: "addr \<Rightarrow> 'u redis \<Rightarrow> redis_connect_req option" where
  "connect_req_at a w = (case blocks (rmem w) a of Some (RConnect r) \<Rightarrow> Some r | _ \<Rightarrow> None)"

definition context_at :: "addr \<Rightarrow> 'u redis \<Rightarrow> redis_context option" where
  "context_at a w = (case blocks (rmem w) a of Some (RContext r) \<Rightarrow> Some r | _ \<Rightarrow> None)"

definition query_req_at :: "addr \<Rightarrow> 'u redis \<Rightarrow> query_req option" where
  "query_req_at a w = (case blocks (rmem w) a of Some (RQuery r) \<Rightarrow> Some r | _ \<Rightarrow> None)"

definition set_c_data :: "addr \<Rightarrow> addr \<Rightarrow> 'u redis \<Rightarrow> 'u redis option" where
  "set_c_data c d w =
     (case asyncs w c of None \<Rightarrow> None | Some s \<Rightarrow> Some (w\<lparr>asyncs := (asyncs w)(c \<mapsto> s\<lparr>c_data := d\<rparr>)\<rparr>))"

definition call_user :: "'u redis_run \<Rightarrow> nat \<Rightarrow> answer \<Rightarrow> addr \<Rightarrow> 'u redis \<Rightarrow> 'u redis option" where
  "call_user run cb x udata w = run cb x udata (w\<lparr>answers := answers w @ [(cb, x, udata)]\<rparr>)"

section \<open>Connecting\<close>

text \<open>
  \<open>c\<close> is the result of \<open>redisAsyncConnect\<close>, which is not compared with the null pointer. An
  immediate error is printed and the caller is not told.
\<close>

definition redis_connect ::
  "(addr \<times> string option) option \<Rightarrow> string \<Rightarrow> int \<Rightarrow> nat \<Rightarrow> addr \<Rightarrow> 'u redis \<Rightarrow> 'u redis option" where
  "redis_connect result host port open_cb udata w =
     (case result of None \<Rightarrow> None
      | Some (c, Some err) \<Rightarrow> Some w
      | Some (c, None) \<Rightarrow>
          let (r, w) = my_malloc (RConnect \<lparr>cr_host = 0, cr_port = 0, cr_open_cb = 0, cr_err = 0,
                 cr_redis_context = 0, cr_udata = 0\<rparr>) w;
              (h, w) = my_strdup host w in
          do { w \<leftarrow> in_mem (put_block r (RConnect \<lparr>cr_host = h, cr_port = port, cr_open_cb = open_cb, cr_err = 0,
                 cr_redis_context = 0, cr_udata = udata\<rparr>)) w;
               set_c_data c r (w\<lparr>asyncs := (asyncs w)(c \<mapsto> \<lparr>c_data = 0, c_errstr = []\<rparr>)\<rparr>) })"

text \<open>The path taken when the connection failed returns before anything is freed.\<close>

definition connectCallback :: "'u redis_run \<Rightarrow> addr \<Rightarrow> bool \<Rightarrow> 'u redis \<Rightarrow> 'u redis option" where
  "connectCallback run c status_ok w =
     do { s \<leftarrow> asyncs w c;
          r \<leftarrow> connect_req_at (c_data s) w;
          if \<not> status_ok then do {
            let (e, w) = my_strdup (c_errstr s) w;
            w \<leftarrow> in_mem (put_block (c_data s) (RConnect (r\<lparr>cr_err := e\<rparr>))) w;
            call_user run (cr_open_cb r) (Error (c_errstr s)) (cr_udata r) w }
          else do {
            let (x, w) = my_malloc (RContext \<lparr>rc_context = c, rc_is_closing = False\<rparr>) w;
            w \<leftarrow> in_mem (put_block (c_data s) (RConnect (r\<lparr>cr_redis_context := x\<rparr>))) w;
            w \<leftarrow> call_user run (cr_open_cb r) (Connected x) (cr_udata r) w;
            r \<leftarrow> connect_req_at (c_data s) w;
            w \<leftarrow> free_strdup (cr_host r) w;
            w \<leftarrow> free_strdup (cr_err r) w;
            my_free (c_data s) w } }"

section \<open>Queries\<close>

text \<open>\<open>c->data = query_req\<close> replaces whatever request the connection had.\<close>

definition redis_query :: "addr \<Rightarrow> string \<Rightarrow> nat \<Rightarrow> addr \<Rightarrow> 'u redis \<Rightarrow> 'u redis option" where
  "redis_query context sql query_cb udata w =
     do { rc \<leftarrow> context_at context w;
          if rc_is_closing rc then Some w
          else do {
            let (q, w) = my_malloc (RQuery \<lparr>qr_redis_context = 0, qr_sql = 0, qr_query_cb = 0, qr_result = 0,
                   qr_err = 0, qr_udata = 0\<rparr>) w;
            let (s, w) = my_strdup sql w;
            w \<leftarrow> in_mem (put_block q (RQuery \<lparr>qr_redis_context = context, qr_sql = s, qr_query_cb = query_cb,
                   qr_result = 0, qr_err = 0, qr_udata = udata\<rparr>)) w;
            w \<leftarrow> set_c_data (rc_context rc) q w;
            Some (w\<lparr>commands := commands w @ [(rc_context rc, sql)]\<rparr>) } }"

text \<open>The request is the one \<open>c->data\<close> names when the reply arrives; \<open>None\<close> is the null reply.\<close>

definition getCallback :: "'u redis_run \<Rightarrow> addr \<Rightarrow> nat option \<Rightarrow> 'u redis \<Rightarrow> 'u redis option" where
  "getCallback run c reply w =
     do { s \<leftarrow> asyncs w c;
          if c_data s = 0 then Some w
          else do {
            let q = c_data s;
            r \<leftarrow> query_req_at q w;
            w \<leftarrow> (case reply of
                None \<Rightarrow> do {
                  let (e, w) = my_strdup (c_errstr s) w;
                  w \<leftarrow> in_mem (put_block q (RQuery (r\<lparr>qr_err := e\<rparr>))) w;
                  call_user run (qr_query_cb r) (Error (c_errstr s)) (qr_udata r) w }
              | Some x \<Rightarrow> do {
                  w \<leftarrow> in_mem (put_block q (RQuery (r\<lparr>qr_result := x\<rparr>))) w;
                  call_user run (qr_query_cb r) (Reply x) (qr_udata r) w });
            r \<leftarrow> query_req_at q w;
            w \<leftarrow> free_strdup (qr_sql r) w;
            w \<leftarrow> free_strdup (qr_err r) w;
            w \<leftarrow> my_free q w;
            set_c_data c 0 w } }"

definition redis_close :: "addr \<Rightarrow> 'u redis \<Rightarrow> 'u redis option" where
  "redis_close context w =
     do { rc \<leftarrow> context_at context w;
          if rc_is_closing rc then Some w
          else do {
            w \<leftarrow> in_mem (put_block context (RContext (rc\<lparr>rc_is_closing := True\<rparr>))) w;
            Some (w\<lparr>disconnects := disconnects w @ [rc_context rc]\<rparr>) } }"

section \<open>One query at a time\<close>

text \<open>Callbacks of the user that return and leave the memory and the connections as they are.\<close>

definition observes :: "'u redis_run \<Rightarrow> bool" where
  "observes run \<longleftrightarrow> (\<forall>cb x u w. \<exists>w'. run cb x u w = Some w' \<and> rmem w' = rmem w \<and> asyncs w' = asyncs w \<and>
     answers w' = answers w)"

text \<open>The same of one call of a callback, in one state of the user.\<close>

definition observes_at :: "'u redis_run \<Rightarrow> nat \<Rightarrow> answer \<Rightarrow> addr \<Rightarrow> 'u \<Rightarrow> bool" where
  "observes_at run cb x ud u \<longleftrightarrow> (\<forall>w. ruser w = u \<longrightarrow> (\<exists>w'. run cb x ud w = Some w' \<and> rmem w' = rmem w \<and>
     asyncs w' = asyncs w \<and> answers w' = answers w))"

lemma observes_at: "observes run \<Longrightarrow> observes_at run cb x ud u"
  by (simp add: observes_def observes_at_def)

text \<open>The callback was called, and what it made of the state of the user is the new one.\<close>

definition told :: "'u redis_run \<Rightarrow> nat \<Rightarrow> answer \<Rightarrow> addr \<Rightarrow> 'u \<Rightarrow> 'u \<Rightarrow> bool" where
  "told run cb x ud u u' \<longleftrightarrow> (\<exists>v v'. ruser v = u \<and> run cb x ud v = Some v' \<and> ruser v' = u')"

lemma call_observed:
  assumes "observes_at run cb x ud (ruser w)"
  obtains w' where "call_user run cb x ud w = Some w'" "rmem w' = rmem w" "asyncs w' = asyncs w"
    "answers w' = answers w @ [(cb, x, ud)]" "told run cb x ud (ruser w) (ruser w')"
proof -
  let ?w = "w\<lparr>answers := answers w @ [(cb, x, ud)]\<rparr>"
  have "ruser ?w = ruser w" by simp
  then obtain w' where "run cb x ud ?w = Some w'" "rmem w' = rmem ?w" "asyncs w' = asyncs ?w" "answers w' = answers ?w"
    using assms unfolding observes_at_def by blast
  moreover from this(1) have "told run cb x ud (ruser w) (ruser w')"
    unfolding told_def by (intro exI [of _ ?w] exI [of _ w']) simp
  ultimately show ?thesis using that [of w'] by (simp add: call_user_def)
qed

text \<open>An open context on a connection that hiredis knows.\<close>

definition ready :: "addr \<Rightarrow> addr \<Rightarrow> 'u redis \<Rightarrow> bool" where
  "ready x c w \<longleftrightarrow> mem_wf (rmem w) \<and> context_at x w = Some \<lparr>rc_context = c, rc_is_closing = False\<rparr> \<and>
     asyncs w c \<noteq> None"

lemmas redis_mem = in_mem_def my_malloc_def my_strdup_def free_strdup_def my_free_def new_block_def
  put_block_def free_block_def free_unless_null_def context_at_def connect_req_at_def query_req_at_def

text \<open>The request block and the block of its text that a query leaves behind.\<close>

definition queued :: "addr \<Rightarrow> addr \<Rightarrow> string \<Rightarrow> nat \<Rightarrow> addr \<Rightarrow> 'u redis \<Rightarrow> 'u redis \<Rightarrow> bool" where
  "queued x c sql cb ud w w' \<longleftrightarrow>
     (let q = brk (rmem w) in
      blocks (rmem w') = (blocks (rmem w))(q \<mapsto> RQuery \<lparr>qr_redis_context = x, qr_sql = Suc q, qr_query_cb = cb,
          qr_result = 0, qr_err = 0, qr_udata = ud\<rparr>, Suc q \<mapsto> RString sql) \<and> brk (rmem w') = q + 2 \<and>
      asyncs w' = (asyncs w)(c := map_option (c_data_update (\<lambda>_. q)) (asyncs w c)) \<and> answers w' = answers w \<and>
      ruser w' = ruser w)"

lemma redis_query_queues:
  assumes "ready x c w"
  shows "\<exists>w'. redis_query x sql cb ud w = Some w' \<and> queued x c sql cb ud w w' \<and> ready x c w' \<and>
     commands w' = commands w @ [(c, sql)]"
proof -
  have fr: "blocks (rmem w) (brk (rmem w)) = None" "blocks (rmem w) (Suc (brk (rmem w))) = None"
    "blocks (rmem w) 0 = None" "0 < brk (rmem w)"
    using assms mem_wf_fresh [of "rmem w"] mem_wf_null [of "rmem w"] mem_wf_brk [of "rmem w"]
    by (simp_all add: ready_def)
  have x: "x \<noteq> brk (rmem w)" "x \<noteq> Suc (brk (rmem w))"
    using assms fr by (auto simp: ready_def context_at_def)
  obtain s where s: "asyncs w c = Some s" using assms by (auto simp: ready_def)
  have blk: "blocks (rmem w) x = Some (RContext \<lparr>rc_context = c, rc_is_closing = False\<rparr>)"
    using assms by (auto simp: ready_def context_at_def split: option.splits rblock.splits)
  have above: "brk (rmem w) \<le> a \<Longrightarrow> blocks (rmem w) a = None" for a
    using assms by (simp add: ready_def mem_wf_def)
  show ?thesis using fr x s blk above
    by (auto simp: redis_query_def redis_mem set_c_data_def queued_def ready_def mem_wf_def Let_def)
qed

text \<open>The reply goes to the request that \<open>c->data\<close> names, and its blocks are released.\<close>

lemma getCallback_answers:
  assumes "observes_at run (qr_query_cb r) (case reply of None \<Rightarrow> Error (c_errstr s) | Some n \<Rightarrow> Reply n) (qr_udata r) (ruser w)"
    and "asyncs w c = Some s" "c_data s \<noteq> 0" "mem_wf (rmem w)"
    and "query_req_at (c_data s) w = Some r" "qr_err r = 0" "qr_sql r \<noteq> 0" "qr_sql r \<noteq> c_data s"
    and "blocks (rmem w) (qr_sql r) \<noteq> None"
  shows "\<exists>w'. getCallback run c reply w = Some w' \<and>
     answers w' = answers w @ [(qr_query_cb r, case reply of None \<Rightarrow> Error (c_errstr s) | Some n \<Rightarrow> Reply n, qr_udata r)] \<and>
     blocks (rmem w') = (blocks (rmem w))(qr_sql r := None, c_data s := None) \<and> mem_wf (rmem w') \<and>
     asyncs w' = (asyncs w)(c \<mapsto> s\<lparr>c_data := 0\<rparr>) \<and>
     told run (qr_query_cb r) (case reply of None \<Rightarrow> Error (c_errstr s) | Some n \<Rightarrow> Reply n) (qr_udata r) (ruser w) (ruser w')"
proof -
  let ?q = "c_data s" and ?e = "brk (rmem w)"
  have q: "blocks (rmem w) ?q = Some (RQuery r)"
    using assms(5) by (auto simp: query_req_at_def split: option.splits rblock.splits)
  have fr: "blocks (rmem w) ?e = None" "0 < ?e" and ne: "?q \<noteq> ?e" "qr_sql r \<noteq> ?e"
    using q assms(4,9) mem_wf_fresh [OF assms(4)] mem_wf_brk by auto
  have above: "?e \<le> a \<Longrightarrow> blocks (rmem w) a = None" for a
    using assms(4) by (simp add: mem_wf_def)
  show ?thesis
  proof (cases reply)
    case None
    define w1 where "w1 = w\<lparr>rmem := (rmem w)\<lparr>brk := Suc ?e,
      blocks := (blocks (rmem w))(?e \<mapsto> RString (c_errstr s), ?q \<mapsto> RQuery (r\<lparr>qr_err := ?e\<rparr>))\<rparr>\<rparr>"
    have "observes_at run (qr_query_cb r) (Error (c_errstr s)) (qr_udata r) (ruser w1)" using assms(1) None by (simp add: w1_def)
    then obtain w2 where w2: "call_user run (qr_query_cb r) (Error (c_errstr s)) (qr_udata r) w1 = Some w2"
        "rmem w2 = rmem w1" "asyncs w2 = asyncs w1"
        "answers w2 = answers w1 @ [(qr_query_cb r, Error (c_errstr s), qr_udata r)]"
        "told run (qr_query_cb r) (Error (c_errstr s)) (qr_udata r) (ruser w1) (ruser w2)"
      by (rule call_observed)
    have upd: "(blocks (rmem w))(?e \<mapsto> b, ?q \<mapsto> b', qr_sql r := None, ?e := None, ?q := None) =
        (blocks (rmem w))(qr_sql r := None, ?q := None)" for b b'
      using fr ne by (auto simp: fun_eq_iff)
    show ?thesis using None assms(2,3,5-9) q fr ne w2 above mem_wf_null [OF assms(4)]
      by (auto simp: getCallback_def redis_mem set_c_data_def w1_def mem_wf_def upd Let_def)
  next
    case (Some n)
    define w1 where "w1 = w\<lparr>rmem := (rmem w)\<lparr>blocks := (blocks (rmem w))(?q \<mapsto> RQuery (r\<lparr>qr_result := n\<rparr>))\<rparr>\<rparr>"
    have "observes_at run (qr_query_cb r) (Reply n) (qr_udata r) (ruser w1)" using assms(1) Some by (simp add: w1_def)
    then obtain w2 where w2: "call_user run (qr_query_cb r) (Reply n) (qr_udata r) w1 = Some w2"
        "rmem w2 = rmem w1" "asyncs w2 = asyncs w1"
        "answers w2 = answers w1 @ [(qr_query_cb r, Reply n, qr_udata r)]"
        "told run (qr_query_cb r) (Reply n) (qr_udata r) (ruser w1) (ruser w2)"
      by (rule call_observed)
    show ?thesis using Some assms(2,3,5-9) q fr w2 above mem_wf_null [OF assms(4)]
      by (auto simp: getCallback_def redis_mem set_c_data_def w1_def mem_wf_def)
  qed
qed

text \<open>From a queued request to its answer.\<close>

lemma queued_answers:
  assumes "observes_at run cb (case reply of None \<Rightarrow> Error (c_errstr s) | Some n \<Rightarrow> Reply n) ud (ruser w)"
    and "queued x c sql cb ud w w'" "mem_wf (rmem w)" "mem_wf (rmem w')" "asyncs w c = Some s"
  shows "\<exists>w2. getCallback run c reply w' = Some w2 \<and>
     answers w2 = answers w @ [(cb, case reply of None \<Rightarrow> Error (c_errstr s) | Some n \<Rightarrow> Reply n, ud)] \<and>
     blocks (rmem w2) = blocks (rmem w) \<and> mem_wf (rmem w2) \<and> asyncs w2 = (asyncs w)(c \<mapsto> s\<lparr>c_data := 0\<rparr>) \<and>
     told run cb (case reply of None \<Rightarrow> Error (c_errstr s) | Some n \<Rightarrow> Reply n) ud (ruser w) (ruser w2)"
proof -
  let ?q = "brk (rmem w)"
  have fr: "blocks (rmem w) ?q = None" "blocks (rmem w) (Suc ?q) = None" "0 < ?q"
    using assms(3) mem_wf_fresh [OF assms(3)] mem_wf_brk by simp_all
  have restore: "(blocks (rmem w))(?q \<mapsto> b, Suc ?q \<mapsto> b', Suc ?q := None, ?q := None) = blocks (rmem w)" for b b'
    using fr by (auto simp: fun_eq_iff)
  show ?thesis
    using getCallback_answers [where run = run and r = "\<lparr>qr_redis_context = x, qr_sql = Suc ?q, qr_query_cb = cb,
          qr_result = 0, qr_err = 0, qr_udata = ud\<rparr>" and w = w' and c = c and s = "s\<lparr>c_data := ?q\<rparr>" and reply = reply] assms(1,2,4,5) fr restore
    by (cases reply) (simp_all add: queued_def query_req_at_def Let_def)
qed

text \<open>A query on an open context, answered before the next one is made, calls its
  callback exactly once, with the reply or with the error text of the connection, and
  releases every block it took.\<close>

theorem redis_query_answered:
  assumes "observes run" "ready x c w" "asyncs w c = Some s"
  shows "\<exists>w1 w2. redis_query x sql cb ud w = Some w1 \<and> commands w1 = commands w @ [(c, sql)] \<and>
     getCallback run c reply w1 = Some w2 \<and>
     answers w2 = answers w @ [(cb, case reply of None \<Rightarrow> Error (c_errstr s) | Some n \<Rightarrow> Reply n, ud)] \<and>
     blocks (rmem w2) = blocks (rmem w) \<and> ready x c w2"
proof -
  obtain w1 where w1: "redis_query x sql cb ud w = Some w1" "queued x c sql cb ud w w1" "ready x c w1"
      "commands w1 = commands w @ [(c, sql)]"
    using redis_query_queues [OF assms(2)] by blast
  from queued_answers [OF observes_at [OF assms(1)] w1(2) _ _ assms(3), of reply] w1 assms(2)
  show ?thesis by (auto simp: ready_def context_at_def)
qed

definition quiet_run :: "'u redis_run" where "quiet_run cb x ud w = Some w"

lemma observes_quiet: "observes quiet_run"
  by (simp add: observes_def quiet_run_def)

definition open_redis :: "unit redis" where
  "open_redis = \<lparr>rmem = \<lparr>blocks = [1 \<mapsto> RContext \<lparr>rc_context = 50, rc_is_closing = False\<rparr>], brk = 2\<rparr>,
     asyncs = [50 \<mapsto> \<lparr>c_data = 0, c_errstr = ''lost''\<rparr>], commands = [], disconnects = [], answers = [], ruser = ()\<rparr>"

lemma open_redis_ready: "ready 1 50 open_redis"
  by (simp add: ready_def open_redis_def mem_wf_def context_at_def)

lemma redis_query_answered_witness:
  "\<exists>w1 w2. redis_query 1 ''get key'' 7 9 open_redis = Some w1 \<and>
     getCallback quiet_run 50 None w1 = Some w2 \<and> answers w2 = [(7, Error ''lost'', 9)]"
  using redis_query_answered [OF observes_quiet open_redis_ready, of "\<lparr>c_data = 0, c_errstr = ''lost''\<rparr>" "''get key''" 7 9 None]
  by (auto simp: open_redis_def)

section \<open>Two queries in flight\<close>

text \<open>C27 (error): of two queries in flight on one connection, the callback of the second is given the
  reply to the first; the reply to the second is dropped, the callback of the first is never
  called, and its request stays allocated.\<close>

theorem redis_pipelined_mixup:
  assumes "observes run" "ready x c w"
  shows "\<exists>w1 w2 w3. redis_query x sql1 cb1 ud1 w = Some w1 \<and> redis_query x sql2 cb2 ud2 w1 = Some w2 \<and>
     commands w2 = commands w @ [(c, sql1), (c, sql2)] \<and>
     getCallback run c (Some reply1) w2 = Some w3 \<and> getCallback run c (Some reply2) w3 = Some w3 \<and>
     answers w3 = answers w @ [(cb2, Reply reply1, ud2)] \<and>
     blocks (rmem w) (brk (rmem w)) = None \<and> blocks (rmem w3) (brk (rmem w)) \<noteq> None"
proof -
  obtain w1 where w1: "redis_query x sql1 cb1 ud1 w = Some w1" "queued x c sql1 cb1 ud1 w w1" "ready x c w1"
      "commands w1 = commands w @ [(c, sql1)]"
    using redis_query_queues [OF assms(2)] by blast
  obtain w2 where w2: "redis_query x sql2 cb2 ud2 w1 = Some w2" "queued x c sql2 cb2 ud2 w1 w2" "ready x c w2"
      "commands w2 = commands w1 @ [(c, sql2)]"
    using redis_query_queues [OF w1(3)] by blast
  obtain s where s: "asyncs w1 c = Some s" using w1(3) by (auto simp: ready_def)
  obtain w3 where w3: "getCallback run c (Some reply1) w2 = Some w3"
      "answers w3 = answers w1 @ [(cb2, Reply reply1, ud2)]" "blocks (rmem w3) = blocks (rmem w1)"
      "asyncs w3 = (asyncs w1)(c \<mapsto> s\<lparr>c_data := 0\<rparr>)"
    using queued_answers [OF observes_at [OF assms(1)] w2(2) _ _ s, of "Some reply1"] w1(3) w2(3) by (auto simp: ready_def)
  have "getCallback run c (Some reply2) w3 = Some w3" using w3(4) by (simp add: getCallback_def)
  moreover have "blocks (rmem w3) (brk (rmem w)) \<noteq> None" "answers w1 = answers w"
    using w3(3) w1(2) by (simp_all add: queued_def Let_def)
  moreover have "blocks (rmem w) (brk (rmem w)) = None"
    using assms(2) by (simp add: ready_def mem_wf_def)
  ultimately show ?thesis using w1 w2 w3 by auto
qed

lemma redis_pipelined_mixup_witness:
  "\<exists>w1 w2 w3. redis_query 1 ''get a'' 7 0 open_redis = Some w1 \<and> redis_query 1 ''get b'' 8 0 w1 = Some w2 \<and>
     getCallback quiet_run 50 (Some 100) w2 = Some w3 \<and> answers w3 = [(8, Reply 100, 0)]"
  using redis_pipelined_mixup [OF observes_quiet open_redis_ready, of "''get a''" 7 0 "''get b''" 8 0 100 200]
  by (auto simp: open_redis_def)

text \<open>A query made by the callback of a query is lost: \<open>c->data\<close> is cleared after the callback.\<close>

lemma nested_query_lost:
  assumes "getCallback run c reply w = Some w'" "asyncs w c = Some s" "c_data s \<noteq> 0"
  shows "\<exists>s'. asyncs w' c = Some s' \<and> c_data s' = 0" "getCallback run c later w' = Some w'"
proof -
  show "\<exists>s'. asyncs w' c = Some s' \<and> c_data s' = 0"
    using assms by (auto simp: getCallback_def set_c_data_def Let_def split: bind_splits option.splits prod.splits)
  then show "getCallback run c later w' = Some w'" by (auto simp: getCallback_def)
qed

text \<open>A failed connection: the callback is told, and the request, the host and the error text stay.\<close>

lemma failed_connect_leaks:
  assumes "asyncs w c = Some s" "blocks (rmem w) (c_data s) = Some (RConnect r)" "connectCallback quiet_run c False w = Some w'"
  shows "answers w' = answers w @ [(cr_open_cb r, Error (c_errstr s), cr_udata r)]"
    "blocks (rmem w') (c_data s) \<noteq> None"
  using assms by (auto simp: connectCallback_def redis_mem call_user_def quiet_run_def Let_def split: if_splits)

text \<open>A successful connection: the caller gets a context, and only its block remains.\<close>

lemma connect_then_context:
  assumes "mem_wf (rmem w)" "observes run"
  shows "\<exists>w1 w2 x. redis_connect (Some (c, None)) host port cb ud w = Some w1 \<and>
     connectCallback run c True w1 = Some w2 \<and> answers w2 = answers w @ [(cb, Connected x, ud)] \<and>
     blocks (rmem w2) = (blocks (rmem w))(x \<mapsto> RContext \<lparr>rc_context = c, rc_is_closing = False\<rparr>)"
proof -
  let ?b = "brk (rmem w)"
  have fr: "blocks (rmem w) ?b = None" "blocks (rmem w) (Suc ?b) = None" "blocks (rmem w) (Suc (Suc ?b)) = None" "0 < ?b"
    using assms(1) mem_wf_fresh [OF assms(1)] mem_wf_brk by simp_all
  obtain w1 where w1: "redis_connect (Some (c, None)) host port cb ud w = Some w1" "asyncs w1 c = Some \<lparr>c_data = ?b, c_errstr = []\<rparr>"
      "blocks (rmem w1) = (blocks (rmem w))(?b \<mapsto> RConnect \<lparr>cr_host = Suc ?b, cr_port = port, cr_open_cb = cb, cr_err = 0,
          cr_redis_context = 0, cr_udata = ud\<rparr>, Suc ?b \<mapsto> RString host)" "brk (rmem w1) = Suc (Suc ?b)" "answers w1 = answers w"
    using fr by (simp add: redis_connect_def redis_mem set_c_data_def fun_upd_twist Let_def)
  define v where "v = w1\<lparr>rmem := (rmem w1)\<lparr>brk := Suc (Suc (Suc ?b)), blocks := (blocks (rmem w1))
    (Suc (Suc ?b) \<mapsto> RContext \<lparr>rc_context = c, rc_is_closing = False\<rparr>,
     ?b \<mapsto> RConnect \<lparr>cr_host = Suc ?b, cr_port = port, cr_open_cb = cb, cr_err = 0,
          cr_redis_context = Suc (Suc ?b), cr_udata = ud\<rparr>)\<rparr>\<rparr>"
  obtain v' where v': "call_user run cb (Connected (Suc (Suc ?b))) ud v = Some v'" "rmem v' = rmem v"
      "answers v' = answers v @ [(cb, Connected (Suc (Suc ?b)), ud)]"
    using assms(2) by (fastforce simp: observes_def call_user_def)
  have "\<exists>w2. connectCallback run c True w1 = Some w2 \<and> answers w2 = answers w @ [(cb, Connected (Suc (Suc ?b)), ud)] \<and>
     blocks (rmem w2) = (blocks (rmem w))(Suc (Suc ?b) \<mapsto> RContext \<lparr>rc_context = c, rc_is_closing = False\<rparr>)"
    using w1 v' fr by (auto simp: connectCallback_def redis_mem v_def fun_eq_iff Let_def)
  then show ?thesis using w1(1) by blast
qed

end
