(* ===== verification/Mysql.thy ===== *)
theory Mysql
  imports Blocks
begin

text \<open>
  The MySQL client of database/mysql_wrapper.cc. Every operation is a request for the thread pool of
  libuv: a work function that runs on some thread, then a completion on the loop thread. The
  model keeps the requests submitted and those whose work is done, and a schedule is a list of
  events; one work function runs at a time, as it does between its mutex calls. The driver, which is not
  part of the repository, is the record \<open>driver\<close> of the outcomes of its calls.
\<close>

section \<open>State\<close>

record mysql_connect_req =
  mc_host :: addr
  mc_port :: int
  mc_user :: addr
  mc_pass :: addr
  mc_db_name :: addr
  mc_open_cb :: nat
  mc_context :: addr
  mc_err :: addr
  mc_udata :: addr

record mysql_context =
  mx_context :: nat
  mx_is_closing :: bool

text \<open>The error text of a query is null, or the text of an exception that no longer exists.\<close>

datatype err_ptr = Null_err | Dangling_err

record mysql_query_req =
  mq_context :: addr
  mq_sql :: addr
  mq_query_cb :: nat
  mq_result :: "nat option"
  mq_err :: err_ptr
  mq_udata :: addr

datatype mblock = MString string | MWork addr | MConnect mysql_connect_req | MContext mysql_context
  | MQuery mysql_query_req

text \<open>What a callback is given: the error text or the context; the dangling error or the result set.\<close>

datatype manswer = MOpened "string option" addr | MAnswered err_ptr "nat option"

datatype work_kind = WConnect | WQuery | WClose

record 'u mysql =
  mmem :: "mblock mem"
  submitted :: "(work_kind \<times> addr) list"
  worked :: "(work_kind \<times> addr) list"
  closed_cons :: "nat list"
  manswers :: "(nat \<times> manswer \<times> addr) list"
  muser :: 'u

type_synonym 'u mysql_run = "nat \<Rightarrow> manswer \<Rightarrow> addr \<Rightarrow> 'u mysql \<Rightarrow> 'u mysql option"

text \<open>
  The driver: a connection that is null, not valid, valid, or an exception; setting the schema, which may
  raise an \<open>SQLException\<close> or another exception; a query with its row count and result set, or the text of an
  exception.
\<close>

datatype con_result = Con_null | Con_invalid | Con_ok nat | Con_throws

datatype schema_result = Schema_ok | Schema_sql_exception | Schema_throws

datatype exec_result = Rows nat nat | Exec_throws string

record driver =
  d_connect :: "string \<Rightarrow> string \<Rightarrow> string \<Rightarrow> con_result"
  d_schema :: "nat \<Rightarrow> string \<Rightarrow> schema_result"
  d_execute :: "nat \<Rightarrow> string \<Rightarrow> exec_result"

section \<open>Helpers\<close>

definition in_mmem :: "(mblock mem \<Rightarrow> mblock mem option) \<Rightarrow> 'u mysql \<Rightarrow> 'u mysql option" where
  "in_mmem f w = map_option (\<lambda>m. w\<lparr>mmem := m\<rparr>) (f (mmem w))"

definition mysql_malloc :: "mblock \<Rightarrow> 'u mysql \<Rightarrow> addr \<times> 'u mysql" where
  "mysql_malloc b w = (let (a, m) = new_block b (mmem w) in (a, w\<lparr>mmem := m\<rparr>))"

definition mysql_strdup :: "string \<Rightarrow> 'u mysql \<Rightarrow> addr \<times> 'u mysql" where
  "mysql_strdup src w = mysql_malloc (MString src) w"

definition mysql_free_strdup :: "addr \<Rightarrow> 'u mysql \<Rightarrow> 'u mysql option" where
  "mysql_free_strdup a w = in_mmem (free_unless_null a) w"

definition mysql_free :: "addr \<Rightarrow> 'u mysql \<Rightarrow> 'u mysql option" where
  "mysql_free a w = in_mmem (free_block a) w"

definition string_at :: "addr \<Rightarrow> 'u mysql \<Rightarrow> string option" where
  "string_at a w = (case blocks (mmem w) a of Some (MString s) \<Rightarrow> Some s | _ \<Rightarrow> None)"

definition work_at :: "addr \<Rightarrow> 'u mysql \<Rightarrow> addr option" where
  "work_at a w = (case blocks (mmem w) a of Some (MWork d) \<Rightarrow> Some d | _ \<Rightarrow> None)"

definition mconnect_at :: "addr \<Rightarrow> 'u mysql \<Rightarrow> mysql_connect_req option" where
  "mconnect_at a w = (case blocks (mmem w) a of Some (MConnect r) \<Rightarrow> Some r | _ \<Rightarrow> None)"

definition mcontext_at :: "addr \<Rightarrow> 'u mysql \<Rightarrow> mysql_context option" where
  "mcontext_at a w = (case blocks (mmem w) a of Some (MContext r) \<Rightarrow> Some r | _ \<Rightarrow> None)"

definition mquery_at :: "addr \<Rightarrow> 'u mysql \<Rightarrow> mysql_query_req option" where
  "mquery_at a w = (case blocks (mmem w) a of Some (MQuery r) \<Rightarrow> Some r | _ \<Rightarrow> None)"

definition mcall_user :: "'u mysql_run \<Rightarrow> nat \<Rightarrow> manswer \<Rightarrow> addr \<Rightarrow> 'u mysql \<Rightarrow> 'u mysql option" where
  "mcall_user run cb x udata w = run cb x udata (w\<lparr>manswers := manswers w @ [(cb, x, udata)]\<rparr>)"

definition uv_queue_work :: "work_kind \<Rightarrow> addr \<Rightarrow> 'u mysql \<Rightarrow> 'u mysql" where
  "uv_queue_work k req w = w\<lparr>submitted := submitted w @ [(k, req)]\<rparr>"

section \<open>Connecting\<close>

definition set_connect :: "addr \<Rightarrow> mysql_connect_req \<Rightarrow> 'u mysql \<Rightarrow> 'u mysql option" where
  "set_connect a r w = in_mmem (put_block a (MConnect r)) w"

definition connect_failed :: "addr \<Rightarrow> mysql_connect_req \<Rightarrow> string \<Rightarrow> 'u mysql \<Rightarrow> 'u mysql option" where
  "connect_failed a r msg w =
     (let (e, w) = mysql_strdup msg w in set_connect a (r\<lparr>mc_context := 0, mc_err := e\<rparr>) w)"

text \<open>
  The buffer for \<open>host:port\<close> is never freed. An exception other than an \<open>SQLException\<close> from
  \<open>setSchema\<close> leaves the thread function and ends the program.
\<close>

definition connect_work :: "driver \<Rightarrow> addr \<Rightarrow> 'u mysql \<Rightarrow> 'u mysql option" where
  "connect_work D req w =
     do { a \<leftarrow> work_at req w;
          r \<leftarrow> mconnect_at a w;
          host \<leftarrow> string_at (mc_host r) w;
          usr \<leftarrow> string_at (mc_user r) w;
          pass \<leftarrow> string_at (mc_pass r) w;
          db_name \<leftarrow> string_at (mc_db_name r) w;
          url \<leftarrow> sprintf (length host + 10) (host @ '':'' @ dec_int (mc_port r));
          let (h, w) = mysql_malloc (MString url) w;
          (case d_connect D url usr pass of
             Con_ok con \<Rightarrow>
               (case d_schema D con db_name of
                  Schema_ok \<Rightarrow>
                    (let (c, w) = mysql_malloc (MContext \<lparr>mx_context = con, mx_is_closing = False\<rparr>) w in
                     set_connect a (r\<lparr>mc_context := c, mc_err := 0\<rparr>) w)
                | Schema_sql_exception \<Rightarrow> connect_failed a r ''Failed to set schema'' w
                | Schema_throws \<Rightarrow> None)
           | _ \<Rightarrow> connect_failed a r ''connect failed'' w) }"

definition on_connect_work_complete :: "'u mysql_run \<Rightarrow> addr \<Rightarrow> 'u mysql \<Rightarrow> 'u mysql option" where
  "on_connect_work_complete run req w =
     do { a \<leftarrow> work_at req w;
          r \<leftarrow> mconnect_at a w;
          w \<leftarrow> (if mc_open_cb r = 0 then Some w
               else if mc_err r = 0 then mcall_user run (mc_open_cb r) (MOpened None (mc_context r)) (mc_udata r) w
               else do { e \<leftarrow> string_at (mc_err r) w;
                         mcall_user run (mc_open_cb r) (MOpened (Some e) (mc_context r)) (mc_udata r) w });
          w \<leftarrow> mysql_free_strdup (mc_host r) w;
          w \<leftarrow> mysql_free_strdup (mc_db_name r) w;
          w \<leftarrow> mysql_free_strdup (mc_user r) w;
          w \<leftarrow> mysql_free_strdup (mc_pass r) w;
          w \<leftarrow> mysql_free_strdup (mc_err r) w;
          w \<leftarrow> mysql_free a w;
          mysql_free req w }"

definition mysql_connect ::
  "string \<Rightarrow> int \<Rightarrow> string \<Rightarrow> string \<Rightarrow> string \<Rightarrow> nat \<Rightarrow> addr \<Rightarrow> 'u mysql \<Rightarrow> 'u mysql option" where
  "mysql_connect host port usr pass db_name open_cb udata w =
     (let (req, w) = mysql_malloc (MWork 0) w;
          (a, w) = mysql_malloc (MConnect \<lparr>mc_host = 0, mc_port = 0, mc_user = 0, mc_pass = 0, mc_db_name = 0,
             mc_open_cb = 0, mc_context = 0, mc_err = 0, mc_udata = 0\<rparr>) w;
          (h, w) = mysql_strdup host w;
          (u, w) = mysql_strdup usr w;
          (p, w) = mysql_strdup pass w;
          (d, w) = mysql_strdup db_name w in
      do { w \<leftarrow> set_connect a \<lparr>mc_host = h, mc_port = port, mc_user = u, mc_pass = p, mc_db_name = d,
             mc_open_cb = open_cb, mc_context = 0, mc_err = 0, mc_udata = udata\<rparr> w;
           w \<leftarrow> in_mmem (put_block req (MWork a)) w;
           Some (uv_queue_work WConnect req w) })"

section \<open>Queries\<close>

text \<open>\<open>r->err = (char*)e.what()\<close>: the exception ends with the handler, and its text with it.\<close>

definition query_work :: "driver \<Rightarrow> addr \<Rightarrow> 'u mysql \<Rightarrow> 'u mysql option" where
  "query_work D req w =
     do { a \<leftarrow> work_at req w;
          r \<leftarrow> mquery_at a w;
          c \<leftarrow> mcontext_at (mq_context r) w;
          sql \<leftarrow> string_at (mq_sql r) w;
          let (result, err) =
            (case d_execute D (mx_context c) sql of
               Rows n res \<Rightarrow> (if n > 0 then Some res else None, Null_err)
             | Exec_throws what \<Rightarrow>
                 if what = ''No result available'' then (None, Null_err) else (None, Dangling_err));
          in_mmem (put_block a (MQuery (r\<lparr>mq_result := result, mq_err := err\<rparr>))) w }"

definition on_query_work_complete :: "'u mysql_run \<Rightarrow> addr \<Rightarrow> 'u mysql \<Rightarrow> 'u mysql option" where
  "on_query_work_complete run req w =
     do { a \<leftarrow> work_at req w;
          r \<leftarrow> mquery_at a w;
          w \<leftarrow> mcall_user run (mq_query_cb r) (MAnswered (mq_err r) (mq_result r)) (mq_udata r) w;
          w \<leftarrow> mysql_free_strdup (mq_sql r) w;
          w \<leftarrow> mysql_free a w;
          mysql_free req w }"

definition mysql_query :: "addr \<Rightarrow> string \<Rightarrow> nat \<Rightarrow> addr \<Rightarrow> 'u mysql \<Rightarrow> 'u mysql option" where
  "mysql_query context sql query_cb udata w =
     do { c \<leftarrow> mcontext_at context w;
          if mx_is_closing c then Some w
          else do {
            let (req, w) = mysql_malloc (MWork 0) w;
            let (a, w) = mysql_malloc (MQuery \<lparr>mq_context = 0, mq_sql = 0, mq_query_cb = 0, mq_result = None,
                   mq_err = Null_err, mq_udata = 0\<rparr>) w;
            let (s, w) = mysql_strdup sql w;
            w \<leftarrow> in_mmem (put_block a (MQuery \<lparr>mq_context = context, mq_sql = s, mq_query_cb = query_cb,
                   mq_result = None, mq_err = Null_err, mq_udata = udata\<rparr>)) w;
            w \<leftarrow> in_mmem (put_block req (MWork a)) w;
            Some (uv_queue_work WQuery req w) } }"

section \<open>Closing\<close>

definition close_work :: "addr \<Rightarrow> 'u mysql \<Rightarrow> 'u mysql option" where
  "close_work req w =
     do { a \<leftarrow> work_at req w;
          c \<leftarrow> mcontext_at a w;
          Some (w\<lparr>closed_cons := closed_cons w @ [mx_context c]\<rparr>) }"

definition on_close_work_complete :: "addr \<Rightarrow> 'u mysql \<Rightarrow> 'u mysql option" where
  "on_close_work_complete req w = do { a \<leftarrow> work_at req w; w \<leftarrow> mysql_free a w; mysql_free req w }"

definition mysql_close :: "addr \<Rightarrow> 'u mysql \<Rightarrow> 'u mysql option" where
  "mysql_close context w =
     do { c \<leftarrow> mcontext_at context w;
          if mx_is_closing c then Some w
          else do {
            let (req, w) = mysql_malloc (MWork context) w;
            w \<leftarrow> in_mmem (put_block context (MContext (c\<lparr>mx_is_closing := True\<rparr>))) w;
            Some (uv_queue_work WClose req w) } }"

section \<open>The thread pool\<close>

text \<open>
  A submitted request may be worked on at any time, whatever its place in the queue; a worked one
  may be completed at any time. An event for a request in neither list does nothing.
\<close>

datatype pool_event = Work work_kind addr | Complete work_kind addr

fun run_work :: "driver \<Rightarrow> work_kind \<Rightarrow> addr \<Rightarrow> 'u mysql \<Rightarrow> 'u mysql option" where
  "run_work D WConnect req w = connect_work D req w"
| "run_work D WQuery req w = query_work D req w"
| "run_work D WClose req w = close_work req w"

fun run_complete :: "'u mysql_run \<Rightarrow> work_kind \<Rightarrow> addr \<Rightarrow> 'u mysql \<Rightarrow> 'u mysql option" where
  "run_complete run WConnect req w = on_connect_work_complete run req w"
| "run_complete run WQuery req w = on_query_work_complete run req w"
| "run_complete run WClose req w = on_close_work_complete req w"

fun run_event :: "driver \<Rightarrow> 'u mysql_run \<Rightarrow> pool_event \<Rightarrow> 'u mysql \<Rightarrow> 'u mysql option" where
  "run_event D run (Work k req) w =
     (if (k, req) \<notin> set (submitted w) then Some w
      else run_work D k req (w\<lparr>submitted := remove1 (k, req) (submitted w), worked := worked w @ [(k, req)]\<rparr>))"
| "run_event D run (Complete k req) w =
     (if (k, req) \<notin> set (worked w) then Some w
      else run_complete run k req (w\<lparr>worked := remove1 (k, req) (worked w)\<rparr>))"

fun pool_events :: "driver \<Rightarrow> 'u mysql_run \<Rightarrow> pool_event list \<Rightarrow> 'u mysql \<Rightarrow> 'u mysql option" where
  "pool_events D run [] w = Some w"
| "pool_events D run (e # es) w = run_event D run e w \<bind> pool_events D run es"

lemma pool_events_append:
  "pool_events D run (es @ es') w = pool_events D run es w \<bind> pool_events D run es'"
  by (induction es arbitrary: w) (auto split: bind_split)

section \<open>A connection attempt\<close>

text \<open>Callbacks of the user that return and leave the memory and the queue as they are.\<close>

definition mobserves :: "'u mysql_run \<Rightarrow> bool" where
  "mobserves run \<longleftrightarrow> (\<forall>cb x u w. \<exists>w'. run cb x u w = Some w' \<and> mmem w' = mmem w \<and> submitted w' = submitted w \<and>
     worked w' = worked w \<and> closed_cons w' = closed_cons w \<and> manswers w' = manswers w)"

lemma mobserves_call:
  assumes "mobserves run"
  obtains w' where "mcall_user run cb x u w = Some w'" "mmem w' = mmem w" "submitted w' = submitted w"
    "worked w' = worked w" "closed_cons w' = closed_cons w" "manswers w' = manswers w @ [(cb, x, u)]"
proof -
  from assms have "\<exists>w'. mcall_user run cb x u w = Some w' \<and> mmem w' = mmem w \<and> submitted w' = submitted w \<and>
      worked w' = worked w \<and> closed_cons w' = closed_cons w \<and> manswers w' = manswers w @ [(cb, x, u)]"
    by (fastforce simp: mobserves_def mcall_user_def)
  then show ?thesis using that by blast
qed

lemmas mysql_mem = in_mmem_def mysql_malloc_def mysql_strdup_def mysql_free_strdup_def mysql_free_def new_block_def
  put_block_def free_block_def free_unless_null_def string_at_def work_at_def mconnect_at_def mcontext_at_def
  mquery_at_def set_connect_def

text \<open>The outcome of connecting: the error text, or the connection.\<close>

definition connect_outcome :: "driver \<Rightarrow> string \<Rightarrow> string \<Rightarrow> string \<Rightarrow> string \<Rightarrow> string + nat" where
  "connect_outcome D url usr pass db_name =
     (case d_connect D url usr pass of
        Con_ok con \<Rightarrow> (if d_schema D con db_name = Schema_ok then Inr con else Inl ''Failed to set schema'')
      | _ \<Rightarrow> Inl ''connect failed'')"

definition no_crash :: "driver \<Rightarrow> bool" where
  "no_crash D \<longleftrightarrow> (\<forall>con db. d_schema D con db \<noteq> Schema_throws)"

text \<open>The seven blocks of a connection attempt.\<close>

definition connecting :: "addr \<Rightarrow> mysql_connect_req \<Rightarrow> string \<Rightarrow> string \<Rightarrow> string \<Rightarrow> string \<Rightarrow>
    (addr \<rightharpoonup> mblock) \<Rightarrow> addr \<rightharpoonup> mblock" where
  "connecting b r host usr pass db_name m = m(b \<mapsto> MWork (b + 1), b + 1 \<mapsto> MConnect r, b + 2 \<mapsto> MString host,
     b + 3 \<mapsto> MString usr, b + 4 \<mapsto> MString pass, b + 5 \<mapsto> MString db_name)"

definition fresh_req :: "addr \<Rightarrow> int \<Rightarrow> nat \<Rightarrow> addr \<Rightarrow> mysql_connect_req" where
  "fresh_req b port cb ud = \<lparr>mc_host = b + 2, mc_port = port, mc_user = b + 3, mc_pass = b + 4, mc_db_name = b + 5,
     mc_open_cb = cb, mc_context = 0, mc_err = 0, mc_udata = ud\<rparr>"

lemma mysql_connect_state:
  assumes "mem_wf (mmem w)" "b = brk (mmem w)"
  shows "\<exists>w1. mysql_connect host port usr pass db_name cb ud w = Some w1 \<and>
    blocks (mmem w1) = connecting b (fresh_req b port cb ud) host usr pass db_name (blocks (mmem w)) \<and>
    brk (mmem w1) = b + 6 \<and> submitted w1 = submitted w @ [(WConnect, b)] \<and> worked w1 = worked w \<and>
    manswers w1 = manswers w"
  using assms by (simp add: mysql_connect_def mysql_mem connecting_def fresh_req_def uv_queue_work_def
      fun_upd_twist Let_def numeral_eq_Suc)

lemma url_fits:
  assumes "0 \<le> port" "port \<le> 65535"
  shows "sprintf (length host + 10) (host @ '':'' @ dec_int port) = Some (host @ '':'' @ dec_int port)"
proof -
  have "nat \<bar>port\<bar> < 10 ^ Suc 4" using assms by simp
  from length_dec [OF this] show ?thesis using assms by (simp add: sprintf_def dec_int_def)
qed

lemma connect_work_state:
  assumes blk: "blocks (mmem w) = connecting b (fresh_req b port cb ud) host usr pass db_name m"
    and brk: "brk (mmem w) = b + 6" and port: "0 \<le> port" "port \<le> 65535" and D: "no_crash D"
    and url: "url = host @ '':'' @ dec_int port"
  shows "\<exists>w1. connect_work D b w = Some w1 \<and> submitted w1 = submitted w \<and> worked w1 = worked w \<and>
    manswers w1 = manswers w \<and>
    blocks (mmem w1) =
      (case connect_outcome D url usr pass db_name of
         Inl e \<Rightarrow> connecting b ((fresh_req b port cb ud)\<lparr>mc_err := b + 7\<rparr>) host usr pass db_name
            (m(b + 6 \<mapsto> MString url, b + 7 \<mapsto> MString e))
       | Inr con \<Rightarrow> connecting b ((fresh_req b port cb ud)\<lparr>mc_context := b + 7\<rparr>) host usr pass db_name
            (m(b + 6 \<mapsto> MString url, b + 7 \<mapsto> MContext \<lparr>mx_context = con, mx_is_closing = False\<rparr>)))"
proof -
  note defs = connect_work_def mysql_mem connecting_def fresh_req_def connect_outcome_def connect_failed_def
  have fits: "sprintf (length host + 10) (host @ CHR '':'' # dec_int port) = Some (host @ CHR '':'' # dec_int port)"
    using url_fits [OF port] by simp
  show ?thesis
  proof (cases "d_connect D url usr pass")
    case (Con_ok con)
    have "d_schema D con db_name \<noteq> Schema_throws" using D by (simp add: no_crash_def)
    then show ?thesis using Con_ok blk brk url fits
      by (cases "d_schema D con db_name") (simp_all add: defs Let_def fun_eq_iff)
  qed (use blk brk url fits in \<open>simp_all add: defs Let_def fun_eq_iff\<close>)
qed

lemma connect_complete_state:
  assumes blk: "blocks (mmem w) = connecting b ((fresh_req b port cb ud)\<lparr>mc_context := c, mc_err := e\<rparr>)
        host usr pass db_name m"
    and e: "e = 0 \<or> e = b + 7 \<and> m (b + 7) = Some (MString msg)"
    and m: "\<And>a. b \<le> a \<Longrightarrow> a \<le> b + 5 \<Longrightarrow> m a = None" and b: "0 < b" and "mobserves run" "cb \<noteq> 0"
  shows "\<exists>w1. on_connect_work_complete run b w = Some w1 \<and>
    blocks (mmem w1) = (if e = 0 then m else m(e := None)) \<and> submitted w1 = submitted w \<and> worked w1 = worked w \<and>
    manswers w1 = manswers w @ [(cb, MOpened (if e = 0 then None else Some msg) c, ud)]"
proof -
  obtain w1 where w1: "mcall_user run cb (MOpened (if e = 0 then None else Some msg) c) ud w = Some w1"
      "mmem w1 = mmem w" "submitted w1 = submitted w" "worked w1 = worked w"
      "manswers w1 = manswers w @ [(cb, MOpened (if e = 0 then None else Some msg) c, ud)]"
    using mobserves_call [OF assms(5)] by metis
  have m0: "m b = None" "m (b + 1) = None" "m (b + 2) = None" "m (b + 3) = None" "m (b + 4) = None" "m (b + 5) = None"
    using m by simp_all
  show ?thesis
  proof (cases "e = 0")
    case True
    then show ?thesis using blk w1 m0 b assms(6)
      by (simp add: on_connect_work_complete_def mysql_mem connecting_def fresh_req_def Let_def fun_eq_iff)
  next
    case False
    then show ?thesis using blk w1 m0 b assms(6) e
      by (simp add: on_connect_work_complete_def mysql_mem connecting_def fresh_req_def Let_def fun_eq_iff)
  qed
qed

text \<open>C26 (safety): a connection attempt, worked on and completed, calls its callback exactly once, with
  the error text or with a new context, and gives back every block but two: the context, when
  there is one, and the buffer with host and port, which is lost.\<close>

theorem mysql_connect_balance:
  assumes "mem_wf (mmem w)" "b = brk (mmem w)" "0 \<le> port" "port \<le> 65535" "no_crash D" "mobserves run" "cb \<noteq> 0"
    and url: "url = host @ '':'' @ dec_int port" and "(WConnect, b) \<notin> set (submitted w @ worked w)"
  shows "\<exists>w1 w2. mysql_connect host port usr pass db_name cb ud w = Some w1 \<and>
     pool_events D run [Work WConnect b, Complete WConnect b] w1 = Some w2 \<and>
     submitted w2 = submitted w \<and> worked w2 = worked w \<and>
     (case connect_outcome D url usr pass db_name of
        Inl e \<Rightarrow> manswers w2 = manswers w @ [(cb, MOpened (Some e) 0, ud)] \<and>
          blocks (mmem w2) = (blocks (mmem w))(b + 6 \<mapsto> MString url)
      | Inr con \<Rightarrow> manswers w2 = manswers w @ [(cb, MOpened None (b + 7), ud)] \<and>
          blocks (mmem w2) = (blocks (mmem w))(b + 6 \<mapsto> MString url,
            b + 7 \<mapsto> MContext \<lparr>mx_context = con, mx_is_closing = False\<rparr>))"
proof -
  let ?m = "blocks (mmem w)"
  have m: "b \<le> a \<Longrightarrow> ?m a = None" for a using mem_wf_fresh [OF assms(1)] assms(2) by simp
  have b: "0 < b" using assms(1,2) by (simp add: mem_wf_def)
  obtain w1 where w1: "mysql_connect host port usr pass db_name cb ud w = Some w1"
      "blocks (mmem w1) = connecting b (fresh_req b port cb ud) host usr pass db_name ?m"
      "brk (mmem w1) = b + 6" "submitted w1 = submitted w @ [(WConnect, b)]" "worked w1 = worked w"
      "manswers w1 = manswers w"
    using mysql_connect_state [OF assms(1,2)] by blast
  define v where "v = w1\<lparr>submitted := submitted w, worked := worked w @ [(WConnect, b)]\<rparr>"
  have work: "run_event D run (Work WConnect b) w1 = connect_work D b v"
    using w1(4,5) assms(9) by (simp add: v_def remove1_append)
  have complete: "run_event D run (Complete WConnect b) u = on_connect_work_complete run b (u\<lparr>worked := worked w\<rparr>)"
    if "worked u = worked w @ [(WConnect, b)]" for u
    using that assms(9) by (simp add: remove1_append)
  have v: "blocks (mmem v) = connecting b (fresh_req b port cb ud) host usr pass db_name ?m" "brk (mmem v) = b + 6"
    using w1(2,3) by (simp_all add: v_def)
  from connect_work_state [OF v assms(3-5) url]
  obtain u where u: "connect_work D b v = Some u" "submitted u = submitted v" "worked u = worked v"
      "manswers u = manswers v" and blk: "blocks (mmem u) =
      (case connect_outcome D url usr pass db_name of
         Inl e \<Rightarrow> connecting b ((fresh_req b port cb ud)\<lparr>mc_err := b + 7\<rparr>) host usr pass db_name
            (?m(b + 6 \<mapsto> MString url, b + 7 \<mapsto> MString e))
       | Inr con \<Rightarrow> connecting b ((fresh_req b port cb ud)\<lparr>mc_context := b + 7\<rparr>) host usr pass db_name
            (?m(b + 6 \<mapsto> MString url, b + 7 \<mapsto> MContext \<lparr>mx_context = con, mx_is_closing = False\<rparr>)))"
    by blast
  note finish = complete [of u] u v_def w1(1,6) work
  show ?thesis
  proof (cases "connect_outcome D url usr pass db_name")
    case (Inl e)
    let ?m2 = "?m(b + 6 \<mapsto> MString url, b + 7 \<mapsto> MString e)"
    have "blocks (mmem (u\<lparr>worked := worked w\<rparr>)) =
        connecting b ((fresh_req b port cb ud)\<lparr>mc_context := 0, mc_err := b + 7\<rparr>) host usr pass db_name ?m2"
      using blk Inl by (simp add: fresh_req_def)
    from connect_complete_state [OF this _ _ b assms(6,7), of e] m
    show ?thesis using finish Inl by (auto simp: fun_upd_idem)
  next
    case (Inr con)
    let ?m2 = "?m(b + 6 \<mapsto> MString url, b + 7 \<mapsto> MContext \<lparr>mx_context = con, mx_is_closing = False\<rparr>)"
    have "blocks (mmem (u\<lparr>worked := worked w\<rparr>)) =
        connecting b ((fresh_req b port cb ud)\<lparr>mc_context := b + 7, mc_err := 0\<rparr>) host usr pass db_name ?m2"
      using blk Inr by (simp add: fresh_req_def)
    from connect_complete_state [OF this _ _ b assms(6,7)] m
    show ?thesis using finish Inr by auto
  qed
qed

section \<open>A query and the closing of its context\<close>

text \<open>What the callback of a query is given.\<close>

definition query_answer :: "driver \<Rightarrow> nat \<Rightarrow> string \<Rightarrow> manswer" where
  "query_answer D con sql =
     (case d_execute D con sql of
        Rows n res \<Rightarrow> MAnswered Null_err (if n > 0 then Some res else None)
      | Exec_throws what \<Rightarrow> MAnswered (if what = ''No result available'' then Null_err else Dangling_err) None)"

text \<open>A context with a query and then its closing submitted.\<close>

definition closing_after_query ::
  "addr \<Rightarrow> addr \<Rightarrow> nat \<Rightarrow> string \<Rightarrow> nat \<Rightarrow> addr \<Rightarrow> (addr \<rightharpoonup> mblock) \<Rightarrow> addr \<rightharpoonup> mblock" where
  "closing_after_query b x con sql cb ud m = m(x \<mapsto> MContext \<lparr>mx_context = con, mx_is_closing = True\<rparr>,
     b \<mapsto> MWork (b + 1),
     b + 1 \<mapsto> MQuery \<lparr>mq_context = x, mq_sql = b + 2, mq_query_cb = cb, mq_result = None, mq_err = Null_err, mq_udata = ud\<rparr>,
     b + 2 \<mapsto> MString sql, b + 3 \<mapsto> MWork x)"

lemma query_then_close:
  assumes "mem_wf (mmem w)" "b = brk (mmem w)"
    and "blocks (mmem w) x = Some (MContext \<lparr>mx_context = con, mx_is_closing = False\<rparr>)"
  shows "\<exists>w1 w2. mysql_query x sql cb ud w = Some w1 \<and> mysql_close x w1 = Some w2 \<and>
     blocks (mmem w2) = closing_after_query b x con sql cb ud (blocks (mmem w)) \<and>
     submitted w2 = submitted w @ [(WQuery, b), (WClose, b + 3)] \<and> worked w2 = worked w \<and>
     manswers w2 = manswers w \<and> closed_cons w2 = closed_cons w"
proof -
  have "x < b" using mem_wf_bound [OF assms(1,3)] assms(2) by simp
  then show ?thesis using assms
    by (simp add: mysql_query_def mysql_close_def mysql_mem closing_after_query_def uv_queue_work_def
        fun_eq_iff Let_def)
qed

lemma query_work_state:
  assumes "blocks (mmem w) = closing_after_query b x con sql cb ud m" "x < b"
  shows "\<exists>w1 r. query_work D b w = Some w1 \<and> submitted w1 = submitted w \<and> worked w1 = worked w \<and>
    manswers w1 = manswers w \<and> closed_cons w1 = closed_cons w \<and>
    blocks (mmem w1) = (closing_after_query b x con sql cb ud m)(b + 1 \<mapsto> MQuery r) \<and>
    mq_sql r = b + 2 \<and> mq_query_cb r = cb \<and> mq_udata r = ud \<and>
    MAnswered (mq_err r) (mq_result r) = query_answer D con sql"
  using assms
  by (cases "d_execute D con sql") (auto simp: query_work_def mysql_mem closing_after_query_def query_answer_def Let_def)

lemma query_complete_state:
  assumes "blocks (mmem w) = (closing_after_query b x con sql cb ud m)(b + 1 \<mapsto> MQuery r)" "x < b"
    and "mq_sql r = b + 2" "mobserves run"
  shows "\<exists>w1. on_query_work_complete run b w = Some w1 \<and> submitted w1 = submitted w \<and> worked w1 = worked w \<and>
    closed_cons w1 = closed_cons w \<and>
    manswers w1 = manswers w @ [(mq_query_cb r, MAnswered (mq_err r) (mq_result r), mq_udata r)] \<and>
    blocks (mmem w1) = (closing_after_query b x con sql cb ud m)(b + 2 := None, b + 1 := None, b := None)"
proof -
  obtain w1 where w1: "mcall_user run (mq_query_cb r) (MAnswered (mq_err r) (mq_result r)) (mq_udata r) w = Some w1"
      "mmem w1 = mmem w" "submitted w1 = submitted w" "worked w1 = worked w" "closed_cons w1 = closed_cons w"
      "manswers w1 = manswers w @ [(mq_query_cb r, MAnswered (mq_err r) (mq_result r), mq_udata r)]"
    using mobserves_call [OF assms(4)] by metis
  show ?thesis using assms(1-3) w1
    by (simp add: on_query_work_complete_def mysql_mem closing_after_query_def fun_eq_iff)
qed

text \<open>C23 (safety): a query and then the closing of its context. Worked on and completed in that order, the
  query's callback is called once with what the driver gave, every block is freed and the
  connection closed. But the pool may do the closing first: then the query reads the freed context.\<close>

theorem mysql_close_races_query:
  assumes "mem_wf (mmem w)" "b = brk (mmem w)" "mobserves run" "submitted w = []" "worked w = []"
    and ctx: "blocks (mmem w) x = Some (MContext \<lparr>mx_context = con, mx_is_closing = False\<rparr>)"
  shows "\<exists>w1 w2 w3. mysql_query x sql cb ud w = Some w1 \<and> mysql_close x w1 = Some w2 \<and>
     pool_events D run [Work WQuery b, Complete WQuery b, Work WClose (b + 3), Complete WClose (b + 3)] w2 = Some w3 \<and>
     manswers w3 = manswers w @ [(cb, query_answer D con sql, ud)] \<and> closed_cons w3 = closed_cons w @ [con] \<and>
     blocks (mmem w3) = (blocks (mmem w))(x := None) \<and>
     pool_events D run [Work WClose (b + 3), Complete WClose (b + 3), Work WQuery b] w2 = None"
proof -
  let ?m = "blocks (mmem w)"
  have m: "b \<le> a \<Longrightarrow> ?m a = None" for a using mem_wf_fresh [OF assms(1)] assms(2) by simp
  have x: "x < b" using mem_wf_bound [OF assms(1) ctx] assms(2) by simp
  obtain w1 w2 where w2: "mysql_query x sql cb ud w = Some w1" "mysql_close x w1 = Some w2"
      "blocks (mmem w2) = closing_after_query b x con sql cb ud ?m"
      "submitted w2 = [(WQuery, b), (WClose, b + 3)]" "worked w2 = []" "manswers w2 = manswers w"
      "closed_cons w2 = closed_cons w"
    using query_then_close [OF assms(1,2) ctx, of sql cb ud] assms(4,5) by auto
  define v where "v = w2\<lparr>submitted := [(WClose, b + 3)], worked := [(WQuery, b)]\<rparr>"
  have "blocks (mmem v) = closing_after_query b x con sql cb ud ?m" using w2(3) by (simp add: v_def)
  from query_work_state [OF this x, of D] obtain u r where u: "query_work D b v = Some u" "submitted u = submitted v"
      "worked u = worked v" "manswers u = manswers v" "closed_cons u = closed_cons v"
      "blocks (mmem u) = (closing_after_query b x con sql cb ud ?m)(b + 1 \<mapsto> MQuery r)"
      "mq_sql r = b + 2" "mq_query_cb r = cb" "mq_udata r = ud"
      "MAnswered (mq_err r) (mq_result r) = query_answer D con sql" by blast
  have "blocks (mmem (u\<lparr>worked := []\<rparr>)) = (closing_after_query b x con sql cb ud ?m)(b + 1 \<mapsto> MQuery r)"
    using u(6) by simp
  from query_complete_state [OF this x u(7) assms(3)] obtain t where t:
      "on_query_work_complete run b (u\<lparr>worked := []\<rparr>) = Some t" "submitted t = submitted u" "worked t = []"
      "closed_cons t = closed_cons u"
      "manswers t = manswers u @ [(cb, query_answer D con sql, ud)]"
      "blocks (mmem t) = (closing_after_query b x con sql cb ud ?m)(b + 2 := None, b + 1 := None, b := None)"
    using u(8-10) by auto
  have query: "pool_events D run [Work WQuery b, Complete WQuery b] w2 = Some t"
    using w2(4,5) u(1-3) t(1) by (simp add: v_def)
  have t': "submitted t = [(WClose, b + 3)]" "worked t = []" using t(2,3) u(2) by (simp_all add: v_def)
  have "\<exists>w3. pool_events D run [Work WClose (b + 3), Complete WClose (b + 3)] t = Some w3 \<and>
      manswers w3 = manswers t \<and> closed_cons w3 = closed_cons t @ [con] \<and> blocks (mmem w3) = ?m(x := None)"
    using t' t(6) x m
    by (simp add: close_work_def on_close_work_complete_def mysql_mem closing_after_query_def fun_eq_iff)
  then obtain w3 where w3: "pool_events D run [Work WClose (b + 3), Complete WClose (b + 3)] t = Some w3"
      "manswers w3 = manswers t" "closed_cons w3 = closed_cons t @ [con]" "blocks (mmem w3) = ?m(x := None)"
    by blast
  have "pool_events D run [Work WQuery b, Complete WQuery b, Work WClose (b + 3), Complete WClose (b + 3)] w2 = Some w3"
    using pool_events_append [of D run "[Work WQuery b, Complete WQuery b]" _ w2] query w3(1)
    by (simp del: pool_events.simps)
  moreover have "pool_events D run [Work WClose (b + 3), Complete WClose (b + 3), Work WQuery b] w2 = None"
    using w2(3-5) x
    by (simp add: close_work_def on_close_work_complete_def query_work_def mysql_mem closing_after_query_def)
  moreover have "manswers w3 = manswers w @ [(cb, query_answer D con sql, ud)]" "closed_cons w3 = closed_cons w @ [con]"
    using w2(6,7) t(4,5) u(4,5) w3(2,3) by (simp_all add: v_def)
  ultimately show ?thesis using w2(1,2) w3(4) by blast
qed

definition example_driver :: driver where
  "example_driver = \<lparr>d_connect = \<lambda>url usr pass. if url = ''db:3306'' then Con_ok 77 else Con_throws,
     d_schema = \<lambda>con db. if db = ''game'' then Schema_ok else Schema_sql_exception,
     d_execute = \<lambda>con sql. Exec_throws ''Table missing''\<rparr>"

definition quiet_mysql :: "'u mysql_run" where "quiet_mysql cb x u w = Some w"

lemma mobserves_quiet: "mobserves quiet_mysql"
  by (simp add: mobserves_def quiet_mysql_def)

definition mysql0 :: "unit mysql" where
  "mysql0 = \<lparr>mmem = empty_mem, submitted = [], worked = [], closed_cons = [], manswers = [], muser = ()\<rparr>"

lemma mysql_connect_balance_witness:
  "\<exists>w1 w2. mysql_connect ''db'' 3306 ''root'' ''pw'' ''game'' 5 0 mysql0 = Some w1 \<and>
     pool_events example_driver quiet_mysql [Work WConnect 1, Complete WConnect 1] w1 = Some w2 \<and>
     manswers w2 = [(5, MOpened None 8, 0)] \<and> dom (blocks (mmem w2)) = {7, 8}"
proof -
  have mem: "mem_wf (mmem mysql0)" "1 = brk (mmem mysql0)" by (simp_all add: mysql0_def empty_mem_def mem_wf_def)
  have D: "no_crash example_driver" by (simp add: no_crash_def example_driver_def)
  have url: "''db:3306'' = ''db'' @ '':'' @ dec_int 3306"
    by (simp add: dec_int_def dec.simps char_of_def bit_0)
  have idle: "(WConnect, 1) \<notin> set (submitted mysql0 @ worked mysql0)" by (simp add: mysql0_def)
  have outcome: "connect_outcome example_driver ''db:3306'' ''root'' ''pw'' ''game'' = Inr 77"
    by (simp add: connect_outcome_def example_driver_def)
  obtain w1 w2 where w: "mysql_connect ''db'' 3306 ''root'' ''pw'' ''game'' 5 0 mysql0 = Some w1"
      "pool_events example_driver quiet_mysql [Work WConnect 1, Complete WConnect 1] w1 = Some w2"
      "manswers w2 = manswers mysql0 @ [(5, MOpened None (1 + 7), 0)]"
      "blocks (mmem w2) = (blocks (mmem mysql0))(1 + 6 \<mapsto> MString ''db:3306'',
         1 + 7 \<mapsto> MContext \<lparr>mx_context = 77, mx_is_closing = False\<rparr>)"
    using mysql_connect_balance [OF mem _ _ D mobserves_quiet _ url idle, of 5 "''root''" "''pw''" "''game''" 0]
    unfolding outcome by auto
  then have "manswers w2 = [(5, MOpened None 8, 0)]" "dom (blocks (mmem w2)) = {7, 8}"
    by (auto simp: mysql0_def empty_mem_def)
  with w(1,2) show ?thesis by blast
qed

definition open_mysql :: "unit mysql" where
  "open_mysql = mysql0\<lparr>mmem := \<lparr>blocks = [1 \<mapsto> MContext \<lparr>mx_context = 77, mx_is_closing = False\<rparr>], brk = 2\<rparr>\<rparr>"

lemma mysql_close_races_query_witness:
  "\<exists>w1 w2 w3. mysql_query 1 ''select 1'' 5 0 open_mysql = Some w1 \<and> mysql_close 1 w1 = Some w2 \<and>
     pool_events example_driver quiet_mysql [Work WQuery 2, Complete WQuery 2, Work WClose 5, Complete WClose 5] w2 = Some w3 \<and>
     manswers w3 = [(5, MAnswered Dangling_err None, 0)] \<and>
     pool_events example_driver quiet_mysql [Work WClose 5, Complete WClose 5, Work WQuery 2] w2 = None"
proof -
  have mem: "mem_wf (mmem open_mysql)" "2 = brk (mmem open_mysql)"
    and idle: "submitted open_mysql = []" "worked open_mysql = []"
    and ctx: "blocks (mmem open_mysql) 1 = Some (MContext \<lparr>mx_context = 77, mx_is_closing = False\<rparr>)"
    by (simp_all add: open_mysql_def mysql0_def mem_wf_def)
  have answer: "query_answer example_driver 77 ''select 1'' = MAnswered Dangling_err None"
    by (simp add: query_answer_def example_driver_def)
  have none: "manswers open_mysql = []" by (simp add: open_mysql_def mysql0_def)
  show ?thesis
    using mysql_close_races_query [OF mem mobserves_quiet idle ctx, of "''select 1''" 5 0 example_driver]
    unfolding answer none by (auto simp del: pool_events.simps)
qed

end
