(* ===== verification/Lua_Proto.thy ===== *)
theory Lua_Proto
  imports Proto_Manager Lua_Values
begin

text \<open>
  Protobuf messages as Lua tables and back: \<open>push_proto_message_tolua\<close> of lua_wrapper/lua_wrapper.cc and
  \<open>lua_table_to_protobuf\<close> of lua_wrapper/session_export_to_lua.cc.

  The reflection interface of protobuf is the record \<open>reflection\<close>: a message is known by what
  the getters return for the fields of its descriptor. The Lua stack is a list, top first; both functions
  run on the part of it they are given. Nesting is followed without a bound, so both are partial functions:
  \<open>None\<close> is undefined behaviour or no return.
\<close>

section \<open>Messages\<close>

datatype cpp_type = CPPTYPE_DOUBLE | CPPTYPE_FLOAT | CPPTYPE_INT64 | CPPTYPE_UINT64 | CPPTYPE_ENUM
  | CPPTYPE_INT32 | CPPTYPE_UINT32 | CPPTYPE_STRING | CPPTYPE_BOOL | CPPTYPE_MESSAGE

record 'd field_descriptor =
  fd_name :: string
  fd_lowercase_name :: string
  fd_cpp_type :: cpp_type
  fd_required :: bool
  fd_repeated :: bool
  fd_message_type :: 'd

text \<open>What a getter returns, and what a setter is given: a value of the type of the field.\<close>

datatype 'm field_value = VDouble rat | VFloat rat | VInt64 int | VUInt64 int | VEnum int
  | VInt32 int | VUInt32 int | VString "byte list" | VBool bool | VMessage 'm

fun value_type :: "'m field_value \<Rightarrow> cpp_type" where
  "value_type (VDouble x) = CPPTYPE_DOUBLE"
| "value_type (VFloat x) = CPPTYPE_FLOAT"
| "value_type (VInt64 n) = CPPTYPE_INT64"
| "value_type (VUInt64 n) = CPPTYPE_UINT64"
| "value_type (VEnum n) = CPPTYPE_ENUM"
| "value_type (VInt32 n) = CPPTYPE_INT32"
| "value_type (VUInt32 n) = CPPTYPE_UINT32"
| "value_type (VString s) = CPPTYPE_STRING"
| "value_type (VBool b) = CPPTYPE_BOOL"
| "value_type (VMessage m) = CPPTYPE_MESSAGE"

record ('d, 'm) reflection =
  get_descriptor :: "'m \<Rightarrow> 'd"
  descriptor_fields :: "'d \<Rightarrow> 'd field_descriptor list"
  message_name :: "'d \<Rightarrow> string"
  get_field :: "'m \<Rightarrow> 'd field_descriptor \<Rightarrow> 'm field_value"
  get_repeated :: "'m \<Rightarrow> 'd field_descriptor \<Rightarrow> 'm field_value list"
  set_field :: "'d field_descriptor \<Rightarrow> 'm field_value \<Rightarrow> 'm \<Rightarrow> 'm"
  add_field :: "'d field_descriptor \<Rightarrow> 'm field_value \<Rightarrow> 'm \<Rightarrow> 'm"
  enum_known :: "'d field_descriptor \<Rightarrow> int \<Rightarrow> bool"

text \<open>
  The documented laws: a getter returns a value that fits its field, a setter changes its field only, \<open>Add\<close>
  appends, and \<open>New\<close> on the prototype of a type gives a message of that type with empty repeated fields.
\<close>

definition fits :: "('d, 'm) reflection \<Rightarrow> 'd field_descriptor \<Rightarrow> 'm field_value \<Rightarrow> bool" where
  "fits R f v \<longleftrightarrow> value_type v = fd_cpp_type f \<and>
     (case v of VMessage n \<Rightarrow> get_descriptor R n = fd_message_type f | _ \<Rightarrow> True)"

definition fields_of :: "('d, 'm) reflection \<Rightarrow> 'm \<Rightarrow> 'd field_descriptor set" where
  "fields_of R m = set (descriptor_fields R (get_descriptor R m))"

definition getters_documented :: "('d, 'm) reflection \<Rightarrow> bool" where
  "getters_documented R \<longleftrightarrow> (\<forall>m. \<forall>f \<in> fields_of R m.
     if fd_repeated f then \<forall>v \<in> set (get_repeated R m f). fits R f v else fits R f (get_field R m f))"

definition set_documented :: "('d, 'm) reflection \<Rightarrow> bool" where
  "set_documented R \<longleftrightarrow> (\<forall>m f v. f \<in> fields_of R m \<and> \<not> fd_repeated f \<and> fits R f v \<longrightarrow>
     get_descriptor R (set_field R f v m) = get_descriptor R m \<and> get_field R (set_field R f v m) f = v \<and>
     (\<forall>g. g \<noteq> f \<longrightarrow> get_field R (set_field R f v m) g = get_field R m g \<and>
       get_repeated R (set_field R f v m) g = get_repeated R m g))"

definition add_documented :: "('d, 'm) reflection \<Rightarrow> bool" where
  "add_documented R \<longleftrightarrow> (\<forall>m f v. f \<in> fields_of R m \<and> fd_repeated f \<and> fits R f v \<longrightarrow>
     get_descriptor R (add_field R f v m) = get_descriptor R m \<and>
     get_repeated R (add_field R f v m) f = get_repeated R m f @ [v] \<and>
     (\<forall>g. g \<noteq> f \<longrightarrow> get_field R (add_field R f v m) g = get_field R m g \<and>
       get_repeated R (add_field R f v m) g = get_repeated R m g))"

definition new_documented :: "('d, 'm) protobuf \<Rightarrow> ('d, 'm) reflection \<Rightarrow> bool" where
  "new_documented pb R \<longleftrightarrow> (\<forall>d m. get_prototype pb d = Some m \<longrightarrow> get_descriptor R m = d \<and>
     (\<forall>f \<in> fields_of R m. fd_repeated f \<longrightarrow> get_repeated R m f = []))"

definition pb_documented :: "('d, 'm) protobuf \<Rightarrow> ('d, 'm) reflection \<Rightarrow> bool" where
  "pb_documented pb R \<longleftrightarrow> getters_documented R \<and> set_documented R \<and> add_documented R \<and> new_documented pb R"

section \<open>Loops that may stop\<close>

fun fold_option :: "('a \<Rightarrow> 's \<Rightarrow> 's option) \<Rightarrow> 'a list \<Rightarrow> 's \<Rightarrow> 's option" where
  "fold_option f [] s = Some s"
| "fold_option f (x # xs) s = do { s \<leftarrow> f x s; fold_option f xs s }"

lemma fold_option_mono [partial_function_mono]:
  assumes "\<And>x s. mono_option (\<lambda>f. B f x s)"
  shows "mono_option (\<lambda>f. fold_option (B f) xs s)"
proof (induction xs arbitrary: s)
  case Nil
  then show ?case by (simp add: option.const_mono)
next
  case (Cons x xs)
  then show ?case using assms by (auto intro!: partial_function_mono)
qed

text \<open>
  A loop over the fields of a message under construction; \<open>Returned None\<close> is \<open>return NULL\<close>.
\<close>

fun fold_conv :: "('a \<Rightarrow> 'm \<Rightarrow> 's \<Rightarrow> ('m option lua_result \<times> 's) option) \<Rightarrow> 'a list \<Rightarrow> 'm \<Rightarrow> 's \<Rightarrow>
    ('m option lua_result \<times> 's) option" where
  "fold_conv f [] m s = Some (Returned (Some m), s)"
| "fold_conv f (x # xs) m s = do {
     (r, s) \<leftarrow> f x m s;
     (case r of Returned (Some m) \<Rightarrow> fold_conv f xs m s | _ \<Rightarrow> Some (r, s)) }"

lemma fold_conv_mono [partial_function_mono]:
  assumes "\<And>x m s. mono_option (\<lambda>f. B f x m s)"
  shows "mono_option (\<lambda>f. fold_conv (B f) xs m s)"
proof (induction xs arbitrary: m s)
  case Nil
  then show ?case by (simp add: option.const_mono)
next
  case (Cons x xs)
  have "mono_option (\<lambda>f. case p of (r, s) \<Rightarrow>
      (case r of Returned (Some m) \<Rightarrow> fold_conv (B f) xs m s | _ \<Rightarrow> Some (r, s)))" for p
  proof (cases p)
    case (Pair r s)
    have "mono_option (\<lambda>f. case x of None \<Rightarrow> c | Some m \<Rightarrow> fold_conv (B f) xs m s)" for x c
      using Cons by (cases x) (simp_all add: option.const_mono)
    then show ?thesis by (cases r) (simp_all add: Pair option.const_mono)
  qed
  then show ?case using assms unfolding fold_conv.simps by (intro bind_mono)
qed

section \<open>The stack\<close>

text \<open>The value at an index counted from the bottom.\<close>

definition stack_at :: "nat \<Rightarrow> lua_val list \<Rightarrow> lua_val option" where
  "stack_at i stk = (if 0 < i \<and> i \<le> length stk then Some (rev stk ! (i - 1)) else None)"

text \<open>\<open>lua_rawget(L, i)\<close>, \<open>lua_rawset(L, -3)\<close> and \<open>lua_rawseti(L, -2, i)\<close>: undefined if there is no table.\<close>

definition lua_rawget :: "nat \<Rightarrow> lua_val list \<Rightarrow> lua_val list option" where
  "lua_rawget i stk =
     (case (stack_at i stk, stk) of (Some (LTable t), k # stk) \<Rightarrow> Some (table_get k t # stk) | _ \<Rightarrow> None)"

definition lua_rawset :: "lua_val list \<Rightarrow> lua_val list option" where
  "lua_rawset stk =
     (case stk of v # k # LTable t # stk \<Rightarrow> Some (LTable (table_set k v t) # stk) | _ \<Rightarrow> None)"

definition lua_rawseti :: "int \<Rightarrow> lua_val list \<Rightarrow> lua_val list option" where
  "lua_rawseti i stk =
     (case stk of v # LTable t # stk \<Rightarrow> Some (LTable (table_set (LInteger i) v t) # stk) | _ \<Rightarrow> None)"

section \<open>From a message to a table\<close>

text \<open>The pushes of the two \<open>switch\<close> statements; 64-bit integers are printed.\<close>

fun push_scalar :: "'m field_value \<Rightarrow> lua_val" where
  "push_scalar (VDouble x) = LNumber x"
| "push_scalar (VFloat x) = LNumber x"
| "push_scalar (VInt64 n) = lua_str (dec_int n)"
| "push_scalar (VUInt64 n) = lua_str (dec (nat n))"
| "push_scalar (VEnum n) = LInteger n"
| "push_scalar (VInt32 n) = LInteger n"
| "push_scalar (VUInt32 n) = LInteger n"
| "push_scalar (VString s) = LString s"
| "push_scalar (VBool b) = LBoolean b"
| "push_scalar (VMessage m) = LNil"

partial_function (option) push_message ::
    "('d, 'm) reflection \<Rightarrow> 'm \<Rightarrow> lua_val list \<Rightarrow> lua_val list option" where
  "push_message R m stk =
     fold_option (\<lambda>fd stk. do {
         stk \<leftarrow> (if fd_repeated fd
           then fold_option (\<lambda>(i, v) stk. do {
                    stk \<leftarrow> (case v of VMessage sub \<Rightarrow> push_message R sub stk | _ \<Rightarrow> Some (push_scalar v # stk));
                    lua_rawseti (int i + 1) stk })
                  (List.enumerate 0 (get_repeated R m fd)) (LTable [] # lua_str (fd_lowercase_name fd) # stk)
           else (case get_field R m fd of
                    VMessage sub \<Rightarrow> push_message R sub (lua_str (fd_lowercase_name fd) # stk)
                  | v \<Rightarrow> Some (push_scalar v # lua_str (fd_lowercase_name fd) # stk)));
         lua_rawset stk })
       (descriptor_fields R (get_descriptor R m)) (LTable [] # stk)"

definition push_proto_message_tolua ::
    "('d, 'm) reflection \<Rightarrow> 'm option \<Rightarrow> lua_val list \<Rightarrow> lua_val list option" where
  "push_proto_message_tolua R msg stk =
     (case msg of None \<Rightarrow> Some stk | Some m \<Rightarrow> push_message R m stk)"

section \<open>From a table to a message\<close>

definition luaL_checknumber :: "lua_lib \<Rightarrow> lua_val \<Rightarrow> rat lua_result" where
  "luaL_checknumber lib v =
     (case to_number lib v of None \<Rightarrow> Bad_Argument | Some x \<Rightarrow> Returned (number_double lib x))"

definition luaL_checklstring :: "lua_lib \<Rightarrow> lua_val \<Rightarrow> byte list lua_result" where
  "luaL_checklstring lib v = (case lua_tostring lib v of None \<Rightarrow> Bad_Argument | Some s \<Rightarrow> Returned s)"

text \<open>
  A number is read as a \<open>double\<close> and cast to the type of the field. An enum value unknown to the
  protocol gives a null descriptor, which \<open>SetEnum\<close> dereferences.
\<close>

definition cast_number ::
    "(rat \<Rightarrow> 'm field_value option) \<Rightarrow> rat lua_result \<Rightarrow> 'm field_value lua_result option" where
  "cast_number f r = (case r of
     Returned x \<Rightarrow> map_option Returned (f x) | Bad_Argument \<Rightarrow> Some Bad_Argument | Lua_Error e \<Rightarrow> Some (Lua_Error e))"

definition read_scalar ::
    "lua_lib \<Rightarrow> ('d, 'm) reflection \<Rightarrow> 'd field_descriptor \<Rightarrow> lua_val \<Rightarrow> 'm field_value lua_result option" where
  "read_scalar lib R fd v =
     (let n = luaL_checknumber lib v in
      case fd_cpp_type fd of
        CPPTYPE_DOUBLE \<Rightarrow> cast_number (\<lambda>x. Some (VDouble x)) n
      | CPPTYPE_FLOAT \<Rightarrow> cast_number (\<lambda>x. Some (VFloat (to_float lib x))) n
      | CPPTYPE_INT64 \<Rightarrow> cast_number (\<lambda>x. map_option VInt64 (c_int64 x)) n
      | CPPTYPE_UINT64 \<Rightarrow> cast_number (\<lambda>x. map_option VUInt64 (c_uint64 x)) n
      | CPPTYPE_ENUM \<Rightarrow> cast_number (\<lambda>x. do {
          k \<leftarrow> c_int32 x; if enum_known R fd k then Some (VEnum k) else None }) n
      | CPPTYPE_INT32 \<Rightarrow> cast_number (\<lambda>x. map_option VInt32 (c_int32 x)) n
      | CPPTYPE_UINT32 \<Rightarrow> cast_number (\<lambda>x. map_option VUInt32 (c_uint32 x)) n
      | CPPTYPE_STRING \<Rightarrow> Some (case luaL_checklstring lib v of
          Returned s \<Rightarrow> Returned (VString s) | Bad_Argument \<Rightarrow> Bad_Argument | Lua_Error e \<Rightarrow> Lua_Error e)
      | CPPTYPE_BOOL \<Rightarrow> Some (Returned (VBool (lua_toboolean v)))
      | CPPTYPE_MESSAGE \<Rightarrow> None)"

text \<open>
  The value on top of the stack, for a field: a sub-message is converted by a recursive call on the
  index of the top. \<open>Returned None\<close>: the call returned \<open>NULL\<close>.
\<close>

type_synonym conv_state = "lua_val list \<times> memory"

type_synonym 'm table_reader = "nat \<Rightarrow> string \<Rightarrow> conv_state \<Rightarrow> ('m option lua_result \<times> conv_state) option"

definition read_value ::
    "'m table_reader \<Rightarrow> lua_lib \<Rightarrow> ('d, 'm) reflection \<Rightarrow> 'd field_descriptor \<Rightarrow> conv_state \<Rightarrow>
     ('m field_value option lua_result \<times> conv_state) option" where
  "read_value rec lib R fd st =
     (case st of (v # stk, mem) \<Rightarrow>
        if fd_cpp_type fd = CPPTYPE_MESSAGE then do {
          (r, st) \<leftarrow> rec (length (v # stk)) (message_name R (fd_message_type fd)) st;
          Some (map_lua_result (map_option VMessage) r, st) }
        else do {
          r \<leftarrow> read_scalar lib R fd v;
          Some (map_lua_result Some r, st) }
      | ([], mem) \<Rightarrow> None)"

text \<open>After \<open>CopyFrom\<close> the converted sub-message is freed.\<close>

definition free_value :: "'m field_value \<Rightarrow> memory \<Rightarrow> memory" where
  "free_value v mem = (case v of VMessage m \<Rightarrow> free_protobuf_message (Some m) mem | _ \<Rightarrow> mem)"

text \<open>
  One round of the \<open>lua_next\<close> loop: the pair is pushed, the value converted and added, value and key are
  popped. When a sub-message fails, \<open>value\<close>, which is \<open>NULL\<close>, is freed, and \<open>NULL\<close> returned.
\<close>

definition add_element ::
    "'m table_reader \<Rightarrow> lua_lib \<Rightarrow> ('d, 'm) reflection \<Rightarrow> 'd field_descriptor \<Rightarrow> lua_val \<times> lua_val \<Rightarrow> 'm \<Rightarrow>
     conv_state \<Rightarrow> ('m option lua_result \<times> conv_state) option" where
  "add_element rec lib R fd kv m st = do {
     (r, stk, mem) \<leftarrow> read_value rec lib R fd (snd kv # fst kv # fst st, snd st);
     (case r of
        Returned (Some v) \<Rightarrow> Some (Returned (Some (add_field R fd v m)), drop 2 stk, free_value v mem)
      | Returned None \<Rightarrow> Some (Returned None, stk, free_protobuf_message (None :: 'm option) mem)
      | Bad_Argument \<Rightarrow> Some (Bad_Argument, stk, mem)
      | Lua_Error e \<Rightarrow> Some (Lua_Error e, stk, mem)) }"

text \<open>A field that is not repeated: a missing one is an error only if required.\<close>

definition set_single ::
    "'m table_reader \<Rightarrow> lua_lib \<Rightarrow> ('d, 'm) reflection \<Rightarrow> 'd field_descriptor \<Rightarrow> 'm \<Rightarrow>
     conv_state \<Rightarrow> ('m option lua_result \<times> conv_state) option" where
  "set_single rec lib R fd m st =
     (if hd (fst st) = LNil then
        if fd_required fd then Some (Returned None, fst st, free_protobuf_message (Some m) (snd st))
        else Some (Returned (Some m), tl (fst st), snd st)
      else do {
        (r, stk, mem) \<leftarrow> read_value rec lib R fd st;
        (case r of
           Returned (Some v) \<Rightarrow> Some (Returned (Some (set_field R fd v m)), tl stk, free_value v mem)
         | Returned None \<Rightarrow> Some (Returned None, stk, free_protobuf_message (Some m) mem)
         | Bad_Argument \<Rightarrow> Some (Bad_Argument, stk, mem)
         | Lua_Error e \<Rightarrow> Some (Lua_Error e, stk, mem)) })"

definition add_repeated ::
    "'m table_reader \<Rightarrow> lua_lib \<Rightarrow> ('d, 'm) reflection \<Rightarrow> 'd field_descriptor \<Rightarrow> 'm \<Rightarrow>
     conv_state \<Rightarrow> ('m option lua_result \<times> conv_state) option" where
  "add_repeated rec lib R fd m st =
     (case hd (fst st) of
        LNil \<Rightarrow> Some (Returned (Some m), tl (fst st), snd st)
      | LTable t \<Rightarrow> do {
          (r, stk, mem) \<leftarrow> fold_conv (add_element rec lib R fd) (next_order lib t) m st;
          (case r of Returned (Some m) \<Rightarrow> Some (r, tl stk, mem) | _ \<Rightarrow> Some (r, stk, mem)) }
      | _ \<Rightarrow> Some (Returned None, fst st, free_protobuf_message (Some m) (snd st)))"

lemma mono_case_result:
  assumes "mono_option B"
  shows "mono_option (\<lambda>f. do { (r, stk, mem) \<leftarrow> B f; C r stk mem })"
  using assms by (intro bind_mono) (auto simp: option.const_mono split: prod.split)

lemma read_value_mono [partial_function_mono]:
  assumes "\<And>i n st. mono_option (\<lambda>f. B f i n st)"
  shows "mono_option (\<lambda>f. read_value (B f) lib R fd st)"
proof (cases st)
  case (Pair stk mem)
  show ?thesis unfolding read_value_def Pair
    by (cases stk; cases "fd_cpp_type fd = CPPTYPE_MESSAGE")
      (auto intro!: bind_mono assms simp: option.const_mono split: prod.split)
qed

lemma add_element_mono [partial_function_mono]:
  assumes "\<And>i n st. mono_option (\<lambda>f. B f i n st)"
  shows "mono_option (\<lambda>f. add_element (B f) lib R fd kv m st)"
  unfolding add_element_def by (intro mono_case_result read_value_mono assms)

lemma set_single_mono [partial_function_mono]:
  assumes "\<And>i n st. mono_option (\<lambda>f. B f i n st)"
  shows "mono_option (\<lambda>f. set_single (B f) lib R fd m st)"
  unfolding set_single_def
  by (cases "hd (fst st) = LNil") (auto intro!: mono_case_result read_value_mono assms simp: option.const_mono)

lemma add_repeated_mono [partial_function_mono]:
  assumes "\<And>i n st. mono_option (\<lambda>f. B f i n st)"
  shows "mono_option (\<lambda>f. add_repeated (B f) lib R fd m st)"
  unfolding add_repeated_def
  by (cases "hd (fst st)")
    (auto intro!: mono_case_result fold_conv_mono add_element_mono assms simp: option.const_mono)

partial_function (option) lua_table_to_protobuf ::
    "lua_lib \<Rightarrow> ('d, 'm) protobuf \<Rightarrow> ('d, 'm) reflection \<Rightarrow> nat \<Rightarrow> string \<Rightarrow> conv_state \<Rightarrow>
     ('m option lua_result \<times> conv_state) option" where
  "lua_table_to_protobuf lib pb R i name st =
     (case create_message pb name (snd st) of
        (None, mem) \<Rightarrow> Some (Returned None, fst st, mem)
      | (Some m, mem) \<Rightarrow>
          fold_conv (\<lambda>fd m st. do {
              stk \<leftarrow> lua_rawget i (lua_str (fd_name fd) # fst st);
              if fd_repeated fd then add_repeated (lua_table_to_protobuf lib pb R) lib R fd m (stk, snd st)
              else set_single (lua_table_to_protobuf lib pb R) lib R fd m (stk, snd st) })
            (descriptor_fields R (get_descriptor R m)) m (fst st, mem))"

section \<open>The table of a message\<close>

text \<open>\<open>n\<close> is a message the loop over the fields of \<open>m\<close> follows, set or not.\<close>

definition nested :: "('d, 'm) reflection \<Rightarrow> 'm \<Rightarrow> 'm \<Rightarrow> bool" where
  "nested R n m \<longleftrightarrow> (\<exists>f \<in> set (descriptor_fields R (get_descriptor R m)).
     if fd_repeated f then VMessage n \<in> set (get_repeated R m f) else get_field R m f = VMessage n)"

lemma nested_repeated:
  "f \<in> set (descriptor_fields R (get_descriptor R m)) \<Longrightarrow> fd_repeated f \<Longrightarrow>
   VMessage n \<in> set (get_repeated R m f) \<Longrightarrow> nested R n m"
  by (auto simp: nested_def)

lemma nested_single:
  "f \<in> set (descriptor_fields R (get_descriptor R m)) \<Longrightarrow> \<not> fd_repeated f \<Longrightarrow>
   get_field R m f = VMessage n \<Longrightarrow> nested R n m"
  by (auto simp: nested_def)

text \<open>The table built for a message, for a value and for a repeated field, as functions of the message.\<close>

definition message_lua :: "('d, 'm) reflection \<Rightarrow> 'm \<Rightarrow> lua_val" where
  "message_lua R m = (case push_message R m [] of Some (v # _) \<Rightarrow> v | _ \<Rightarrow> LNil)"

definition value_lua :: "('d, 'm) reflection \<Rightarrow> 'm field_value \<Rightarrow> lua_val" where
  "value_lua R v = (case v of VMessage n \<Rightarrow> message_lua R n | _ \<Rightarrow> push_scalar v)"

definition array_set :: "nat \<times> lua_val \<Rightarrow> (lua_val \<times> lua_val) list \<Rightarrow> (lua_val \<times> lua_val) list" where
  "array_set iv = table_set (LInteger (int (fst iv) + 1)) (snd iv)"

definition field_lua :: "('d, 'm) reflection \<Rightarrow> 'm \<Rightarrow> 'd field_descriptor \<Rightarrow> lua_val" where
  "field_lua R m f =
     (if fd_repeated f
      then LTable (fold array_set (List.enumerate 0 (map (value_lua R) (get_repeated R m f))) [])
      else value_lua R (get_field R m f))"

definition fields_lua :: "('d, 'm) reflection \<Rightarrow> 'm \<Rightarrow> (lua_val \<times> lua_val) list" where
  "fields_lua R m = fold (\<lambda>f. table_set (lua_str (fd_lowercase_name f)) (field_lua R m f))
     (descriptor_fields R (get_descriptor R m)) []"

lemma fold_option_visits:
  "fold_option g xs s = Some r \<Longrightarrow> x \<in> set xs \<Longrightarrow> \<exists>s' r'. g x s' = Some r'"
  by (induction xs arbitrary: s) (auto simp: bind_eq_Some_conv)

lemma fold_option_table:
  assumes "\<And>x t. x \<in> set xs \<Longrightarrow> g x (LTable t # stk) = Some (LTable (h x t) # stk)"
  shows "fold_option g xs (LTable t # stk) = Some (LTable (fold h xs t) # stk)"
  using assms by (induction xs arbitrary: t) auto

lemma enumerate_map: "List.enumerate k (map f xs) = map (\<lambda>(i, x). (i, f x)) (List.enumerate k xs)"
  by (induction xs arbitrary: k) auto

lemma in_set_enumerate_snd: "(i, x) \<in> set (List.enumerate k xs) \<Longrightarrow> x \<in> set xs"
  by (metis in_set_conv_nth in_set_enumerate_eq fst_conv snd_conv length_enumerate nth_enumerate_eq)

lemma push_message_step:
  assumes "\<And>n stk. nested R n m \<Longrightarrow> push_message R n stk = Some (message_lua R n # stk)"
  shows "push_message R m stk = Some (LTable (fields_lua R m) # stk)"
  unfolding push_message.simps [of R m stk] fields_lua_def
proof (rule fold_option_table, goal_cases)
  case (1 f t)
  let ?key = "lua_str (fd_lowercase_name f)"
  show ?case
  proof (cases "fd_repeated f")
    case True
    have sub: "push_message R n stk = Some (message_lua R n # stk)" if "VMessage n \<in> set (get_repeated R m f)" for n stk
      by (rule assms [OF nested_repeated [OF 1 True that]])
    have "fold_option (\<lambda>(i, v) stk. do {
        stk \<leftarrow> (case v of VMessage sub \<Rightarrow> push_message R sub stk | _ \<Rightarrow> Some (push_scalar v # stk));
        lua_rawseti (int i + 1) stk }) (List.enumerate 0 (get_repeated R m f)) (LTable [] # s) =
      Some (LTable (fold (\<lambda>(i, v). array_set (i, value_lua R v)) (List.enumerate 0 (get_repeated R m f)) []) # s)" for s
      by (rule fold_option_table)
        (auto simp: value_lua_def lua_rawseti_def array_set_def sub dest!: in_set_enumerate_snd split: field_value.split)
    then show ?thesis using True
      by (simp add: lua_rawset_def field_lua_def enumerate_map fold_map comp_def case_prod_unfold)
  next
    case False
    have sub: "push_message R n stk = Some (message_lua R n # stk)" if "get_field R m f = VMessage n" for n stk
      by (rule assms [OF nested_single [OF 1 False that]])
    then show ?thesis using False
      by (cases "get_field R m f") (auto simp: lua_rawset_def field_lua_def value_lua_def)
  qed
qed

lemma push_message_acc:
  "Wellfounded.accp (nested R) m \<Longrightarrow> push_message R m stk = Some (message_lua R m # stk)"
proof (induction m arbitrary: stk rule: Wellfounded.accp_induct_rule)
  case (1 m)
  then have "push_message R m stk = Some (LTable (fields_lua R m) # stk)" for stk
    by (intro push_message_step) auto
  then show ?case by (simp add: message_lua_def)
qed

lemma push_message_returns_acc:
  assumes ret: "push_message R m stk = Some r"
  shows "Wellfounded.accp (nested R) m"
proof (rule push_message.raw_induct [where P = "\<lambda>R m stk r. Wellfounded.accp (nested R) m", OF _ ret], goal_cases)
  case (1 push R m stk r)
  show ?case
  proof (rule Wellfounded.accpI)
    fix n assume "nested R n m"
    then obtain f where f: "f \<in> set (descriptor_fields R (get_descriptor R m))"
      and n: "if fd_repeated f then VMessage n \<in> set (get_repeated R m f) else get_field R m f = VMessage n"
      by (auto simp: nested_def)
    have "\<exists>stk r. push R n stk = Some r"
    proof (cases "fd_repeated f")
      case True
      with n obtain i where "(i, VMessage n) \<in> set (List.enumerate 0 (get_repeated R m f))"
        by (metis enumerate_eq_zip in_set_impl_in_set_zip2 length_upt length_map minus_nat.diff_0 add_0)
      with fold_option_visits [OF 1(2) f] True show ?thesis
        by (auto simp: bind_eq_Some_conv dest!: fold_option_visits) blast
    next
      case False
      with fold_option_visits [OF 1(2) f] n show ?thesis by (auto simp: bind_eq_Some_conv)
    qed
    then show "Wellfounded.accp (nested R) n" using 1(1) by blast
  qed
qed

lemma fold_table_set_other:
  "k \<notin> key ` set fs \<Longrightarrow> table_get k (fold (\<lambda>f. table_set (key f) (val f)) fs t) = table_get k t"
  by (induction fs arbitrary: t) (auto simp: table_get_set)

lemma fold_table_set_get:
  "inj_on key (set fs) \<Longrightarrow> f \<in> set fs \<Longrightarrow>
   table_get (key f) (fold (\<lambda>f. table_set (key f) (val f)) fs t) = val f"
proof (induction fs arbitrary: t)
  case (Cons g fs)
  show ?case
  proof (cases "f \<in> set fs")
    case True
    then show ?thesis using Cons by simp
  next
    case False
    then have "f = g" "key f \<notin> key ` set fs" using Cons.prems by (auto dest: inj_onD)
    then show ?thesis by (simp add: fold_table_set_other table_get_set)
  qed
qed simp

lemma fields_lua_get:
  assumes "inj_on fd_lowercase_name (fields_of R m)" "f \<in> fields_of R m"
  shows "table_get (lua_str (fd_lowercase_name f)) (fields_lua R m) = field_lua R m f"
proof -
  have "inj_on (\<lambda>f. lua_str (fd_lowercase_name f)) (fields_of R m)"
    using assms(1) by (simp add: inj_on_def)
  then show ?thesis using assms(2) unfolding fields_lua_def fields_of_def by (rule fold_table_set_get)
qed

lemma array_set_fold:
  "LNil \<notin> set ws \<Longrightarrow> (\<And>i. LInteger i \<in> fst ` set t \<Longrightarrow> i \<le> int k) \<Longrightarrow>
   fold array_set (List.enumerate k ws) t =
     rev (map (\<lambda>(i, w). (LInteger (int i + 1), w)) (List.enumerate k ws)) @ t"
proof (induction ws arbitrary: k t)
  case (Cons w ws)
  have "filter (\<lambda>(j, _). j \<noteq> LInteger (int k + 1)) t = t"
    using Cons.prems(2) by (force simp: filter_id_conv)
  then have "array_set (k, w) t = (LInteger (int k + 1), w) # t"
    using Cons.prems(1) by (auto simp: array_set_def table_set_def)
  then show ?case using Cons.IH [of "(LInteger (int k + 1), w) # t" "Suc k"] Cons.prems by fastforce
qed simp

section \<open>Reading a table back\<close>

text \<open>
  What survives the way through Lua: 64-bit integers of at most 53 bits, known enum values, and numbers in
  the range of their type.
\<close>

definition portable_value :: "lua_lib \<Rightarrow> ('d, 'm) reflection \<Rightarrow> 'd field_descriptor \<Rightarrow> 'm field_value \<Rightarrow> bool" where
  "portable_value lib R f v = (case v of
     VFloat x \<Rightarrow> to_float lib x = x
   | VInt64 n \<Rightarrow> \<bar>n\<bar> \<le> 2 ^ 53
   | VUInt64 n \<Rightarrow> 0 \<le> n \<and> n \<le> 2 ^ 53
   | VEnum n \<Rightarrow> - (2 ^ 31) \<le> n \<and> n < 2 ^ 31 \<and> enum_known R f n
   | VInt32 n \<Rightarrow> - (2 ^ 31) \<le> n \<and> n < 2 ^ 31
   | VUInt32 n \<Rightarrow> 0 \<le> n \<and> n < 2 ^ 32
   | _ \<Rightarrow> True)"

inductive portable :: "lua_lib \<Rightarrow> ('d, 'm) protobuf \<Rightarrow> ('d, 'm) reflection \<Rightarrow> 'm \<Rightarrow> bool" for lib pb R where
  portableI: "find_message_type pb (message_name R (get_descriptor R m)) = Some (get_descriptor R m) \<Longrightarrow>
    get_prototype pb (get_descriptor R m) \<noteq> None \<Longrightarrow>
    distinct (descriptor_fields R (get_descriptor R m)) \<Longrightarrow> inj_on fd_name (fields_of R m) \<Longrightarrow>
    (\<And>f. f \<in> fields_of R m \<Longrightarrow> fd_lowercase_name f = fd_name f) \<Longrightarrow>
    (\<And>f. f \<in> fields_of R m \<Longrightarrow> \<not> fd_repeated f \<Longrightarrow> portable_value lib R f (get_field R m f)) \<Longrightarrow>
    (\<And>f v. f \<in> fields_of R m \<Longrightarrow> fd_repeated f \<Longrightarrow> v \<in> set (get_repeated R m f) \<Longrightarrow> portable_value lib R f v) \<Longrightarrow>
    (\<And>n. nested R n m \<Longrightarrow> portable lib pb R n) \<Longrightarrow>
    portable lib pb R m"

text \<open>
  Two messages of a type whose getters return the same values, up to the order of repeated fields.
\<close>

lemma rel_field_value_mono [mono]:
  "A \<le> B \<Longrightarrow> rel_field_value A v w \<longrightarrow> rel_field_value B v w"
  by (auto intro: field_value.rel_mono_strong)

lemma list_all2_field_value_mono [mono]:
  "A \<le> B \<Longrightarrow> list_all2 (rel_field_value A) vs ws \<longrightarrow> list_all2 (rel_field_value B) vs ws"
  by (auto elim!: list.rel_mono_strong field_value.rel_mono_strong)

inductive same_message :: "('d, 'm) reflection \<Rightarrow> 'm \<Rightarrow> 'm \<Rightarrow> bool" for R where
  same_messageI: "get_descriptor R m' = get_descriptor R m \<Longrightarrow>
    \<forall>f \<in> fields_of R m. \<not> fd_repeated f \<longrightarrow>
      rel_field_value (same_message R) (get_field R m f) (get_field R m' f) \<Longrightarrow>
    \<forall>f \<in> fields_of R m. fd_repeated f \<longrightarrow> (\<exists>vs. mset vs = mset (get_repeated R m f) \<and>
      list_all2 (rel_field_value (same_message R)) vs (get_repeated R m' f)) \<Longrightarrow>
    same_message R m m'"

lemma portable_acc: "portable lib pb R m \<Longrightarrow> Wellfounded.accp (nested R) m"
  by (induction rule: portable.induct) (blast intro: Wellfounded.accpI)

lemma message_lua_fields: "Wellfounded.accp (nested R) m \<Longrightarrow> message_lua R m = LTable (fields_lua R m)"
  using push_message_acc [of R m "[]"] push_message_step [of R m "[]"] push_message_acc Wellfounded.accp_downward
  by (metis list.inject option.inject)

lemma value_lua_not_nil:
  assumes "case v of VMessage n \<Rightarrow> Wellfounded.accp (nested R) n | _ \<Rightarrow> True"
  shows "value_lua R v \<noteq> LNil"
  using assms by (cases v) (auto simp: value_lua_def message_lua_fields lua_str_def)

lemma read_int_dec:
  assumes "lua_documented lib" "\<bar>n\<bar> \<le> 2 ^ 53"
  shows "luaL_checknumber lib (lua_str (dec_int n)) = Returned (of_int n)"
    "luaL_checknumber lib (LInteger n) = Returned (of_int n)"
proof -
  have "- (2 ^ 63) \<le> n" "n < 2 ^ 63" using assms(2) by simp_all
  then have "str2number lib (ascii (dec_int n)) = Some (LInteger n)" "to_double lib n = of_int n"
    using assms by (simp_all add: lua_documented_def)
  then show "luaL_checknumber lib (lua_str (dec_int n)) = Returned (of_int n)"
    "luaL_checknumber lib (LInteger n) = Returned (of_int n)"
    by (simp_all add: luaL_checknumber_def to_number_def lua_str_def number_double_def)
qed

lemma luaL_checknumber_float [simp]: "luaL_checknumber lib (LNumber x) = Returned x"
  by (simp add: luaL_checknumber_def to_number_def number_double_def)

lemma read_push_scalar:
  assumes lib: "lua_documented lib" and "value_type v = fd_cpp_type f" "value_type v \<noteq> CPPTYPE_MESSAGE"
    and ok: "portable_value lib R f v"
  shows "read_scalar lib R f (push_scalar v) = Some (Returned v)"
proof -
  have "lua_str (dec (nat n)) = lua_str (dec_int n)" if "0 \<le> n" for n using that by (simp add: dec_int_def)
  then show ?thesis using assms(2-) read_int_dec [OF lib]
    by (cases v) (auto simp: portable_value_def read_scalar_def cast_number_def luaL_checklstring_def lua_tostring_def
      c_cast_int c_int32_def c_uint32_def c_int64_def c_uint64_def eq_commute [of _ "fd_cpp_type f"])
qed

lemma fold_conv_invariant:
  assumes "Q [] m"
    and step: "\<And>pre x post m. xs = pre @ x # post \<Longrightarrow> Q pre m \<Longrightarrow>
      \<exists>m'. g x m s = Some (Returned (Some m'), s) \<and> Q (pre @ [x]) m'"
  shows "\<exists>m'. fold_conv g xs m s = Some (Returned (Some m'), s) \<and> Q xs m'"
proof -
  have "\<exists>m'. fold_conv g ys m s = Some (Returned (Some m'), s) \<and> Q xs m'" if "xs = pre @ ys" "Q pre m" for pre ys m
    using that
  proof (induction ys arbitrary: pre m)
    case (Cons y ys)
    from step [OF Cons.prems] obtain m1 where "g y m s = Some (Returned (Some m1), s)" "Q (pre @ [y]) m1" by blast
    then show ?case using Cons.IH [of "pre @ [y]" m1] Cons.prems by simp
  qed simp
  from this [of "[]"] show ?thesis using assms(1) by simp
qed

lemma mset_map_preimage: "mset ys = mset (map f xs) \<Longrightarrow> \<exists>us. mset us = mset xs \<and> ys = map f us"
proof (induction ys arbitrary: xs)
  case (Cons y ys)
  then have "y \<in> set (map f xs)" by (metis list.set_intros(1) mset_eq_setD)
  then obtain x where x: "x \<in> set xs" "y = f x" by auto
  have "mset xs = add_mset x (mset (remove1 x xs))" using x(1) by simp
  then have "mset ys = mset (map f (remove1 x xs))" using Cons.prems x(2) by (simp del: mset_remove1)
  then obtain us where "mset us = mset (remove1 x xs)" "ys = map f us" using Cons.IH by blast
  then show ?case using x by (intro exI [of _ "x # us"]) simp
qed simp

text \<open>What the recursive call must do for a nested message.\<close>

definition reads_back :: "'m table_reader \<Rightarrow> ('d, 'm) reflection \<Rightarrow> 'm \<Rightarrow> bool" where
  "reads_back rec R n \<longleftrightarrow> (\<forall>i stk mem. stack_at i stk = Some (message_lua R n) \<longrightarrow>
     (\<exists>n'. rec i (message_name R (get_descriptor R n)) (stk, mem) =
         Some (Returned (Some n'), stk, mem\<lparr>pb_count := pb_count mem + 1\<rparr>) \<and> same_message R n n'))"

lemma stack_at_top [simp]: "stack_at (Suc (length stk)) (v # stk) = Some v"
  by (simp add: stack_at_def nth_append)

text \<open>A value that can be read back: what the lemmas on the two kinds of fields need.\<close>

definition value_back ::
    "'m table_reader \<Rightarrow> lua_lib \<Rightarrow> ('d, 'm) reflection \<Rightarrow> 'd field_descriptor \<Rightarrow> 'm field_value \<Rightarrow> bool" where
  "value_back rec lib R f v \<longleftrightarrow> fits R f v \<and> portable_value lib R f v \<and> value_lua R v \<noteq> LNil \<and>
     (\<forall>n. v = VMessage n \<longrightarrow> reads_back rec R n)"

lemma read_value_back:
  assumes lib: "lua_documented lib" and vb: "value_back rec lib R f v"
  shows "\<exists>v' mem'. read_value rec lib R f (value_lua R v # stk, mem) =
      Some (Returned (Some v'), value_lua R v # stk, mem') \<and>
    free_value v' mem' = mem \<and> rel_field_value (same_message R) v v' \<and> fits R f v'"
proof (cases "\<exists>n. v = VMessage n")
  case True
  then obtain n where n: "v = VMessage n" by blast
  have v: "fits R f v" "portable_value lib R f v" and sub: "reads_back rec R n"
    using vb n by (simp_all add: value_back_def)
  obtain n' where n': "rec (Suc (length stk)) (message_name R (get_descriptor R n)) (message_lua R n # stk, mem) =
      Some (Returned (Some n'), message_lua R n # stk, mem\<lparr>pb_count := pb_count mem + 1\<rparr>)" "same_message R n n'"
    using sub unfolding reads_back_def by (metis stack_at_top)
  then have "get_descriptor R n' = get_descriptor R n" by (auto elim: same_message.cases)
  then show ?thesis using v(1) n n'
    by (auto simp: read_value_def value_lua_def fits_def free_value_def free_protobuf_message_def)
next
  case False
  have v: "fits R f v" "portable_value lib R f v" using vb by (simp_all add: value_back_def)
  from False have "rel_field_value (same_message R) v v" "value_lua R v = push_scalar v" "value_type v \<noteq> CPPTYPE_MESSAGE"
    by (cases v; simp add: value_lua_def)+
  moreover have "free_value v mem = mem" using False by (cases v) (auto simp: free_value_def)
  moreover have "read_scalar lib R f (push_scalar v) = Some (Returned v)"
    using v read_push_scalar [OF lib, of v f R] calculation(3) by (auto simp: fits_def)
  moreover have "fd_cpp_type f \<noteq> CPPTYPE_MESSAGE" using v(1) calculation(3) by (simp add: fits_def)
  ultimately show ?thesis using v(1) by (simp add: read_value_def)
qed

definition only_changed :: "('d, 'm) reflection \<Rightarrow> 'd field_descriptor \<Rightarrow> 'm \<Rightarrow> 'm \<Rightarrow> bool" where
  "only_changed R f m m' \<longleftrightarrow> get_descriptor R m' = get_descriptor R m \<and>
     (\<forall>g. g \<noteq> f \<longrightarrow> get_field R m' g = get_field R m g \<and> get_repeated R m' g = get_repeated R m g)"

lemma set_single_back:
  assumes lib: "lua_documented lib" and pb: "pb_documented pb R"
    and f: "f \<in> fields_of R m" "\<not> fd_repeated f" and v: "value_back rec lib R f v"
  shows "\<exists>m'. set_single rec lib R f m (value_lua R v # stk, mem) = Some (Returned (Some m'), stk, mem) \<and>
    only_changed R f m m' \<and> rel_field_value (same_message R) v (get_field R m' f)"
proof -
  obtain v' mem' where v': "read_value rec lib R f (value_lua R v # stk, mem) =
      Some (Returned (Some v'), value_lua R v # stk, mem')" "free_value v' mem' = mem"
      "rel_field_value (same_message R) v v'" "fits R f v'"
    using read_value_back [OF lib v] by blast
  then show ?thesis using f v pb
    by (auto simp: set_single_def value_back_def pb_documented_def set_documented_def only_changed_def)
qed

lemma array_values:
  assumes "lua_documented lib" "LNil \<notin> set ws"
  shows "mset (map snd (next_order lib (fold array_set (List.enumerate 0 ws) []))) = mset ws"
proof -
  let ?t = "fold array_set (List.enumerate 0 ws) []"
  have "mset (next_order lib ?t) = mset ?t" using assms(1) by (simp add: lua_documented_def)
  then have "mset (map snd (next_order lib ?t)) = mset (map snd ?t)" by (simp only: mset_map)
  also have "map snd ?t = rev (map snd (List.enumerate 0 ws))"
    using array_set_fold [OF assms(2), of "[]" 0] by (simp add: rev_map case_prod_unfold comp_def flip: rev_map)
  finally show ?thesis by simp
qed

lemma add_repeated_back:
  assumes lib: "lua_documented lib" and pb: "pb_documented pb R"
    and f: "f \<in> fields_of R m" "fd_repeated f" "get_repeated R m f = []"
    and vs: "\<And>v. v \<in> set vs \<Longrightarrow> value_back rec lib R f v"
  shows "\<exists>m'. add_repeated rec lib R f m
      (LTable (fold array_set (List.enumerate 0 (map (value_lua R) vs)) []) # stk, mem) =
        Some (Returned (Some m'), stk, mem) \<and> only_changed R f m m' \<and>
    (\<exists>us. mset us = mset vs \<and> list_all2 (rel_field_value (same_message R)) us (get_repeated R m' f))"
proof -
  define t where "t = fold array_set (List.enumerate 0 (map (value_lua R) vs)) []"
  have "LNil \<notin> set (map (value_lua R) vs)" using vs by (force simp: value_back_def)
  from array_values [OF lib this] obtain us where us: "mset us = mset vs"
      "map snd (next_order lib t) = map (value_lua R) us"
    unfolding t_def using mset_map_preimage by metis
  define st where "st = (LTable t # stk, mem)"
  define Q where "Q pre m' \<longleftrightarrow> only_changed R f m m' \<and>
    list_all2 (rel_field_value (same_message R)) (take (length pre) us) (get_repeated R m' f)" for pre :: "(lua_val \<times> lua_val) list" and m'
  have "\<exists>m'. fold_conv (add_element rec lib R f) (next_order lib t) m st = Some (Returned (Some m'), st) \<and> Q (next_order lib t) m'"
  proof (rule fold_conv_invariant)
    show "Q [] m" using f(3) by (simp add: Q_def only_changed_def)
  next
    fix pre x post m1 assume x: "next_order lib t = pre @ x # post" and Q: "Q pre m1"
    let ?u = "us ! length pre"
    have len: "length pre < length us" using arg_cong [OF us(2), of length] x by simp
    have xu: "snd x = value_lua R ?u"
      using arg_cong [OF us(2), of "\<lambda>l. l ! length pre"] x len by (simp add: nth_append)
    have "?u \<in> set vs" using len us(1) by (metis mset_eq_setD nth_mem)
    then have u: "value_back rec lib R f ?u" by (rule vs)
    then obtain v' mem' where v': "read_value rec lib R f (snd x # fst x # fst st, snd st) =
        Some (Returned (Some v'), snd x # fst x # fst st, mem')" "free_value v' mem' = snd st"
        "rel_field_value (same_message R) ?u v'" "fits R f v'"
      unfolding xu using read_value_back [OF lib u] by blast
    have "f \<in> fields_of R m1" using f(1) Q by (simp add: Q_def only_changed_def fields_of_def)
    then have m2: "only_changed R f m1 (add_field R f v' m1)"
        "get_repeated R (add_field R f v' m1) f = get_repeated R m1 f @ [v']"
      using pb f(2) v'(4) by (simp_all add: pb_documented_def add_documented_def only_changed_def)
    have "Q (pre @ [x]) (add_field R f v' m1)"
      using Q m2 v'(3) len by (auto simp: Q_def only_changed_def take_Suc_conv_app_nth intro!: list_all2_appendI)
    then show "\<exists>m'. add_element rec lib R f x m1 st = Some (Returned (Some m'), st) \<and> Q (pre @ [x]) m'"
      using v'(1,2) by (simp add: add_element_def)
  qed
  then obtain m' where m': "fold_conv (add_element rec lib R f) (next_order lib t) m st = Some (Returned (Some m'), st)"
      "Q (next_order lib t) m'" by blast
  have "length (next_order lib t) = length us" using arg_cong [OF us(2), of length] by simp
  then have "list_all2 (rel_field_value (same_message R)) us (get_repeated R m' f)" "only_changed R f m m'"
    using m'(2) by (simp_all add: Q_def)
  then show ?thesis using m'(1) us(1) unfolding t_def [symmetric]
    by (auto simp: add_repeated_def st_def)
qed

section \<open>Round trip\<close>

text \<open>One field of the message is read from the table and put into the message under construction.\<close>

definition field_back :: "('d, 'm) reflection \<Rightarrow> 'm \<Rightarrow> 'm \<Rightarrow> 'd field_descriptor \<Rightarrow> bool" where
  "field_back R m m' f \<longleftrightarrow>
     (if fd_repeated f then \<exists>us. mset us = mset (get_repeated R m f) \<and>
        list_all2 (rel_field_value (same_message R)) us (get_repeated R m' f)
      else rel_field_value (same_message R) (get_field R m f) (get_field R m' f))"

lemma lua_rawget_field:
  assumes "stack_at i stk = Some (LTable t)"
  shows "lua_rawget i (k # stk) = Some (table_get k t # stk)"
proof -
  have "stack_at i (k # stk) = stack_at i stk"
    using assms by (auto simp: stack_at_def nth_append split: if_splits)
  then show ?thesis using assms by (simp add: lua_rawget_def)
qed

lemma portable_reads_back:
  assumes lib: "lua_documented lib" and pb: "pb_documented pb R"
  shows "portable lib pb R m \<Longrightarrow> reads_back (lua_table_to_protobuf lib pb R) R m"
proof (induction rule: portable.induct)
  case (portableI m)
  let ?rec = "lua_table_to_protobuf lib pb R" and ?d = "get_descriptor R m"
  have acc: "Wellfounded.accp (nested R) n" if "nested R n m" for n
    by (rule portable_acc [OF portableI(8) [OF that]])
  have table: "message_lua R m = LTable (fields_lua R m)"
    by (rule message_lua_fields [OF Wellfounded.accpI]) (rule acc)
  have vb: "value_back ?rec lib R f v" if "fits R f v" "portable_value lib R f v" "\<And>n. v = VMessage n \<Longrightarrow> nested R n m" for f v
  proof -
    have "value_lua R v \<noteq> LNil"
      by (rule value_lua_not_nil) (use acc that(3) in \<open>simp split: field_value.split\<close>)
    then show ?thesis using that(1,2) portableI(9) [OF that(3)] by (simp add: value_back_def)
  qed
  have getters: "getters_documented R" using pb by (simp add: pb_documented_def)
  have vb_single: "value_back ?rec lib R f (get_field R m f)" if "f \<in> fields_of R m" "\<not> fd_repeated f" for f
    using that portableI(6) getters nested_single [of f R m] by (intro vb) (auto simp: getters_documented_def fields_of_def)
  have vb_rep: "value_back ?rec lib R f v" if "f \<in> fields_of R m" "fd_repeated f" "v \<in> set (get_repeated R m f)" for f v
    using that portableI(7) getters nested_repeated [of f R m] by (intro vb) (auto simp: getters_documented_def fields_of_def)
  show ?case unfolding reads_back_def
  proof (intro allI impI)
    fix i stk and mem :: memory assume top: "stack_at i stk = Some (message_lua R m)"
    let ?st = "(stk, mem\<lparr>pb_count := pb_count mem + 1\<rparr>)"
    obtain m0 where m0: "get_prototype pb ?d = Some m0" using portableI(2) by blast
    then have new: "get_descriptor R m0 = ?d" "\<forall>f \<in> fields_of R m0. fd_repeated f \<longrightarrow> get_repeated R m0 f = []"
      using pb by (auto simp: pb_documented_def new_documented_def)
    define step where "step fd m1 st = do {
        stk \<leftarrow> lua_rawget i (lua_str (fd_name fd) # fst st);
        if fd_repeated fd then add_repeated ?rec lib R fd m1 (stk, snd st)
        else set_single ?rec lib R fd m1 (stk, snd st) }" for fd m1 st
    define Q where "Q pre m1 \<longleftrightarrow> get_descriptor R m1 = ?d \<and> (\<forall>f \<in> set pre. field_back R m m1 f) \<and>
      (\<forall>f \<in> fields_of R m - set pre. fd_repeated f \<longrightarrow> get_repeated R m1 f = [])" for pre m1
    have "\<exists>m'. fold_conv step (descriptor_fields R ?d) m0 ?st = Some (Returned (Some m'), ?st) \<and> Q (descriptor_fields R ?d) m'"
    proof (rule fold_conv_invariant)
      show "Q [] m0" using new by (simp add: Q_def fields_of_def)
    next
      fix pre f post m1 assume pre: "descriptor_fields R ?d = pre @ f # post" and Q: "Q pre m1"
      have f: "f \<in> fields_of R m" "f \<in> fields_of R m1" "f \<notin> set pre"
        using pre Q portableI(3) by (auto simp: fields_of_def Q_def)
      have "inj_on fd_lowercase_name (fields_of R m)" using portableI(4,5) by (simp add: inj_on_def)
      from fields_lua_get [OF this f(1)] lua_rawget_field [of i stk "fields_lua R m"] top table
      have get: "lua_rawget i (lua_str (fd_name f) # stk) = Some (field_lua R m f # stk)"
        using portableI(5) [OF f(1)] by simp
      have "\<exists>m'. step f m1 ?st = Some (Returned (Some m'), ?st) \<and> only_changed R f m1 m' \<and> field_back R m m' f"
      proof (cases "fd_repeated f")
        case True
        then show ?thesis using add_repeated_back [OF lib pb f(2) True _ vb_rep [OF f(1) True], where stk = stk and mem = "snd ?st"] Q f
          by (auto simp: step_def get field_back_def field_lua_def Q_def)
      next
        case False
        then show ?thesis using set_single_back [OF lib pb f(2) False vb_single [OF f(1) False], where stk = stk and mem = "snd ?st"]
          by (auto simp: step_def get field_back_def field_lua_def)
      qed
      then obtain m' where m': "step f m1 ?st = Some (Returned (Some m'), ?st)" "only_changed R f m1 m'"
        "field_back R m m' f" by blast
      have "field_back R m m' g" if "g \<in> set pre" for g
        using that m'(2) f(3) Q by (auto simp: field_back_def only_changed_def Q_def)
      then have "Q (pre @ [f]) m'" using Q m'(2,3) by (auto simp: Q_def only_changed_def)
      then show "\<exists>m'. step f m1 ?st = Some (Returned (Some m'), ?st) \<and> Q (pre @ [f]) m'" using m'(1) by blast
    qed
    then obtain m' where m': "fold_conv step (descriptor_fields R ?d) m0 ?st = Some (Returned (Some m'), ?st)"
      "Q (descriptor_fields R ?d) m'" by blast
    have "same_message R m m'" using m'(2) by (intro same_messageI) (auto simp: Q_def fields_of_def field_back_def)
    moreover have "?rec i (message_name R ?d) (stk, mem) = Some (Returned (Some m'), ?st)"
      using m'(1) portableI(1) m0 new(1)
      by (subst lua_table_to_protobuf.simps) (simp add: create_message_def step_def [abs_def])
    ultimately show "\<exists>m'. ?rec i (message_name R ?d) (stk, mem) =
        Some (Returned (Some m'), stk, mem\<lparr>pb_count := pb_count mem + 1\<rparr>) \<and> same_message R m m'" by blast
  qed
qed

section \<open>Memory and stack\<close>

text \<open>
  A successful conversion leaves the stack as it was and one message to its caller; any other
  outcome never gives back more than was taken.
\<close>

definition taken :: "int \<Rightarrow> memory \<Rightarrow> memory" where
  "taken k mem = mem\<lparr>pb_count := pb_count mem + k\<rparr>"

definition conv_outcome :: "int \<Rightarrow> conv_state \<Rightarrow> 'm option lua_result \<Rightarrow> conv_state \<Rightarrow> bool" where
  "conv_outcome k st r st' \<longleftrightarrow>
     (case r of Returned (Some m) \<Rightarrow> st' = (fst st, taken k (snd st))
      | _ \<Rightarrow> \<exists>j \<ge> 0. snd st' = taken j (snd st))"

lemma taken_simps [simp]:
  "taken 0 mem = mem" "taken i (taken j mem) = taken (j + i) mem" "pb_count (taken k mem) = pb_count mem + k"
  "free_protobuf_message (Some m) mem = taken (- 1) mem" "free_protobuf_message None mem = mem"
  "(taken k mem)\<lparr>pb_count := n\<rparr> = mem\<lparr>pb_count := n\<rparr>" "mem\<lparr>pb_count := pb_count mem\<rparr> = mem"
  by (simp_all add: taken_def free_protobuf_message_def)

lemma taken_exI: "0 \<le> k \<Longrightarrow> \<exists>j \<ge> 0. taken k mem = taken j mem"
  "0 \<le> k \<Longrightarrow> \<exists>j \<ge> 0. mem\<lparr>pb_count := pb_count mem + k\<rparr> = taken j mem"
  by (auto simp: taken_def)

lemma taken_self [simp]: "\<exists>j \<ge> 0. mem = taken j mem"
  using taken_simps(1) [of mem] by (metis order_refl)

definition reader_ok :: "'m table_reader \<Rightarrow> bool" where
  "reader_ok rec \<longleftrightarrow> (\<forall>i n st r st'. rec i n st = Some (r, st') \<longrightarrow> conv_outcome 1 st r st')"

lemma read_value_outcome:
  assumes ok: "reader_ok rec" and ret: "read_value rec lib R f st = Some (r, st')"
  shows "case r of Returned (Some v) \<Rightarrow> fst st' = fst st \<and> free_value v (snd st') = snd st
     | _ \<Rightarrow> \<exists>j \<ge> 0. snd st' = taken j (snd st)"
proof -
  obtain v stk mem where st: "st = (v # stk, mem)"
    using ret by (cases st; cases "fst st") (auto simp: read_value_def)
  show ?thesis
  proof (cases "fd_cpp_type f = CPPTYPE_MESSAGE")
    case True
    with ret st obtain q where q: "rec (length (v # stk)) (message_name R (fd_message_type f)) st = Some (q, st')"
        "r = map_lua_result (map_option VMessage) q"
      by (auto simp: read_value_def bind_eq_Some_conv)
    then have "conv_outcome 1 st q st'" using ok unfolding reader_ok_def by blast
    then show ?thesis using q(2)
      by (auto simp: conv_outcome_def free_value_def taken_def split: lua_result.splits option.splits)
  next
    case False
    with ret st obtain q where q: "read_scalar lib R f v = Some q" "r = map_lua_result Some q" "st' = st"
      by (auto simp: read_value_def bind_eq_Some_conv)
    have "free_value x mem = mem" if "q = Returned x" for x
      using q(1) False that
      by (auto simp: read_scalar_def cast_number_def free_value_def Let_def bind_eq_Some_conv
          split: cpp_type.splits lua_result.splits if_splits)
    then show ?thesis using q(2,3) st by (cases q) (auto intro: exI [of _ 0])
  qed
qed

lemma fold_conv_outcome:
  assumes "\<And>x m st r st'. g x m st = Some (r, st') \<Longrightarrow> conv_outcome 0 st r st'"
  shows "fold_conv g xs m st = Some (r, st') \<Longrightarrow> conv_outcome 0 st r st'"
proof (induction xs arbitrary: m st)
  case Nil
  then show ?case by (auto simp: conv_outcome_def)
next
  case (Cons x xs)
  then obtain q st1 where q: "g x m st = Some (q, st1)" "conv_outcome 0 st q st1"
    using assms by (auto simp: bind_eq_Some_conv)
  show ?case
  proof (cases "\<exists>m'. q = Returned (Some m')")
    case True
    then obtain m' where m': "q = Returned (Some m')" by blast
    then have "st1 = st" using q(2) by (simp add: conv_outcome_def)
    then show ?thesis using Cons.IH [of m' st] Cons.prems q(1) m' by simp
  next
    case False
    then show ?thesis using Cons.prems q by (auto split: lua_result.splits option.splits)
  qed
qed

lemma outcome_weaken: "conv_outcome k st r st' \<Longrightarrow> 0 \<le> k \<Longrightarrow> \<exists>j \<ge> 0. snd st' = taken j (snd st)"
  by (auto simp: conv_outcome_def split: lua_result.splits option.splits)

lemma add_element_outcome:
  assumes ok: "reader_ok rec" and ret: "add_element rec lib R f kv m st = Some (r, st')"
  shows "conv_outcome 0 st r st'"
proof -
  obtain q stk mem where q: "read_value rec lib R f (snd kv # fst kv # fst st, snd st) = Some (q, stk, mem)"
    using ret by (auto simp: add_element_def bind_eq_Some_conv)
  from read_value_outcome [OF ok q] ret q show ?thesis
    by (cases st) (auto simp: add_element_def conv_outcome_def split: lua_result.splits option.splits)
qed

text \<open>The message under construction is freed when \<open>NULL\<close> is returned for its own field.\<close>

lemma set_single_outcome:
  assumes ok: "reader_ok rec" and ret: "set_single rec lib R f m (v # stk, taken 1 mem) = Some (r, st')"
  shows "case r of Returned (Some m) \<Rightarrow> st' = (stk, taken 1 mem) | _ \<Rightarrow> \<exists>j \<ge> 0. snd st' = taken j mem"
proof (cases "v = LNil")
  case True
  then show ?thesis using ret by (auto simp: set_single_def split: if_splits intro: exI [of _ 0])
next
  case False
  then obtain q stk1 mem1 where q: "read_value rec lib R f (v # stk, taken 1 mem) = Some (q, stk1, mem1)"
    using ret by (auto simp: set_single_def bind_eq_Some_conv)
  from read_value_outcome [OF ok q] show ?thesis using ret q False
    by (auto simp: set_single_def intro!: taken_exI split: lua_result.splits option.splits)
qed

lemma add_repeated_outcome:
  assumes ok: "reader_ok rec" and ret: "add_repeated rec lib R f m (v # stk, taken 1 mem) = Some (r, st')"
  shows "case r of Returned (Some m) \<Rightarrow> st' = (stk, taken 1 mem) | _ \<Rightarrow> \<exists>j \<ge> 0. snd st' = taken j mem"
proof (cases "\<exists>t. v = LTable t")
  case True
  then obtain t where t: "v = LTable t" by blast
  obtain q stk1 mem1 where q: "fold_conv (add_element rec lib R f) (next_order lib t) m (v # stk, taken 1 mem) =
      Some (q, stk1, mem1)"
    using ret t by (auto simp: add_repeated_def bind_eq_Some_conv)
  have "conv_outcome 0 (v # stk, taken 1 mem) q (stk1, mem1)"
    by (rule fold_conv_outcome [OF _ q]) (rule add_element_outcome [OF ok])
  then show ?thesis using ret q t
    by (auto simp: add_repeated_def conv_outcome_def intro!: taken_exI split: lua_result.splits option.splits)
next
  case False
  then show ?thesis using ret by (cases v) (auto simp: add_repeated_def intro: exI [of _ 0])
qed

lemma fold_conv_balanced:
  assumes "\<And>x m r st'. g x m (stk, taken 1 mem) = Some (r, st') \<Longrightarrow>
      case r of Returned (Some m) \<Rightarrow> st' = (stk, taken 1 mem) | _ \<Rightarrow> \<exists>j \<ge> 0. snd st' = taken j mem"
  shows "fold_conv g xs m (stk, taken 1 mem) = Some (r, st') \<Longrightarrow> conv_outcome 1 (stk, mem) r st'"
proof (induction xs arbitrary: m)
  case Nil
  then show ?case by (auto simp: conv_outcome_def)
next
  case (Cons x xs)
  then obtain q st1 where q: "g x m (stk, taken 1 mem) = Some (q, st1)" by (auto simp: bind_eq_Some_conv)
  note out = assms [OF q]
  show ?case
  proof (cases "\<exists>m'. q = Returned (Some m')")
    case True
    then obtain m' where m': "q = Returned (Some m')" by blast
    then show ?thesis using Cons.IH [of m'] Cons.prems q out by simp
  next
    case False
    then show ?thesis using Cons.prems q out by (auto simp: conv_outcome_def split: lua_result.splits option.splits)
  qed
qed

lemma lua_rawget_cases: "lua_rawget i (k # stk) = Some stk' \<Longrightarrow> \<exists>v. stk' = v # stk"
  by (auto simp: lua_rawget_def split: option.splits lua_val.splits)

lemma lua_table_to_protobuf_ok: "reader_ok (lua_table_to_protobuf lib pb R)"
  unfolding reader_ok_def
proof (intro allI impI)
  fix i n st r st' assume ret: "lua_table_to_protobuf lib pb R i n st = Some (r, st')"
  have "conv_outcome 1 st (fst (r, st')) (snd (r, st'))"
  proof (rule lua_table_to_protobuf.raw_induct [where P = "\<lambda>lib pb R i n st p. conv_outcome 1 st (fst p) (snd p)",
      OF _ ret], goal_cases)
    case (1 conv lib pb R i n st p)
    then have ok: "reader_ok (conv lib pb R)" by (force simp: reader_ok_def)
    obtain stk mem where st: "st = (stk, mem)" by (cases st)
    obtain r' st'' where p: "p = (r', st'')" by (cases p)
    show ?case
    proof (cases "create_message pb n mem")
      case (Pair c mem1)
      show ?thesis
      proof (cases c)
        case None
        then have "mem1 = mem" using Pair by (auto simp: create_message_def split: option.splits)
        then show ?thesis using 1(2) Pair None by (auto simp: st conv_outcome_def)
      next
        case (Some m)
        then have mem1: "mem1 = taken 1 mem" using Pair by (auto simp: create_message_def taken_def split: option.splits)
        define g where "g fd m st = do {
            stk \<leftarrow> lua_rawget i (lua_str (fd_name fd) # fst st);
            if fd_repeated fd then add_repeated (conv lib pb R) lib R fd m (stk, snd st)
            else set_single (conv lib pb R) lib R fd m (stk, snd st) }" for fd m st
        have F: "fold_conv g (descriptor_fields R (get_descriptor R m)) m (stk, taken 1 mem) = Some (r', st'')"
          using 1(2) Pair Some by (simp add: st p mem1 g_def [abs_def])
        have "conv_outcome 1 (stk, mem) r' st''"
        proof (rule fold_conv_balanced [OF _ F])
          fix fd m q s
          assume "g fd m (stk, taken 1 mem) = Some (q, s)"
          then obtain v where "(if fd_repeated fd then add_repeated (conv lib pb R) lib R fd m (v # stk, taken 1 mem)
              else set_single (conv lib pb R) lib R fd m (v # stk, taken 1 mem)) = Some (q, s)"
            by (cases "fd_repeated fd") (auto simp: g_def bind_eq_Some_conv dest!: lua_rawget_cases)
          then show "case q of Returned (Some m) \<Rightarrow> s = (stk, taken 1 mem) | _ \<Rightarrow> \<exists>j \<ge> 0. snd s = taken j mem"
            using add_repeated_outcome [OF ok, of lib R fd m v stk mem q s]
              set_single_outcome [OF ok, of lib R fd m v stk mem q s] by (cases "fd_repeated fd") simp_all
        qed
        then show ?thesis by (simp add: st p)
      qed
    qed
  qed
  then show "conv_outcome 1 st r st'" by simp
qed

section \<open>Where it fails\<close>

text \<open>
  The loop follows messages that are not set: it never returns for a type with a field of its own type.
\<close>

lemma self_nested_diverges:
  assumes "getters_documented R" "f \<in> set (descriptor_fields R d)" "\<not> fd_repeated f"
    and "fd_cpp_type f = CPPTYPE_MESSAGE" "fd_message_type f = d"
  shows "get_descriptor R m = d \<Longrightarrow> push_message R m stk = None"
proof -
  have "get_descriptor R m \<noteq> d" if "Wellfounded.accp (nested R) m" for m
    using that
  proof (induction rule: Wellfounded.accp_induct_rule)
    case (1 m)
    show ?case
    proof
      assume d: "get_descriptor R m = d"
      then have "fits R f (get_field R m f)" using assms(1-3) by (auto simp: getters_documented_def fields_of_def)
      then obtain n where n: "get_field R m f = VMessage n" "get_descriptor R n = d"
        using assms(4,5) by (cases "get_field R m f") (auto simp: fits_def)
      then show False using 1(2) [of n] nested_single [of f R m n] assms(2,3) d by simp
    qed
  qed
  then show "get_descriptor R m = d \<Longrightarrow> push_message R m stk = None"
    using push_message_returns_acc by (metis not_Some_eq)
qed

text \<open>
  When an element of a repeated message field cannot be converted, the message under construction
  is not freed, unlike for a single message field.
\<close>

lemma first_field:
  assumes "create_message pb name mem = (Some m, mem1)" "descriptor_fields R (get_descriptor R m) = f # fs"
    and "stack_at i stk = Some (LTable t)" "table_get (lua_str (fd_name f)) t = v"
    and "(if fd_repeated f then add_repeated (lua_table_to_protobuf lib pb R) lib R f m (v # stk, mem1)
      else set_single (lua_table_to_protobuf lib pb R) lib R f m (v # stk, mem1)) = Some (r, st)"
    and "\<forall>m'. r \<noteq> Returned (Some m')"
  shows "lua_table_to_protobuf lib pb R i name (stk, mem) = Some (r, st)"
  using assms lua_rawget_field [OF assms(3)]
  by (subst lua_table_to_protobuf.simps) (auto split: lua_result.splits option.splits if_splits)

lemma repeated_failure_leaks:
  assumes "create_message pb name mem = (Some m, mem1)" "descriptor_fields R (get_descriptor R m) = f # fs"
    and "stack_at i stk = Some (LTable t)" "table_get (lua_str (fd_name f)) t = LTable u"
    and f: "fd_repeated f" "fd_cpp_type f = CPPTYPE_MESSAGE" "next_order lib u = (k, v) # kvs"
    and sub: "lua_table_to_protobuf lib pb R (Suc (length (k # LTable u # stk))) (message_name R (fd_message_type f))
      (v # k # LTable u # stk, mem1) = Some (Returned None, stk2, mem1)"
  shows "lua_table_to_protobuf lib pb R i name (stk, mem) = Some (Returned None, stk2, mem1)"
    "pb_count mem1 = pb_count mem + 1"
proof -
  show "lua_table_to_protobuf lib pb R i name (stk, mem) = Some (Returned None, stk2, mem1)"
    by (rule first_field [OF assms(1-4)]) (use f sub in
      \<open>simp_all add: add_repeated_def add_element_def read_value_def\<close>)
  show "pb_count mem1 = pb_count mem + 1"
    using assms(1) by (auto simp: create_message_def split: option.splits)
qed

text \<open>A value of the wrong type raises a Lua error, which leaves the message behind too.\<close>

lemma bad_argument_leaks:
  assumes "create_message pb name mem = (Some m, mem1)" "descriptor_fields R (get_descriptor R m) = f # fs"
    and "stack_at i stk = Some (LTable t)" "table_get (lua_str (fd_name f)) t = v"
    and f: "\<not> fd_repeated f" "fd_cpp_type f = CPPTYPE_INT32" "v \<noteq> LNil" "to_number lib v = None"
  shows "lua_table_to_protobuf lib pb R i name (stk, mem) = Some (Bad_Argument, v # stk, mem1)"
    "pb_count mem1 = pb_count mem + 1"
proof -
  show "lua_table_to_protobuf lib pb R i name (stk, mem) = Some (Bad_Argument, v # stk, mem1)"
    by (rule first_field [OF assms(1-4)]) (use f in
      \<open>simp_all add: set_single_def read_value_def read_scalar_def cast_number_def luaL_checknumber_def\<close>)
  show "pb_count mem1 = pb_count mem + 1"
    using assms(1) by (auto simp: create_message_def split: option.splits)
qed

section \<open>Concrete messages for the witnesses\<close>

text \<open>
  Two types, an item and a bag with an item and a list of names; a message is its type and what was set.
\<close>

datatype dyn = Dyn nat "nat field_descriptor \<Rightarrow> dyn field_value list"

fun dyn_type :: "dyn \<Rightarrow> nat" where "dyn_type (Dyn d _) = d"

fun dyn_values :: "dyn \<Rightarrow> nat field_descriptor \<Rightarrow> dyn field_value list" where "dyn_values (Dyn _ vs) = vs"

definition count_field :: "nat field_descriptor" where
  "count_field = \<lparr>fd_name = ''count'', fd_lowercase_name = ''count'', fd_cpp_type = CPPTYPE_INT32,
     fd_required = False, fd_repeated = False, fd_message_type = 0\<rparr>"

definition item_field :: "nat field_descriptor" where
  "item_field = \<lparr>fd_name = ''item'', fd_lowercase_name = ''item'', fd_cpp_type = CPPTYPE_MESSAGE,
     fd_required = False, fd_repeated = False, fd_message_type = 0\<rparr>"

definition names_field :: "nat field_descriptor" where
  "names_field = \<lparr>fd_name = ''names'', fd_lowercase_name = ''names'', fd_cpp_type = CPPTYPE_STRING,
     fd_required = False, fd_repeated = True, fd_message_type = 0\<rparr>"

definition dyn_fits :: "nat field_descriptor \<Rightarrow> dyn field_value \<Rightarrow> bool" where
  "dyn_fits f v \<longleftrightarrow> value_type v = fd_cpp_type f \<and>
     (case v of VMessage n \<Rightarrow> dyn_type n = fd_message_type f | _ \<Rightarrow> True)"

definition dyn_default :: "nat field_descriptor \<Rightarrow> dyn field_value" where
  "dyn_default f = (case fd_cpp_type f of
     CPPTYPE_DOUBLE \<Rightarrow> VDouble 0 | CPPTYPE_FLOAT \<Rightarrow> VFloat 0 | CPPTYPE_INT64 \<Rightarrow> VInt64 0 | CPPTYPE_UINT64 \<Rightarrow> VUInt64 0
   | CPPTYPE_ENUM \<Rightarrow> VEnum 0 | CPPTYPE_INT32 \<Rightarrow> VInt32 0 | CPPTYPE_UINT32 \<Rightarrow> VUInt32 0 | CPPTYPE_STRING \<Rightarrow> VString []
   | CPPTYPE_BOOL \<Rightarrow> VBool False | CPPTYPE_MESSAGE \<Rightarrow> VMessage (Dyn (fd_message_type f) (\<lambda>_. [])))"

definition R_example :: "(nat, dyn) reflection" where
  "R_example = \<lparr>get_descriptor = dyn_type,
     descriptor_fields = (\<lambda>d. if d = 0 then [count_field] else [item_field, names_field]),
     message_name = (\<lambda>d. if d = 0 then ''Item'' else ''Bag''),
     get_field = (\<lambda>m f. case filter (dyn_fits f) (dyn_values m f) of v # _ \<Rightarrow> v | [] \<Rightarrow> dyn_default f),
     get_repeated = (\<lambda>m f. filter (dyn_fits f) (dyn_values m f)),
     set_field = (\<lambda>f v m. Dyn (dyn_type m) ((dyn_values m)(f := [v]))),
     add_field = (\<lambda>f v m. Dyn (dyn_type m) ((dyn_values m)(f := filter (dyn_fits f) (dyn_values m f) @ [v]))),
     enum_known = (\<lambda>_ _. False)\<rparr>"

definition pb_dyn :: "(nat, dyn) protobuf" where
  "pb_dyn = \<lparr>find_message_type = (\<lambda>n. if n = ''Item'' then Some 0 else if n = ''Bag'' then Some 1 else None),
     get_prototype = (\<lambda>d. Some (Dyn d (\<lambda>_. []))), parse_from_array = (\<lambda>_ _. None),
     byte_size = (\<lambda>_. 0), serialize_to_array = (\<lambda>_. None)\<rparr>"

lemma dyn_default_fits: "dyn_fits f (dyn_default f)"
  by (cases "fd_cpp_type f") (simp_all add: dyn_fits_def dyn_default_def)

lemma R_example_simps [simp]:
  "get_descriptor R_example = dyn_type"
  "descriptor_fields R_example d = (if d = 0 then [count_field] else [item_field, names_field])"
  "message_name R_example d = (if d = 0 then ''Item'' else ''Bag'')"
  "get_field R_example m f = (case filter (dyn_fits f) (dyn_values m f) of v # _ \<Rightarrow> v | [] \<Rightarrow> dyn_default f)"
  "get_repeated R_example m f = filter (dyn_fits f) (dyn_values m f)"
  "set_field R_example f v m = Dyn (dyn_type m) ((dyn_values m)(f := [v]))"
  "add_field R_example f v m = Dyn (dyn_type m) ((dyn_values m)(f := filter (dyn_fits f) (dyn_values m f) @ [v]))"
  by (simp_all add: R_example_def)

lemma fits_example [simp]: "fits R_example f v = dyn_fits f v"
  by (cases v) (simp_all add: fits_def dyn_fits_def)

lemma pb_dyn_documented: "pb_documented pb_dyn R_example"
  by (auto simp: pb_documented_def getters_documented_def set_documented_def add_documented_def new_documented_def
      pb_dyn_def dyn_default_fits filter_eq_Cons_iff split: list.split)

definition item :: dyn where
  "item = Dyn 0 (\<lambda>_. [VInt32 7])"

definition bag :: dyn where
  "bag = Dyn 1 (\<lambda>f. if f = item_field then [VMessage item] else [VString [104, 105], VString [97]])"

lemma example_values:
  "dyn_type item = 0" "dyn_type bag = 1" "item_field \<noteq> names_field" "names_field \<noteq> item_field"
  "filter (dyn_fits count_field) (dyn_values item count_field) = [VInt32 7]"
  "filter (dyn_fits item_field) (dyn_values bag item_field) = [VMessage item]"
  "filter (dyn_fits names_field) (dyn_values bag names_field) = [VString [104, 105], VString [97]]"
  "\<not> fd_repeated count_field" "\<not> fd_repeated item_field" "fd_repeated names_field"
  "fields_of R_example item = {count_field}" "fields_of R_example bag = {item_field, names_field}"
  by (simp_all add: item_def bag_def count_field_def item_field_def names_field_def dyn_fits_def fields_of_def)

lemma example_names:
  "fd_lowercase_name count_field = fd_name count_field" "fd_lowercase_name item_field = fd_name item_field"
  "fd_lowercase_name names_field = fd_name names_field" "fd_name item_field \<noteq> fd_name names_field"
  "find_message_type pb_dyn ''Item'' = Some 0" "find_message_type pb_dyn ''Bag'' = Some 1"
  "get_prototype pb_dyn d \<noteq> None"
  by (simp_all add: count_field_def item_field_def names_field_def pb_dyn_def)

lemma item_portable: "portable lib_example pb_dyn R_example item"
  by (rule portableI) (auto simp: example_values example_names nested_def portable_value_def)

lemma names_portable: "dyn_fits names_field v \<Longrightarrow> portable_value lib R names_field v"
  by (cases v) (simp_all add: dyn_fits_def names_field_def portable_value_def)

lemma bag_portable: "portable lib_example pb_dyn R_example bag"
  by (rule portableI)
    (auto simp: example_values example_names nested_def names_portable item_portable, simp add: portable_value_def)

section \<open>Properties\<close>

text \<open>C8 (termination): \<open>push_proto_message_tolua\<close> returns exactly when no infinite chain of nested messages starts
  at the message, where a message field that is not set counts with its default instance.\<close>

theorem push_terminates:
  "(\<exists>r. push_proto_message_tolua R (Some m) stk = Some r) = Wellfounded.accp (nested R) m"
  using push_message_acc [of R m stk] push_message_returns_acc [of R m stk]
  by (auto simp: push_proto_message_tolua_def)



text \<open>C9 (safety): converting a table to a message leaves one message to the caller and the stack as it was when it
  succeeds; when it returns \<open>NULL\<close> or raises an error no message is freed that was not its own.\<close>

theorem table_conversion_balanced:
  assumes "lua_table_to_protobuf lib pb R i name (stk, mem) = Some (r, stk', mem')"
  shows "case r of
      Returned (Some m) \<Rightarrow> stk' = stk \<and> mem' = mem\<lparr>pb_count := pb_count mem + 1\<rparr>
    | _ \<Rightarrow> \<exists>k \<ge> 0. mem' = mem\<lparr>pb_count := pb_count mem + k\<rparr>"
  using lua_table_to_protobuf_ok [of lib pb R] assms unfolding reader_ok_def conv_outcome_def taken_def
  by (fastforce split: lua_result.splits option.splits)

theorem table_conversion_balanced_witness:
  "\<exists>t m'. lua_table_to_protobuf lib_example pb_dyn R_example 1 ''Bag'' ([t], mem0) =
      Some (Returned (Some m'), [t], mem0\<lparr>pb_count := pb_count mem0 + 1\<rparr>)"
proof -
  obtain t m' st where ret: "lua_table_to_protobuf lib_example pb_dyn R_example 1
      (message_name R_example (get_descriptor R_example bag)) ([t], mem0) = Some (Returned (Some m'), st)"
    using portable_reads_back [OF lib_example_documented pb_dyn_documented bag_portable]
      stack_at_top [of "[]"] unfolding reads_back_def by (metis One_nat_def list.size(3))
  have "message_name R_example (get_descriptor R_example bag) = ''Bag''" by (simp add: example_values)
  with ret have "lua_table_to_protobuf lib_example pb_dyn R_example 1 ''Bag'' ([t], mem0) =
      Some (Returned (Some m'), fst st, snd st)" by simp
  with table_conversion_balanced [OF this] show ?thesis by auto
qed

end
