(* ===== verification/Lua_Engine.thy ===== *)
theory Lua_Engine
  imports Session Lua_Proto
begin

text \<open>
  Calling Lua functions from C++: \<open>executeFunction\<close> and \<open>execute_function_by_handler\<close> of
  lua_wrapper/lua_wrapper.cc, their copies in lua_wrapper/service_export_to_lua.cc, and the tables of function
  references.

  The Lua state as the C++ code sees it is a record inside the world: the stack of the running C
  function (top first), the global variables, the two tables of references, the service objects and
  the raw messages lent to scripts. What a called function does is the argument \<open>call\<close>: it may change the
  whole world and ends with a value or an error; \<open>None\<close> is undefined behaviour or no return.
\<close>

section \<open>State\<close>

record lua_service =
  ls_use_raw_cmd :: bool
  lua_connect_handler :: u32
  lua_recv_raw_handler :: u32
  lua_recv_cmd_handler :: u32
  lua_disconnect_handler :: u32

record 'l lua_state =
  lua_stack :: "lua_val list"
  lua_globals :: "string \<Rightarrow> lua_val"
  refid_function_mapping :: "int \<Rightarrow> lua_val"
  function_ref_id :: int
  service_function_mapping :: "int \<Rightarrow> lua_val"
  service_ref_id :: u32
  lua_services :: "addr \<rightharpoonup> lua_service"
  lent_raws :: "addr \<rightharpoonup> raw_cmd_msg"
  interpreter :: 'l

type_synonym 'l lworld = "'l lua_state world"

datatype call_result = Call_Ok lua_val | Call_Error lua_val

type_synonym 'l caller =
  "lua_val \<Rightarrow> lua_val list \<Rightarrow> lua_val option \<Rightarrow> 'l lworld \<Rightarrow> (call_result \<times> 'l lworld) option"

section \<open>Stack operations\<close>

abbreviation stack_of :: "'l lworld \<Rightarrow> lua_val list" where
  "stack_of w \<equiv> lua_stack (app w)"

definition with_stack :: "lua_val list \<Rightarrow> 'l lworld \<Rightarrow> 'l lworld" where
  "with_stack s w = w\<lparr>app := (app w)\<lparr>lua_stack := s\<rparr>\<rparr>"

definition lua_push :: "lua_val \<Rightarrow> 'l lworld \<Rightarrow> 'l lworld" where
  "lua_push v w = with_stack (v # stack_of w) w"

text \<open>\<open>lua_pop\<close> of more values than there are, and a negative index below the bottom, are undefined.\<close>

definition lua_pop :: "nat \<Rightarrow> 'l lworld \<Rightarrow> 'l lworld option" where
  "lua_pop n w = (if n \<le> length (stack_of w) then Some (with_stack (drop n (stack_of w)) w) else None)"

definition lua_index :: "int \<Rightarrow> 'l lworld \<Rightarrow> lua_val option" where
  "lua_index i w = (if i < 0 \<and> nat (- i) \<le> length (stack_of w) then Some (stack_of w ! (nat (- i) - 1)) else None)"

text \<open>\<open>lua_insert(L, i)\<close>, for a negative \<open>i\<close>, moves the top to that index.\<close>

definition lua_insert :: "int \<Rightarrow> 'l lworld \<Rightarrow> 'l lworld option" where
  "lua_insert i w =
     (case stack_of w of [] \<Rightarrow> None
      | v # s \<Rightarrow> (let k = nat (- i) - 1 in
          if i < 0 \<and> k \<le> length s then Some (with_stack (take k s @ v # drop k s) w) else None))"

text \<open>
  \<open>lua_pcall(L, n, 1, msgh)\<close>: the function and its \<open>n\<close> arguments are replaced by the result or the error; the
  function at the index \<open>msgh\<close>, unless 0, handles errors.
\<close>

definition lua_pcall :: "'l caller \<Rightarrow> nat \<Rightarrow> int \<Rightarrow> 'l lworld \<Rightarrow> (bool \<times> 'l lworld) option" where
  "lua_pcall call n msgh w =
     (if n < length (stack_of w) then do {
        h \<leftarrow> (if msgh = 0 then Some None else map_option Some (lua_index msgh w));
        (r, w') \<leftarrow> call (stack_of w ! n) (rev (take n (stack_of w))) h w;
        let rest = drop (Suc n) (stack_of w);
        Some (case r of Call_Ok v \<Rightarrow> (False, with_stack (v # rest) w')
              | Call_Error v \<Rightarrow> (True, with_stack (v # rest) w')) }
      else None)"

section \<open>Calling a function\<close>

text \<open>
  \<open>log_error\<close> with a \<open>%s\<close> needs a string: an error value that is no string gives it \<open>NULL\<close>.
\<close>

definition log_lua_error :: "lua_lib \<Rightarrow> lua_val \<Rightarrow> unit option" where
  "log_lua_error lib v = map_option (\<lambda>_. ()) (lua_tostring lib v)"

definition executeFunction :: "lua_lib \<Rightarrow> 'l caller \<Rightarrow> nat \<Rightarrow> 'l lworld \<Rightarrow> (int \<times> 'l lworld) option" where
  "executeFunction lib call numArgs w = do {
     let functionIndex = - (int numArgs + 1);
     f \<leftarrow> lua_index functionIndex w;
     if \<not> is_function f then map_option (Pair 0) (lua_pop (numArgs + 1) w)
     else do {
       let w = lua_push (lua_globals (app w) ''__G__TRACKBACK__'') w;
       g \<leftarrow> lua_index (- 1) w;
       (traceback, w) \<leftarrow>
         (if \<not> is_function g then map_option (Pair 0) (lua_pop 1 w)
          else map_option (Pair (functionIndex - 1)) (lua_insert (functionIndex - 1) w));
       (error, w) \<leftarrow> lua_pcall call numArgs traceback w;
       if error then
         if traceback = 0 then do {
           e \<leftarrow> lua_index (- 1) w;
           _ \<leftarrow> log_lua_error lib e;
           map_option (Pair 0) (lua_pop 1 w) }
         else map_option (Pair 0) (lua_pop 2 w)
       else do {
         v \<leftarrow> lua_index (- 1) w;
         let ret = (if lua_isnumber lib v then int32 (lua_tointeger lib v)
                    else case v of LBoolean b \<Rightarrow> if b then 1 else 0 | _ \<Rightarrow> 0);
         w \<leftarrow> lua_pop 1 w;
         w \<leftarrow> (if traceback \<noteq> 0 then lua_pop 1 w else Some w);
         Some (ret, w) } } }"

text \<open>\<open>toluafix_get_function_by_refid\<close> leaves the function or \<open>nil\<close> on the stack.\<close>

definition pushFunctionByHandler :: "int \<Rightarrow> 'l lworld \<Rightarrow> (bool \<times> 'l lworld) option" where
  "pushFunctionByHandler nHandler w = do {
     let w = lua_push (refid_function_mapping (app w) nHandler) w;
     f \<leftarrow> lua_index (- 1) w;
     if \<not> is_function f then map_option (Pair False) (lua_pop 1 w) else Some (True, w) }"

text \<open>In the end the stack is cleared, whatever was on it before the arguments.\<close>

definition execute_function_by_handler ::
    "lua_lib \<Rightarrow> 'l caller \<Rightarrow> int \<Rightarrow> nat \<Rightarrow> 'l lworld \<Rightarrow> (int \<times> 'l lworld) option" where
  "execute_function_by_handler lib call handler nargs w = do {
     (ok, w) \<leftarrow> pushFunctionByHandler handler w;
     (ret, w) \<leftarrow>
       (if ok then do {
          w \<leftarrow> (if nargs > 0 then lua_insert (- int nargs - 1) w else Some w);
          executeFunction lib call nargs w }
        else Some (0, w));
     Some (ret, with_stack [] w) }"

definition remove_script_handler :: "int \<Rightarrow> 'l lworld \<Rightarrow> 'l lworld" where
  "remove_script_handler handler w =
     w\<lparr>app := (app w)\<lparr>refid_function_mapping := (refid_function_mapping (app w))(handler := LNil)\<rparr>\<rparr>"

text \<open>\<open>toluafix_ref_function\<close>: the value at an index from the bottom, if it is a function, gets the next reference.\<close>

definition ref_function :: "nat \<Rightarrow> 'l lworld \<Rightarrow> int \<times> 'l lworld" where
  "ref_function lo w =
     (case stack_at lo (stack_of w) of
        Some f \<Rightarrow>
          if is_function f then
            let r = function_ref_id (app w) + 1 in
              (r, w\<lparr>app := (app w)\<lparr>function_ref_id := r,
                 refid_function_mapping := (refid_function_mapping (app w))(r := f)\<rparr>\<rparr>)
          else (0, w)
      | None \<Rightarrow> (0, w))"

section \<open>The copies for services\<close>

text \<open>The same code once more, with the table of service functions.\<close>

definition exe_function :: "lua_lib \<Rightarrow> 'l caller \<Rightarrow> nat \<Rightarrow> 'l lworld \<Rightarrow> (int \<times> 'l lworld) option" where
  "exe_function = executeFunction"

definition get_service_function :: "int \<Rightarrow> 'l lworld \<Rightarrow> 'l lworld" where
  "get_service_function refid w = lua_push (service_function_mapping (app w) refid) w"

definition push_service_function :: "int \<Rightarrow> 'l lworld \<Rightarrow> (bool \<times> 'l lworld) option" where
  "push_service_function nHandler w = do {
     let w = get_service_function nHandler w;
     f \<leftarrow> lua_index (- 1) w;
     if \<not> is_function f then map_option (Pair False) (lua_pop 1 w) else Some (True, w) }"

definition execute_service_function ::
    "lua_lib \<Rightarrow> 'l caller \<Rightarrow> int \<Rightarrow> nat \<Rightarrow> 'l lworld \<Rightarrow> (int \<times> 'l lworld) option" where
  "execute_service_function lib call nHandler numArgs w = do {
     (ok, w) \<leftarrow> push_service_function nHandler w;
     (ret, w) \<leftarrow>
       (if ok then do {
          w \<leftarrow> (if numArgs > 0 then lua_insert (- (int numArgs + 1)) w else Some w);
          exe_function lib call numArgs w }
        else Some (0, w));
     Some (ret, with_stack [] w) }"

section \<open>Lemmas\<close>

lemma with_stack_simps [simp]:
  "stack_of (with_stack s w) = s" "with_stack s (with_stack t w) = with_stack s w"
  "with_stack (lua_stack (app w)) w = w"
  "lua_globals (app (with_stack s w)) = lua_globals (app w)"
  "service_function_mapping (app (with_stack s w)) = service_function_mapping (app w)"
  "refid_function_mapping (app (with_stack s w)) = refid_function_mapping (app w)"
  "lua_services (app (with_stack s w)) = lua_services (app w)"
  "lent_raws (app (with_stack s w)) = lent_raws (app w)"
  "slots (with_stack s w) = slots w" "proto (with_stack s w) = proto w" "mem (with_stack s w) = mem w"
  "sessions (with_stack s w) = sessions w"
  by (simp_all add: with_stack_def)

lemma lua_index_nth: "k < length (stack_of w) \<Longrightarrow> lua_index (- int (Suc k)) w = Some (stack_of w ! k)"
proof -
  have "nat (int k + 1) = Suc k" by arith
  then show "k < length (stack_of w) \<Longrightarrow> ?thesis" by (simp add: lua_index_def)
qed

lemma lua_top [simp]:
  "lua_index (- 1) (with_stack (v # s) w) = Some v"
  "lua_pop (Suc 0) (with_stack (v # s) w) = Some (with_stack s w)"
  "lua_pop 2 (with_stack (u # v # s) w) = Some (with_stack s w)"
  by (simp_all add: lua_index_def lua_pop_def)

text \<open>What the caller of \<open>executeFunction\<close> sees: the arguments are gone, and the value returned to C.\<close>

definition c_result :: "lua_lib \<Rightarrow> call_result \<Rightarrow> int" where
  "c_result lib r = (case r of Call_Error e \<Rightarrow> 0
     | Call_Ok v \<Rightarrow> if lua_isnumber lib v then int32 (lua_tointeger lib v)
         else case v of LBoolean b \<Rightarrow> if b then 1 else 0 | _ \<Rightarrow> 0)"

definition traceback_of :: "'l lworld \<Rightarrow> lua_val option" where
  "traceback_of w = (let g = lua_globals (app w) ''__G__TRACKBACK__'' in if is_function g then Some g else None)"

text \<open>The stack the function is called on: with the handler below it, if there is one.\<close>

definition call_stack :: "lua_val \<Rightarrow> lua_val list \<Rightarrow> lua_val list \<Rightarrow> 'l lworld \<Rightarrow> lua_val list" where
  "call_stack f args base w =
     rev args @ f # (case traceback_of w of None \<Rightarrow> base | Some g \<Rightarrow> g # base)"

lemma executeFunction_calls:
  assumes w: "stack_of w = rev args @ f # base" and f: "is_function f"
    and call: "call f args (traceback_of w) (with_stack (call_stack f args base w) w) = Some (r, w')"
    and err: "\<And>e. r = Call_Error e \<Longrightarrow> traceback_of w = None \<Longrightarrow> lua_tostring lib e \<noteq> None"
  shows "executeFunction lib call (length args) w = Some (c_result lib r, with_stack base w')"
proof -
  let ?n = "length args" and ?g = "lua_globals (app w) ''__G__TRACKBACK__''"
  have "- int ?n - 1 = - int (Suc ?n)" by simp
  then have f_at: "lua_index (- int ?n - 1) w = Some f"
    using lua_index_nth [of ?n w] w by (simp only:) (simp add: nth_append)
  show ?thesis
  proof (cases "is_function ?g")
    case False
    then have tb: "traceback_of w = None" by (simp add: traceback_of_def Let_def)
    then have "lua_pcall call ?n 0 w = Some (case r of Call_Ok v \<Rightarrow> (False, with_stack (v # base) w')
        | Call_Error v \<Rightarrow> (True, with_stack (v # base) w'))"
      using call w with_stack_simps(3) [of w] by (simp add: lua_pcall_def call_stack_def nth_append Let_def del: with_stack_simps(3))
    then show ?thesis using f f_at False err tb
      with_stack_simps(3) [of w] w
      by (cases r) (auto simp: executeFunction_def lua_push_def c_result_def log_lua_error_def Let_def simp del: with_stack_simps(3))
  next
    case True
    then have tb: "traceback_of w = Some ?g" by (simp add: traceback_of_def Let_def)
    have ins: "lua_insert (- int ?n - 1 - 1) (lua_push ?g w) = Some (with_stack (call_stack f args base w) w)"
      using w tb by (simp add: lua_insert_def lua_push_def call_stack_def nat_add_distrib)
    have "lua_pcall call ?n (- int ?n - 1 - 1) (with_stack (call_stack f args base w) w) =
        Some (case r of Call_Ok v \<Rightarrow> (False, with_stack (v # ?g # base) w')
        | Call_Error v \<Rightarrow> (True, with_stack (v # ?g # base) w'))"
      using call tb by (simp add: lua_pcall_def call_stack_def nth_append lua_index_def nat_add_distrib Let_def)
    then show ?thesis using f f_at True ins
      by (cases r) (auto simp: executeFunction_def lua_push_def c_result_def Let_def)
  qed
qed

lemma lua_push_stack [simp]: "stack_of (lua_push v w) = v # stack_of w"
  by (simp add: lua_push_def)

text \<open>A function found by its reference gets the arguments on top of the stack; in the end the stack is empty.\<close>

lemma executeFunction_fetched:
  assumes w: "stack_of w = rev args @ base" and f: "is_function f"
    and call: "call f args (traceback_of w) (with_stack (call_stack f args base w) w) = Some (r, w')"
    and err: "\<And>e. r = Call_Error e \<Longrightarrow> traceback_of w = None \<Longrightarrow> lua_tostring lib e \<noteq> None"
  shows "\<exists>w1. (if length args > 0 then lua_insert (- int (length args) - 1) (lua_push f w) else Some (lua_push f w)) = Some w1 \<and>
    executeFunction lib call (length args) w1 = Some (c_result lib r, with_stack base w')"
proof -
  let ?w = "with_stack (rev args @ f # base) w"
  have tb: "traceback_of ?w = traceback_of w" by (simp add: traceback_of_def)
  have "executeFunction lib call (length args) ?w = Some (c_result lib r, with_stack base w')"
    by (rule executeFunction_calls [where f = f]) (use f call err tb in \<open>simp_all add: call_stack_def\<close>)
  moreover have "lua_insert (- int (length args) - 1) (with_stack (f # rev args @ base) w) = Some ?w"
    by (simp add: lua_insert_def nat_add_distrib)
  ultimately show ?thesis using w by (cases args) (simp_all add: lua_push_def)
qed

lemma execute_service_function_calls:
  assumes "stack_of w = rev args @ base" "service_function_mapping (app w) h = f" "is_function f"
    and "call f args (traceback_of w) (with_stack (call_stack f args base w) w) = Some (r, w')"
    and "\<And>e. r = Call_Error e \<Longrightarrow> traceback_of w = None \<Longrightarrow> lua_tostring lib e \<noteq> None"
  shows "execute_service_function lib call h (length args) w = Some (c_result lib r, with_stack [] w')"
  using executeFunction_fetched [where call = call, OF assms(1,3,4,5)] assms(2,3)
  by (auto simp: execute_service_function_def push_service_function_def get_service_function_def exe_function_def
      lua_push_def Let_def)

lemma execute_function_by_handler_calls:
  assumes "stack_of w = rev args @ base" "refid_function_mapping (app w) h = f" "is_function f"
    and "call f args (traceback_of w) (with_stack (call_stack f args base w) w) = Some (r, w')"
    and "\<And>e. r = Call_Error e \<Longrightarrow> traceback_of w = None \<Longrightarrow> lua_tostring lib e \<noteq> None"
  shows "execute_function_by_handler lib call h (length args) w = Some (c_result lib r, with_stack [] w')"
  using executeFunction_fetched [where call = call, OF assms(1,3,4,5)] assms(2,3)
  by (auto simp: execute_function_by_handler_def pushFunctionByHandler_def lua_push_def Let_def)

lemma execute_service_function_missing:
  "\<not> is_function (service_function_mapping (app w) h) \<Longrightarrow>
   execute_service_function lib call h n w = Some (0, with_stack [] w)"
  by (simp add: execute_service_function_def push_service_function_def get_service_function_def lua_push_def Let_def)

text \<open>The world a handler calls the function in: the arguments are on the stack with the function below them.\<close>

definition calling :: "lua_val \<Rightarrow> lua_val list \<Rightarrow> 'l lworld \<Rightarrow> 'l lworld" where
  "calling f args w = with_stack (call_stack f args (stack_of w) w) w"

text \<open>An error that is no string, with no traceback function, would be printed through a null pointer.\<close>

definition error_text_printable :: "lua_lib \<Rightarrow> 'l lworld \<Rightarrow> call_result \<Rightarrow> bool" where
  "error_text_printable lib w r \<longleftrightarrow> (\<forall>e. r = Call_Error e \<and> traceback_of w = None \<longrightarrow> lua_tostring lib e \<noteq> None)"

text \<open>The callbacks of the clients push two values, execute the function they were given the reference of, and drop
  the reference.\<close>

lemma callback_of_two:
  assumes "refid_function_mapping (app w) h = f" "is_function f"
    and "call f [x, y] (traceback_of w) (calling f [x, y] w) = Some (r, w')" "error_text_printable lib w r"
  shows "execute_function_by_handler lib call h 2 (lua_push y (lua_push x w)) = Some (c_result lib r, with_stack [] w')"
proof -
  let ?w = "lua_push y (lua_push x w)"
  have tb: "traceback_of ?w = traceback_of w" by (simp add: traceback_of_def lua_push_def)
  have "with_stack (call_stack f [x, y] (stack_of w) ?w) ?w = calling f [x, y] w"
    using tb by (simp add: calling_def call_stack_def lua_push_def)
  then have "execute_function_by_handler lib call h (length [x, y]) ?w = Some (c_result lib r, with_stack [] w')"
    using assms tb by (intro execute_function_by_handler_calls [where base = "stack_of w" and f = f])
      (auto simp: error_text_printable_def lua_push_def)
  then show ?thesis by (simp add: numeral_2_eq_2)
qed

lemma execute_function_by_handler_missing:
  "\<not> is_function (refid_function_mapping (app w) h) \<Longrightarrow>
   execute_function_by_handler lib call h n w = Some (0, with_stack [] w)"
  by (simp add: execute_function_by_handler_def pushFunctionByHandler_def lua_push_def Let_def)

lemma ref_function_run:
  assumes "stack_at lo (stack_of w) = Some f" "is_function f"
  shows "ref_function lo w = (function_ref_id (app w) + 1,
    w\<lparr>app := (app w)\<lparr>function_ref_id := function_ref_id (app w) + 1,
      refid_function_mapping := (refid_function_mapping (app w))(function_ref_id (app w) + 1 := f)\<rparr>\<rparr>)"
  using assms by (simp add: ref_function_def Let_def)

end
