(* ===== verification/Lua_Service.thy ===== *)
theory Lua_Service
  imports Lua_Engine
begin

text \<open>
  Services written in Lua (lua_wrapper/service_export_to_lua.cc): registration from a script, and the handlers that
  call the registered functions. A C function called from Lua finds its arguments on the stack and returns the
  number of results it left on top, or raises an error.
\<close>

section \<open>Registration\<close>

definition set_lua :: "('l lua_state \<Rightarrow> 'l lua_state) \<Rightarrow> 'l lworld \<Rightarrow> 'l lworld" where
  "set_lua f w = w\<lparr>app := f (app w)\<rparr>"

text \<open>\<open>lua_getfield\<close> on the table at an index from the bottom.\<close>

definition lua_getfield :: "nat \<Rightarrow> string \<Rightarrow> 'l lworld \<Rightarrow> 'l lworld option" where
  "lua_getfield i k w =
     (case stack_at i (stack_of w) of Some (LTable t) \<Rightarrow> Some (lua_push (table_get (lua_str k) t) w) | _ \<Rightarrow> None)"

definition init_service_function_map :: "'l lworld \<Rightarrow> 'l lworld" where
  "init_service_function_map = set_lua (service_function_mapping_update (\<lambda>_ _. LNil))"

text \<open>The reference, or 0 if there is no function at the index.\<close>

definition save_service_function :: "nat \<Rightarrow> 'l lworld \<Rightarrow> u32 \<times> 'l lworld" where
  "save_service_function lo w =
     (case stack_at lo (stack_of w) of
        Some f \<Rightarrow>
          if is_function f then
            let r = service_ref_id (app w) + 1 in
              (r, set_lua (\<lambda>l. l\<lparr>service_ref_id := r,
                 service_function_mapping := (service_function_mapping l)(uint r := f)\<rparr>) w)
          else (0, w)
      | None \<Rightarrow> (0, w))"

text \<open>\<open>new lua_service()\<close> zeroes the object; \<open>a\<close> is the address \<open>new\<close> returned.\<close>

definition new_lua_service :: "addr \<Rightarrow> 'l lworld \<Rightarrow> 'l lworld" where
  "new_lua_service a = set_lua (\<lambda>l. l\<lparr>lua_services := (lua_services l)(a \<mapsto>
     \<lparr>ls_use_raw_cmd = False, lua_connect_handler = 0, lua_recv_raw_handler = 0, lua_recv_cmd_handler = 0,
      lua_disconnect_handler = 0\<rparr>)\<rparr>)"

definition set_service :: "addr \<Rightarrow> (lua_service \<Rightarrow> lua_service) \<Rightarrow> 'l lworld \<Rightarrow> 'l lworld" where
  "set_service a f = set_lua (\<lambda>l. l\<lparr>lua_services := (lua_services l)(a := map_option f (lua_services l a))\<rparr>)"

type_synonym 'l c_function = "'l lworld \<Rightarrow> (nat lua_result \<times> 'l lworld) option"

definition arg_is_table :: "nat \<Rightarrow> 'l lworld \<Rightarrow> bool" where
  "arg_is_table i w \<longleftrightarrow> (case stack_at i (stack_of w) of Some v \<Rightarrow> is_table v | None \<Rightarrow> False)"

definition arg_number :: "lua_lib \<Rightarrow> nat \<Rightarrow> 'l lworld \<Rightarrow> rat" where
  "arg_number lib i w = (case stack_at i (stack_of w) of Some v \<Rightarrow> tolua_tonumber lib v | None \<Rightarrow> 0)"

definition lua_raise :: "string \<Rightarrow> 'l c_function" where
  "lua_raise e w = Some (Lua_Error e, w)"

definition lua_register_service :: "lua_lib \<Rightarrow> addr \<Rightarrow> 'l c_function" where
  "lua_register_service lib a w = do {
     stype \<leftarrow> c_int32 (arg_number lib 1 w);
     let w = new_lua_service a w;
     if stype = 0 then lua_raise ''invalid stype 0'' w
     else if \<not> arg_is_table 2 w then lua_raise ''invalid service function table'' w
     else do {
       w \<leftarrow> lua_getfield 2 ''on_session_connect'' w;
       w \<leftarrow> lua_getfield 2 ''on_session_recv_cmd'' w;
       w \<leftarrow> lua_getfield 2 ''on_session_disconnect'' w;
       let (connect, w) = save_service_function 3 w;
       let (recv_cmd, w) = save_service_function 4 w;
       let (disconnect, w) = save_service_function 5 w;
       if recv_cmd = 0 \<or> disconnect = 0 then lua_raise ''invalid service function'' w
       else do {
         let w = set_service a (\<lambda>s. s\<lparr>ls_use_raw_cmd := False, lua_connect_handler := connect,
           lua_recv_cmd_handler := recv_cmd, lua_disconnect_handler := disconnect, lua_recv_raw_handler := 0\<rparr>) w;
         let (ret, w) = register_service stype a w;
         Some (Returned 1, lua_push (LBoolean ret) w) } } }"

text \<open>Here the connect handler is looked up but not stored.\<close>

definition lua_register_service_with_raw :: "lua_lib \<Rightarrow> addr \<Rightarrow> 'l c_function" where
  "lua_register_service_with_raw lib a w = do {
     stype \<leftarrow> c_int32 (arg_number lib 1 w);
     let w = new_lua_service a w;
     if stype = 0 then lua_raise ''invalid stype 0'' w
     else if \<not> arg_is_table 2 w then lua_raise ''invalid service function table'' w
     else do {
       w \<leftarrow> lua_getfield 2 ''on_session_connect'' w;
       w \<leftarrow> lua_getfield 2 ''on_session_recv_raw'' w;
       w \<leftarrow> lua_getfield 2 ''on_session_disconnect'' w;
       let (connect, w) = save_service_function 3 w;
       let (recv_raw, w) = save_service_function 4 w;
       let (disconnect, w) = save_service_function 5 w;
       if recv_raw = 0 \<or> disconnect = 0 then lua_raise ''invalid service function'' w
       else do {
         let w = set_service a (\<lambda>s. s\<lparr>ls_use_raw_cmd := True, lua_recv_cmd_handler := 0,
           lua_disconnect_handler := disconnect, lua_recv_raw_handler := recv_raw\<rparr>) w;
         let (ret, w) = register_service stype a w;
         Some (Returned 1, lua_push (LBoolean ret) w) } } }"

section \<open>Handlers\<close>

definition push_session :: "addr \<Rightarrow> 'l lworld \<Rightarrow> 'l lworld" where
  "push_session sid w = lua_push (LUserdata (Session_Ptr sid)) w"

definition handler_of :: "u32 \<Rightarrow> int" where
  "handler_of h = int32 (uint h)"

definition lua_on_session_connect :: "lua_lib \<Rightarrow> 'l caller \<Rightarrow> addr \<Rightarrow> addr \<Rightarrow> nat \<Rightarrow> 'l lworld \<Rightarrow> 'l lworld option" where
  "lua_on_session_connect lib call a sid stype w = do {
     s \<leftarrow> lua_services (app w) a;
     if lua_connect_handler s = 0 then Some w
     else do {
       let w = lua_push (LInteger (int stype)) (push_session sid w);
       (_, w) \<leftarrow> execute_service_function lib call (handler_of (lua_connect_handler s)) 2 w;
       Some w } }"

definition lua_on_session_disconnect :: "lua_lib \<Rightarrow> 'l caller \<Rightarrow> addr \<Rightarrow> addr \<Rightarrow> nat \<Rightarrow> 'l lworld \<Rightarrow> 'l lworld option" where
  "lua_on_session_disconnect lib call a sid stype w = do {
     s \<leftarrow> lua_services (app w) a;
     let w = lua_push (LInteger (int stype)) (push_session sid w);
     (_, w) \<leftarrow> execute_service_function lib call (handler_of (lua_disconnect_handler s)) 2 w;
     Some w }"

text \<open>\<open>lua_rawseti(L, -2, i)\<close> and the push of the body, on the stack of the world.\<close>

definition on_stack :: "(lua_val list \<Rightarrow> lua_val list option) \<Rightarrow> 'l lworld \<Rightarrow> 'l lworld option" where
  "on_stack f w = map_option (\<lambda>s. with_stack s w) (f (stack_of w))"

definition push_body :: "('d, 'm) reflection \<Rightarrow> 'm body \<Rightarrow> 'l lworld \<Rightarrow> 'l lworld option" where
  "push_body R b w =
     (if g_proto_type (proto w) = proto_json then
        (case b of Json_Body _ js \<Rightarrow> do { _ \<leftarrow> c_strlen js; Some (lua_push (LString (takeWhile (\<lambda>x. x \<noteq> 0) js)) w) }
         | Pb_Body _ \<Rightarrow> None)
      else (case b of Pb_Body x \<Rightarrow> on_stack (push_proto_message_tolua R (Some x)) w | Json_Body _ _ \<Rightarrow> None))"

definition lua_on_session_recv_cmd ::
    "lua_lib \<Rightarrow> ('d, 'm) reflection \<Rightarrow> 'l caller \<Rightarrow> addr \<Rightarrow> addr \<Rightarrow> 'm cmd_msg \<Rightarrow> 'l lworld \<Rightarrow> (bool \<times> 'l lworld) option" where
  "lua_on_session_recv_cmd lib R call a sid msg w = do {
     s \<leftarrow> lua_services (app w) a;
     let w = lua_push (LTable []) (push_session sid w);
     w \<leftarrow> on_stack (lua_rawseti 1) (lua_push (LInteger (c_stype msg)) w);
     w \<leftarrow> on_stack (lua_rawseti 2) (lua_push (LInteger (c_ctype msg)) w);
     w \<leftarrow> on_stack (lua_rawseti 3) (lua_push (LInteger (uint (c_utag msg))) w);
     w \<leftarrow> (case c_body msg of None \<Rightarrow> Some (lua_push LNil w) | Some b \<Rightarrow> push_body R b w);
     w \<leftarrow> on_stack (lua_rawseti 4) w;
     (_, w) \<leftarrow> execute_service_function lib call (handler_of (lua_recv_cmd_handler s)) 2 w;
     Some (True, w) }"

text \<open>
  The raw message is lent to the script by its address for the time of the call; the message the
  caller has afterwards is what the script made of it.
\<close>

definition raw_ptr :: addr where "raw_ptr = 1"

definition lua_on_session_recv_raw ::
    "lua_lib \<Rightarrow> 'l caller \<Rightarrow> addr \<Rightarrow> addr \<Rightarrow> raw_cmd_msg \<Rightarrow> 'l lworld \<Rightarrow> (bool \<times> raw_cmd_msg \<times> 'l lworld) option" where
  "lua_on_session_recv_raw lib call a sid raw w = do {
     s \<leftarrow> lua_services (app w) a;
     let w = set_lua (\<lambda>l. l\<lparr>lent_raws := (lent_raws l)(raw_ptr \<mapsto> raw)\<rparr>) w;
     let w = lua_push (LUserdata (Raw_Ptr raw_ptr)) (push_session sid w);
     (_, w) \<leftarrow> execute_service_function lib call (handler_of (lua_recv_raw_handler s)) 2 w;
     raw \<leftarrow> lent_raws (app w) raw_ptr;
     Some (True, raw, set_lua (\<lambda>l. l\<lparr>lent_raws := (lent_raws l)(raw_ptr := None)\<rparr>) w) }"

text \<open>The virtual table of a Lua service; \<open>use_raw_cmd\<close> never changes after the registration.\<close>

definition lua_vtable :: "lua_lib \<Rightarrow> ('d, 'm) reflection \<Rightarrow> 'l caller \<Rightarrow> bool \<Rightarrow> addr \<Rightarrow> ('m, 'l lua_state) service" where
  "lua_vtable lib R call raw a = \<lparr>use_raw_cmd = raw,
     on_session_connect = lua_on_session_connect lib call a,
     on_session_recv_raw = lua_on_session_recv_raw lib call a,
     on_session_recv_cmd = lua_on_session_recv_cmd lib R call a,
     on_session_disconnect = lua_on_session_disconnect lib call a\<rparr>"

section \<open>Lemmas\<close>

lemma set_lua_simps [simp]:
  "app (set_lua f w) = f (app w)" "slots (set_lua f w) = slots w" "proto (set_lua f w) = proto w"
  "mem (set_lua f w) = mem w" "sessions (set_lua f w) = sessions w"
  by (simp_all add: set_lua_def)

text \<open>The value a script sees as the body, and the table it gets for a command.\<close>

definition body_lua :: "('d, 'm) reflection \<Rightarrow> int \<Rightarrow> 'm body option \<Rightarrow> lua_val \<Rightarrow> bool" where
  "body_lua R t b v \<longleftrightarrow> (case b of
     None \<Rightarrow> v = LNil
   | Some (Json_Body _ js) \<Rightarrow> t = proto_json \<and> 0 \<in> set js \<and> v = LString (takeWhile (\<lambda>x. x \<noteq> 0) js)
   | Some (Pb_Body x) \<Rightarrow> t \<noteq> proto_json \<and> Wellfounded.accp (nested R) x \<and> v = message_lua R x)"

definition cmd_lua :: "'m cmd_msg \<Rightarrow> lua_val \<Rightarrow> lua_val" where
  "cmd_lua msg v = LTable (table_set (LInteger 4) v [(LInteger 3, LInteger (uint (c_utag msg))),
     (LInteger 2, LInteger (c_ctype msg)), (LInteger 1, LInteger (c_stype msg))])"

lemma cmd_lua_fields:
  "cmd_lua msg v = LTable t \<Longrightarrow>
     table_get (LInteger 1) t = LInteger (c_stype msg) \<and> table_get (LInteger 2) t = LInteger (c_ctype msg) \<and>
     table_get (LInteger 3) t = LInteger (uint (c_utag msg)) \<and> table_get (LInteger 4) t = v"
  by (auto simp: cmd_lua_def table_get_set) (simp_all add: table_get_def)

lemma push_body_value:
  "body_lua R (g_proto_type (proto w)) (Some b) v \<Longrightarrow> push_body R b w = Some (lua_push v w)"
  by (auto simp: body_lua_def push_body_def c_strlen_def on_stack_def push_proto_message_tolua_def push_message_acc
      lua_push_def split: body.splits)

lemma table_set_fresh: "\<forall>p \<in> set t. fst p \<noteq> k \<Longrightarrow> v \<noteq> LNil \<Longrightarrow> table_set k v t = (k, v) # t"
  by (auto simp: table_set_def filter_id_conv)

text \<open>A registered handler is a function found by its reference.\<close>

definition bound :: "'l lworld \<Rightarrow> u32 \<Rightarrow> lua_val \<Rightarrow> bool" where
  "bound w h f \<longleftrightarrow> is_function f \<and> service_function_mapping (app w) (handler_of h) = f"

lemma execute_bound:
  assumes f: "bound w h f"
    and call: "call f args (traceback_of w) (calling f args w) = Some (r, w')" and "error_text_printable lib w r"
  shows "execute_service_function lib call (handler_of h) (length args) (with_stack (rev args @ stack_of w) w) =
    Some (c_result lib r, with_stack [] w')"
proof -
  let ?v = "with_stack (rev args @ stack_of w) w"
  have tb: "traceback_of ?v = traceback_of w" by (simp add: traceback_of_def)
  then have "with_stack (call_stack f args (stack_of w) ?v) ?v = calling f args w"
    by (simp add: calling_def call_stack_def)
  then show ?thesis using assms tb
    by (intro execute_service_function_calls [where f = f and base = "stack_of w"]) (auto simp: bound_def error_text_printable_def)
qed

lemma lua_recv_cmd_calls:
  assumes s: "lua_services (app w) a = Some s" and f: "bound w (lua_recv_cmd_handler s) f"
    and b: "body_lua R (g_proto_type (proto w)) (c_body msg) v"
    and call: "call f [LUserdata (Session_Ptr sid), cmd_lua msg v] (traceback_of w)
      (calling f [LUserdata (Session_Ptr sid), cmd_lua msg v] w) = Some (r, w')"
    and err: "error_text_printable lib w r"
  shows "lua_on_session_recv_cmd lib R call a sid msg w = Some (True, with_stack [] w')"
proof -
  let ?args = "[LUserdata (Session_Ptr sid), cmd_lua msg v]"
  let ?v = "with_stack (rev ?args @ stack_of w) w"
  let ?t = "[(LInteger 3, LInteger (uint (c_utag msg))), (LInteger 2, LInteger (c_ctype msg)), (LInteger 1, LInteger (c_stype msg))]"
  let ?w3 = "with_stack (LTable ?t # LUserdata (Session_Ptr sid) # stack_of w) w"
  have b3: "(case c_body msg of None \<Rightarrow> Some (lua_push LNil ?w3) | Some b \<Rightarrow> push_body R b ?w3) = Some (lua_push v ?w3)"
    using b push_body_value [of R ?w3 _ v] by (cases "c_body msg") (simp_all add: body_lua_def)
  have ex: "execute_service_function lib call (handler_of (lua_recv_cmd_handler s)) 2 ?v = Some (c_result lib r, with_stack [] w')"
    using execute_bound [where call = call and args = ?args, OF f call err] by (simp add: numeral_2_eq_2)
  show ?thesis using s b3 ex
    by (simp add: lua_on_session_recv_cmd_def on_stack_def lua_rawseti_def push_session_def lua_push_def table_set_fresh
        cmd_lua_def Let_def)
qed

lemma lua_disconnect_calls:
  assumes s: "lua_services (app w) a = Some s" and f: "bound w (lua_disconnect_handler s) f"
    and call: "call f [LUserdata (Session_Ptr sid), LInteger (int stype)] (traceback_of w)
      (calling f [LUserdata (Session_Ptr sid), LInteger (int stype)] w) = Some (r, w')"
    and err: "error_text_printable lib w r"
  shows "lua_on_session_disconnect lib call a sid stype w = Some (with_stack [] w')"
  using s execute_bound [where call = call and args = "[LUserdata (Session_Ptr sid), LInteger (int stype)]", OF f call err]
  by (simp add: lua_on_session_disconnect_def push_session_def lua_push_def numeral_2_eq_2)

lemma lua_connect_calls:
  assumes s: "lua_services (app w) a = Some s" "lua_connect_handler s \<noteq> 0" and f: "bound w (lua_connect_handler s) f"
    and call: "call f [LUserdata (Session_Ptr sid), LInteger (int stype)] (traceback_of w)
      (calling f [LUserdata (Session_Ptr sid), LInteger (int stype)] w) = Some (r, w')"
    and err: "error_text_printable lib w r"
  shows "lua_on_session_connect lib call a sid stype w = Some (with_stack [] w')"
  using s execute_bound [where call = call and args = "[LUserdata (Session_Ptr sid), LInteger (int stype)]", OF f call err]
  by (simp add: lua_on_session_connect_def push_session_def lua_push_def numeral_2_eq_2)

text \<open>The script gets a raw command by its address and may change it in place.\<close>

definition lending :: "raw_cmd_msg \<Rightarrow> 'l lworld \<Rightarrow> 'l lworld" where
  "lending raw = set_lua (\<lambda>l. l\<lparr>lent_raws := (lent_raws l)(raw_ptr \<mapsto> raw)\<rparr>)"

lemma lua_recv_raw_calls:
  assumes s: "lua_services (app w) a = Some s" and f: "bound w (lua_recv_raw_handler s) f"
    and call: "call f [LUserdata (Session_Ptr sid), LUserdata (Raw_Ptr raw_ptr)] (traceback_of w)
      (calling f [LUserdata (Session_Ptr sid), LUserdata (Raw_Ptr raw_ptr)] (lending raw w)) = Some (r, w')"
    and raw': "lent_raws (app w') raw_ptr = Some raw'" and err: "error_text_printable lib w r"
  shows "lua_on_session_recv_raw lib call a sid raw w =
    Some (True, raw', set_lua (\<lambda>l. l\<lparr>lent_raws := (lent_raws l)(raw_ptr := None)\<rparr>) (with_stack [] w'))"
proof -
  have tb: "traceback_of (lending raw w) = traceback_of w" by (simp add: traceback_of_def lending_def)
  have "bound (lending raw w) (lua_recv_raw_handler s) f" using f by (simp add: bound_def lending_def)
  moreover have "error_text_printable lib (lending raw w) r" using err tb by (simp add: error_text_printable_def)
  ultimately have "execute_service_function lib call (handler_of (lua_recv_raw_handler s)) 2
      (with_stack (LUserdata (Raw_Ptr raw_ptr) # LUserdata (Session_Ptr sid) # stack_of (lending raw w)) (lending raw w)) =
      Some (c_result lib r, with_stack [] w')"
    using execute_bound [where call = call and args = "[LUserdata (Session_Ptr sid), LUserdata (Raw_Ptr raw_ptr)]"
        and w = "lending raw w" and f = f and r = r and w' = w'] call tb by (simp add: numeral_2_eq_2)
  then show ?thesis using s raw'
    by (simp add: lua_on_session_recv_raw_def push_session_def lua_push_def lending_def Let_def)
qed

text \<open>A handler that is not registered runs nothing, and the command counts as handled.\<close>

lemma lua_recv_raw_missing:
  assumes "lua_services (app w) a = Some s"
    and "\<not> is_function (service_function_mapping (app w) (handler_of (lua_recv_raw_handler s)))"
  shows "\<exists>w'. lua_on_session_recv_raw lib call a sid raw w = Some (True, raw, w')"
  using assms
  by (simp add: lua_on_session_recv_raw_def push_session_def lua_push_def Let_def execute_service_function_missing)

section \<open>What a registration leaves behind\<close>

lemma uint_next: "uint (r :: u32) + 1 < 2 ^ 31 \<Longrightarrow> uint (r + 1) = uint r + 1"
  by (subst uint_plus_if') (simp add: word_size)

lemma handler_of_small: "uint h < 2 ^ 31 \<Longrightarrow> handler_of h = uint h"
proof -
  have "- (2 ^ 31) \<le> uint h" by (rule order_trans [of _ 0]) simp_all
  then show "uint h < 2 ^ 31 \<Longrightarrow> ?thesis" unfolding handler_of_def by (rule int32_id)
qed

lemma save_function:
  "stack_at lo (stack_of w) = Some f \<Longrightarrow> is_function f \<Longrightarrow>
   save_service_function lo w = (service_ref_id (app w) + 1, set_lua (\<lambda>l. l\<lparr>service_ref_id := service_ref_id (app w) + 1,
     service_function_mapping := (service_function_mapping l)(uint (service_ref_id (app w) + 1) := f)\<rparr>) w)"
  by (simp add: save_service_function_def Let_def)

lemma save_no_function:
  "stack_at lo (stack_of w) = Some f \<Longrightarrow> \<not> is_function f \<Longrightarrow> save_service_function lo w = (0, w)"
  by (simp add: save_service_function_def)

text \<open>The arguments of \<open>Service.register(stype, t)\<close>, called with exactly two values.\<close>

definition register_args :: "int \<Rightarrow> (lua_val \<times> lua_val) list \<Rightarrow> 'l lworld \<Rightarrow> bool" where
  "register_args stype t w \<longleftrightarrow> stack_of w = [LTable t, LInteger stype] \<and> int_args [stype]"

definition handler_in :: "string \<Rightarrow> (lua_val \<times> lua_val) list \<Rightarrow> lua_val" where
  "handler_in k t = table_get (lua_str k) t"

lemma register_args_simps:
  assumes "register_args stype t w" "lua_documented lib"
  shows "c_int32 (arg_number lib 1 w) = Some stype" "stack_at 2 (stack_of w) = Some (LTable t)"
    "stack_at 1 (stack_of w) = Some (LInteger stype)"
  using assms c_int32_arg [of lib stype]
  by (simp_all add: register_args_def arg_number_def stack_at_def int_args_def numeral_2_eq_2)

text \<open>A saved reference names the function, and 0 stands for no function.\<close>

definition binds :: "'l lworld \<Rightarrow> u32 \<Rightarrow> lua_val \<Rightarrow> bool" where
  "binds w h f \<longleftrightarrow> (if is_function f then h \<noteq> 0 \<and> bound w h f else h = 0)"

lemma save_binds:
  assumes st: "stack_at lo (stack_of w) = Some f" and room: "uint (service_ref_id (app w)) + 1 < 2 ^ 31"
    and save: "save_service_function lo w = (h, w')"
  shows "binds w' h f" "stack_of w' = stack_of w" "slots w' = slots w" "proto w' = proto w"
    "lua_services (app w') = lua_services (app w)"
    "uint (service_ref_id (app w')) \<le> uint (service_ref_id (app w)) + 1"
    "\<And>g k. binds w k g \<Longrightarrow> uint k \<le> uint (service_ref_id (app w)) \<Longrightarrow> binds w' k g"
    "uint h \<le> uint (service_ref_id (app w'))" "uint (service_ref_id (app w)) \<le> uint (service_ref_id (app w'))"
proof -
  note next1 = uint_next [OF room]
  have ne: "service_ref_id (app w) + 1 \<noteq> 0" using next1 uint_ge_0 [of "service_ref_id (app w)"] by (metis uint_0_eq add_nonneg_eq_0_iff zero_le_one zero_neq_one)
  show "binds w' h f" "stack_of w' = stack_of w" "slots w' = slots w" "proto w' = proto w"
    "lua_services (app w') = lua_services (app w)"
    "uint (service_ref_id (app w')) \<le> uint (service_ref_id (app w)) + 1"
    "uint h \<le> uint (service_ref_id (app w'))" "uint (service_ref_id (app w)) \<le> uint (service_ref_id (app w'))"
    using st save save_function [OF st] save_no_function [OF st] next1 ne room handler_of_small [of "service_ref_id (app w) + 1"]
    by (cases "is_function f"; auto simp: binds_def bound_def)+
  fix g k assume k: "binds w k g" "uint k \<le> uint (service_ref_id (app w))"
  then have "handler_of k = uint k" using room by (intro handler_of_small) simp
  then show "binds w' k g"
    using k st save save_function [OF st] save_no_function [OF st] next1
    by (cases "is_function f"; auto simp: binds_def bound_def)
qed

lemma save_three:
  assumes st: "stack_of w = [d, c, k, t, n]" and room: "uint (service_ref_id (app w)) + 3 < 2 ^ 31"
    and save: "save_service_function 3 w = (hk, w1)" "save_service_function 4 w1 = (hc, w2)"
      "save_service_function 5 w2 = (hx, w3)"
  shows "binds w3 hk k" "binds w3 hc c" "binds w3 hx d" "stack_of w3 = stack_of w" "slots w3 = slots w"
    "lua_services (app w3) = lua_services (app w)"
proof -
  have at: "stack_at 3 [d, c, k, t, n] = Some k" "stack_at 4 [d, c, k, t, n] = Some c" "stack_at 5 [d, c, k, t, n] = Some d"
    by (simp_all add: stack_at_def)
  have r1: "uint (service_ref_id (app w)) + 1 < 2 ^ 31" using room by simp
  note s1 = save_binds [OF at(1) [folded st] r1 save(1)]
  have r2: "uint (service_ref_id (app w1)) + 1 < 2 ^ 31" using s1(6) room by simp
  have a2: "stack_at 4 (stack_of w1) = Some c" using at(2) s1(2) st by simp
  note s2 = save_binds [OF a2 r2 save(2)]
  have r3: "uint (service_ref_id (app w2)) + 1 < 2 ^ 31" using s2(6) s1(6) room by simp
  have a3: "stack_at 5 (stack_of w2) = Some d" using at(3) s1(2) s2(2) st by simp
  note s3 = save_binds [OF a3 r3 save(3)]
  show "binds w3 hx d" by (rule s3(1))
  show "binds w3 hc c" using s3(7) [OF s2(1)] s2(8) by simp
  show "binds w3 hk k" using s3(7) [OF s2(7) [OF s1(1)]] s1(8) s2(9) by simp
  show "stack_of w3 = stack_of w" "slots w3 = slots w" "lua_services (app w3) = lua_services (app w)"
    using s1 s2 s3 by simp_all
qed

lemma getfields_run:
  assumes "stack_of w = [LTable t, n]"
  shows "lua_getfield 2 k w = Some (with_stack [handler_in k t, LTable t, n] w)"
    "lua_getfield 2 k (with_stack [u, LTable t, n] w) = Some (with_stack [handler_in k t, u, LTable t, n] w)"
    "lua_getfield 2 k (with_stack [v, u, LTable t, n] w) = Some (with_stack [handler_in k t, v, u, LTable t, n] w)"
proof -
  have "stack_at 2 [LTable t, n] = Some (LTable t)" "stack_at 2 [u, LTable t, n] = Some (LTable t)"
    "stack_at 2 [v, u, LTable t, n] = Some (LTable t)"
    by (simp_all add: stack_at_def)
  then show "lua_getfield 2 k w = Some (with_stack [handler_in k t, LTable t, n] w)"
    "lua_getfield 2 k (with_stack [u, LTable t, n] w) = Some (with_stack [handler_in k t, u, LTable t, n] w)"
    "lua_getfield 2 k (with_stack [v, u, LTable t, n] w) = Some (with_stack [handler_in k t, v, u, LTable t, n] w)"
    using assms by (simp_all add: lua_getfield_def handler_in_def lua_push_def)
qed

lemma new_service_simps [simp]:
  "lua_stack (app (new_lua_service a w)) = stack_of w" "slots (new_lua_service a w) = slots w"
  "service_ref_id (app (new_lua_service a w)) = service_ref_id (app w)"
  "lua_services (app (new_lua_service a w)) a = Some \<lparr>ls_use_raw_cmd = False, lua_connect_handler = 0,
     lua_recv_raw_handler = 0, lua_recv_cmd_handler = 0, lua_disconnect_handler = 0\<rparr>"
  by (simp_all add: new_lua_service_def)

lemma set_service_simps [simp]:
  "lua_stack (app (set_service a f w)) = stack_of w" "slots (set_service a f w) = slots w"
  "service_function_mapping (app (set_service a f w)) = service_function_mapping (app w)"
  "lua_services (app (set_service a f w)) a = map_option f (lua_services (app w) a)"
  "binds (set_service a f w) h g = binds w h g"
  by (simp_all add: set_service_def binds_def bound_def)

lemma register_service_app: "register_service t a w = (b, w') \<Longrightarrow> app w' = app w"
  by (auto simp: register_service_def split: if_splits)

text \<open>The service object a registration leaves: its handlers name the functions of the table.\<close>

definition serves :: "'l lworld \<Rightarrow> addr \<Rightarrow> bool \<Rightarrow> (lua_val \<times> lua_val) list \<Rightarrow> bool" where
  "serves w a raw t \<longleftrightarrow> (case lua_services (app w) a of
     None \<Rightarrow> False
   | Some s \<Rightarrow> ls_use_raw_cmd s = raw \<and> binds w (lua_disconnect_handler s) (handler_in ''on_session_disconnect'' t) \<and>
       (if raw then lua_recv_cmd_handler s = 0 \<and> binds w (lua_recv_raw_handler s) (handler_in ''on_session_recv_raw'' t)
        else lua_recv_raw_handler s = 0 \<and> binds w (lua_recv_cmd_handler s) (handler_in ''on_session_recv_cmd'' t) \<and>
          binds w (lua_connect_handler s) (handler_in ''on_session_connect'' t)))"

lemma serves_cong:
  assumes "service_function_mapping (app v) = service_function_mapping (app w)" "lua_services (app v) = lua_services (app w)"
  shows "serves v a raw t = serves w a raw t"
proof -
  have "binds v h f = binds w h f" for h f using assms(1) by (simp add: binds_def bound_def)
  then show ?thesis using assms(2) by (simp add: serves_def split: option.split)
qed

lemma register_run:
  assumes args: "register_args stype t w" "lua_documented lib" "stype \<noteq> 0"
    and room: "uint (service_ref_id (app w)) + 3 < 2 ^ 31"
    and fs: "is_function (handler_in ''on_session_recv_cmd'' t)" "is_function (handler_in ''on_session_disconnect'' t)"
  shows "\<exists>w'. lua_register_service lib a w = Some (Returned 1, w') \<and>
     hd (stack_of w') = LBoolean (0 \<le> stype \<and> stype < 512 \<and> slots w (nat stype) = None) \<and>
     slots w' = (if 0 \<le> stype \<and> stype < 512 \<and> slots w (nat stype) = None then (slots w)(nat stype \<mapsto> a) else slots w) \<and>
     serves w' a False t"
proof -
  let ?v = "with_stack [handler_in ''on_session_disconnect'' t, handler_in ''on_session_recv_cmd'' t,
     handler_in ''on_session_connect'' t, LTable t, LInteger stype] (new_lua_service a w)"
  have st: "stack_of (new_lua_service a w) = [LTable t, LInteger stype]" using args(1) by (simp add: register_args_def)
  obtain hk w1 where s1: "save_service_function 3 ?v = (hk, w1)" by (cases "save_service_function 3 ?v")
  obtain hc w2 where s2: "save_service_function 4 w1 = (hc, w2)" by (cases "save_service_function 4 w1")
  obtain hx w3 where s3: "save_service_function 5 w2 = (hx, w3)" by (cases "save_service_function 5 w2")
  have ref: "uint (service_ref_id (app ?v)) + 3 < 2 ^ 31" using room by (simp add: with_stack_def)
  note three = save_three [OF _ ref s1 s2 s3, simplified]
  have ne: "hc \<noteq> 0" "hx \<noteq> 0" using three(2,3) fs by (simp_all add: binds_def)
  let ?f = "\<lambda>s. s\<lparr>ls_use_raw_cmd := False, lua_connect_handler := hk, lua_recv_cmd_handler := hc,
     lua_disconnect_handler := hx, lua_recv_raw_handler := 0\<rparr>"
  let ?w4 = "set_service a ?f w3"
  obtain b w5 where reg: "register_service stype a ?w4 = (b, w5)" by (cases "register_service stype a ?w4")
  have sv: "lua_services (app w3) a \<noteq> None" using three(6) by simp
  have run: "lua_register_service lib a w = Some (Returned 1, lua_push (LBoolean b) w5)"
    using register_args_simps [OF args(1,2)] args(3) ne reg
    by (simp add: lua_register_service_def arg_is_table_def getfields_run [OF st] s1 s2 s3 Let_def)
  have "serves ?w4 a False t" using sv three(1,2,3) by (auto simp: serves_def)
  then have serves: "serves (lua_push (LBoolean b) w5) a False t"
    using register_service_app [OF reg] serves_cong [of "lua_push (LBoolean b) w5" ?w4] by (simp add: lua_push_def)
  have slots: "slots w5 i = (if b \<and> i = nat stype then Some a else slots w i)"
    "b = (0 \<le> stype \<and> stype < 512 \<and> slots w (nat stype) = None)" for i
    using register_service_slots [OF reg, of i] three(5) by simp_all
  then have "slots w5 = (if b then (slots w)(nat stype \<mapsto> a) else slots w)" by (intro ext) simp
  then show ?thesis using run serves slots(2) by (auto simp: lua_push_def)
qed

section \<open>Errors of a registration\<close>

text \<open>A refused registration leaves the service object it made behind: no slot names it.\<close>

lemma refused_registration_leaks:
  assumes "register_args stype t w" "lua_documented lib" "stype = 0"
  shows "lua_register_service lib a w = Some (Lua_Error ''invalid stype 0'', new_lua_service a w)"
    "lua_services (app (new_lua_service a w)) a \<noteq> None" "slots (new_lua_service a w) = slots w"
  using register_args_simps [OF assms(1,2)] assms(3)
  by (simp_all add: lua_register_service_def lua_raise_def)

text \<open>The connect handler of a raw service is saved as a reference but not stored in the object.\<close>

lemma raw_registration_drops_connect:
  assumes ret: "lua_register_service_with_raw lib a w = Some (Returned n, w')"
  shows "\<exists>s. lua_services (app w') a = Some s \<and> lua_connect_handler s = 0 \<and>
    lua_on_session_connect lib call a sid st w' = Some w'"
proof -
  let ?serv = "\<lambda>v. \<exists>s. lua_services (app v) a = Some s \<and> lua_connect_handler s = 0"
  have save: "lua_services (app v') = lua_services (app v)" if "save_service_function i v = (h, v')" for i h and v v' :: "'a lworld"
    using that by (auto simp: save_service_function_def Let_def split: option.splits if_splits)
  have get: "lua_services (app v') = lua_services (app v)" if "lua_getfield i k v = Some v'" for i k and v v' :: "'a lworld"
    using that by (auto simp: lua_getfield_def lua_push_def split: option.splits lua_val.splits)
  obtain stype w1 w2 w3 where "c_int32 (arg_number lib 1 w) = Some stype"
      and get3: "lua_getfield 2 ''on_session_connect'' (new_lua_service a w) = Some w1"
        "lua_getfield 2 ''on_session_recv_raw'' w1 = Some w2" "lua_getfield 2 ''on_session_disconnect'' w2 = Some w3"
    using ret by (auto simp: lua_register_service_with_raw_def lua_raise_def bind_eq_Some_conv
        Let_def [of "new_lua_service a w"] split: if_split_asm)
  obtain hk v1 where s1: "save_service_function 3 w3 = (hk, v1)" by (cases "save_service_function 3 w3")
  obtain hr v2 where s2: "save_service_function 4 v1 = (hr, v2)" by (cases "save_service_function 4 v1")
  obtain hx v3 where s3: "save_service_function 5 v2 = (hx, v3)" by (cases "save_service_function 5 v2")
  let ?v4 = "set_service a (\<lambda>s. s\<lparr>ls_use_raw_cmd := True, lua_recv_cmd_handler := 0,
    lua_disconnect_handler := hx, lua_recv_raw_handler := hr\<rparr>) v3"
  obtain b v5 where reg: "register_service stype a ?v4 = (b, v5)" by (cases "register_service stype a ?v4")
  have "w' = lua_push (LBoolean b) v5"
    using ret \<open>c_int32 _ = _\<close> get3 s1 s2 s3 reg
    by (auto simp: lua_register_service_with_raw_def lua_raise_def Let_def split: if_split_asm)
  moreover have "?serv ?v4" using get [OF get3(1)] get [OF get3(2)] get [OF get3(3)] save [OF s1] save [OF s2] save [OF s3] by simp
  ultimately have "?serv w'" using register_service_app [OF reg] by (simp add: lua_push_def)
  then show ?thesis by (auto simp: lua_on_session_connect_def)
qed

section \<open>A concrete script for the witnesses\<close>

text \<open>The Lua side records the arguments of every call; function 5 handles commands, 6 disconnections.\<close>

definition recorder :: "(lua_val list) list caller" where
  "recorder f args tb w = Some (Call_Ok LNil, set_lua (interpreter_update (\<lambda>l. l @ [args])) w)"

definition lworld_with :: "'l \<Rightarrow> lua_val list \<Rightarrow> 'l lworld" where
  "lworld_with i stk = \<lparr>slots = (\<lambda>_. None), proto = ps_json, mem = mem0, sessions = Map.empty, pending = [], calls = [],
     app = \<lparr>lua_stack = stk, lua_globals = (\<lambda>_. LNil), refid_function_mapping = (\<lambda>_. LNil), function_ref_id = 0,
       service_function_mapping = (\<lambda>_. LNil), service_ref_id = 0, lua_services = Map.empty, lent_raws = Map.empty,
       interpreter = i\<rparr>\<rparr>"

definition lworld0 :: "lua_val list \<Rightarrow> (lua_val list) list lworld" where
  "lworld0 = lworld_with []"

definition handlers :: "(lua_val \<times> lua_val) list" where
  "handlers = [(lua_str ''on_session_recv_cmd'', LFunction 5), (lua_str ''on_session_disconnect'', LFunction 6)]"

lemma handlers_simps [simp]:
  "handler_in ''on_session_recv_cmd'' handlers = LFunction 5"
  "handler_in ''on_session_disconnect'' handlers = LFunction 6"
  "handler_in ''on_session_connect'' handlers = LNil"
  by (simp_all add: handler_in_def handlers_def table_get_def)

definition lua_env :: "(nat, dyn, (lua_val list) list lua_state) env" where
  "lua_env = \<lparr>vtable = lua_vtable lib_example R_example recorder False, pb_lib = pb_dyn, sizeof_uv_session = 64,
     sizeof_write = 64, sizeof_udp_send = 64, uv_shutdown_fails = (\<lambda>_ _. False)\<rparr>"

text \<open>The world after \<open>Service.register(3, handlers)\<close>.\<close>

definition served_world :: "(lua_val list) list lworld" where
  "served_world = (set_lua (\<lambda>l. l\<lparr>service_ref_id := 2,
      service_function_mapping := (\<lambda>_. LNil)(1 := LFunction 5, 2 := LFunction 6),
      lua_services := [9 \<mapsto> \<lparr>ls_use_raw_cmd = False, lua_connect_handler = 0, lua_recv_raw_handler = 0,
        lua_recv_cmd_handler = 1, lua_disconnect_handler = 2\<rparr>]\<rparr>) (lworld0 []))\<lparr>slots := [3 \<mapsto> 9]\<rparr>"

lemma served_world_simps:
  "slots served_world = [3 \<mapsto> 9]" "proto served_world = ps_json" "mem served_world = mem0"
  "stack_of served_world = []" "traceback_of served_world = None" "serves served_world 9 False handlers"
  by (simp_all add: served_world_def lworld0_def lworld_with_def traceback_of_def serves_def binds_def bound_def handler_of_def int32_def)

lemma lua_service_delivered:
  assumes "0 \<le> r_stype raw" "r_stype raw < 512" "slots w (nat (r_stype raw)) = Some a"
    and vt: "vtable e a = lua_vtable lib R call False a" and sv: "serves w a False t"
    and f: "handler_in ''on_session_recv_cmd'' t = f" "is_function f" and "mem_ok (mem w)"
    and dec: "decode_cmd_msg (pb_lib e) (raw_data raw) (raw_len raw) (proto w) (mem w) = Some (Some msg, ps, m)"
    and body: "body_lua R (g_proto_type ps) (c_body msg) v" and args: "args = [LUserdata (Session_Ptr sid), cmd_lua msg v]"
    and call: "call f args (traceback_of w) (calling f args (w\<lparr>proto := ps, mem := m\<rparr>)) = Some (r, w2)"
    and err: "error_text_printable lib w r" and same: "proto w2 = ps" "mem w2 = m"
  shows "\<exists>m3. on_recv_raw_cmd e sid raw w = Some (True, raw, (with_stack [] w2)\<lparr>mem := m3\<rparr>) \<and>
    footprint m3 = footprint (mem w) \<and> mem_ok m3"
proof -
  let ?w = "w\<lparr>proto := ps, mem := m\<rparr>"
  obtain s where s: "lua_services (app w) a = Some s" "bound w (lua_recv_cmd_handler s) f"
    using sv f by (auto simp: serves_def binds_def split: option.splits)
  have tb: "traceback_of ?w = traceback_of w" by (simp add: traceback_of_def)
  have "lua_on_session_recv_cmd lib R call a sid msg ?w = Some (True, with_stack [] w2)"
    by (rule lua_recv_cmd_calls [where s = s and f = f and v = v])
      (use s body call args err tb in \<open>simp_all add: bound_def error_text_printable_def\<close>)
  then show ?thesis
    using recv_cmd_delivered [OF assms(1-3) _ assms(8) dec, of sid True "with_stack [] w2"] vt same
    by (simp add: lua_vtable_def)
qed

section \<open>Properties\<close>

text \<open>C11 (functional): \<open>Service.register(stype, t)\<close> called with a command and a disconnect handler returns whether the
  type was in range and its slot free; then the slot holds the new service, and in any case its handlers
  name exactly the functions of the table \<open>t\<close>, a missing connect handler being 0.\<close>

theorem lua_register_service_binds:
  assumes "register_args stype t w" "lua_documented lib" "stype \<noteq> 0" "uint (service_ref_id (app w)) + 3 < 2 ^ 31"
    and "is_function (handler_in ''on_session_recv_cmd'' t)" "is_function (handler_in ''on_session_disconnect'' t)"
    and "free = (0 \<le> stype \<and> stype < 512 \<and> slots w (nat stype) = None)"
  shows "\<exists>w'. lua_register_service lib a w = Some (Returned 1, w') \<and> hd (stack_of w') = LBoolean free \<and>
     slots w' = (if free then (slots w)(nat stype \<mapsto> a) else slots w) \<and> serves w' a False t"
  unfolding assms(7) by (rule register_run [OF assms(1-6)])

theorem lua_register_service_binds_witness:
  "\<exists>w'. lua_register_service lib_example 9 (lworld0 [LTable handlers, LInteger 3]) = Some (Returned 1, w') \<and>
     hd (stack_of w') = LBoolean True \<and> slots w' = [3 \<mapsto> 9] \<and> serves w' 9 False handlers"
proof -
  let ?w = "lworld0 [LTable handlers, LInteger 3]"
  have "register_args 3 handlers ?w" "uint (service_ref_id (app ?w)) + 3 < 2 ^ 31" "slots ?w = Map.empty"
    by (simp_all add: register_args_def int_args_def lworld0_def lworld_with_def)
  with lua_register_service_binds [OF this(1) lib_example_documented _ this(2) _ _ refl, of 9] show ?thesis by simp
qed



end
