(* ===== verification/Lua_Session.thy ===== *)
theory Lua_Session
  imports Lua_Service Netbus
begin

text \<open>
  Sessions as scripts see them (lua_wrapper/session_export_to_lua.cc): the C functions of the module \<open>Session\<close>, which
  run on the stack of their arguments. A session is a light userdata with its address; using one that
  has been destroyed, or another pointer in its place, is undefined.
\<close>

section \<open>Arguments\<close>

definition arg_value :: "nat \<Rightarrow> 'l lworld \<Rightarrow> lua_val" where
  "arg_value i w = (case stack_at i (stack_of w) of Some v \<Rightarrow> v | None \<Rightarrow> LNil)"

text \<open>\<open>(Session*)tolua_touserdata(L, 1, 0)\<close>: \<open>Some None\<close> is the null pointer.\<close>

definition arg_session :: "nat \<Rightarrow> 'l lworld \<Rightarrow> addr option option" where
  "arg_session i w = (case tolua_touserdata (arg_value i w) of
     None \<Rightarrow> Some None | Some (Session_Ptr p) \<Rightarrow> Some (Some p) | Some _ \<Rightarrow> None)"

definition arg_raw :: "nat \<Rightarrow> 'l lworld \<Rightarrow> addr option option" where
  "arg_raw i w = (case tolua_touserdata (arg_value i w) of
     None \<Rightarrow> Some None | Some (Raw_Ptr p) \<Rightarrow> Some (Some p) | Some _ \<Rightarrow> None)"

section \<open>Closing, tags and addresses\<close>

definition lua_session_close :: "('d, 'm, 'l lua_state) env \<Rightarrow> 'l c_function" where
  "lua_session_close e w = do {
     s \<leftarrow> arg_session 1 w;
     (case s of
        None \<Rightarrow> Some (Returned 0, w)
      | Some p \<Rightarrow> do { w \<leftarrow> session_close e p w; Some (Returned 0, w) }) }"

text \<open>\<open>s->utag = utag\<close> stores a signed \<open>int\<close> in an unsigned field.\<close>

definition lua_set_utag :: "lua_lib \<Rightarrow> 'l c_function" where
  "lua_set_utag lib w = do {
     s \<leftarrow> arg_session 1 w;
     let n = int32 (lua_tointeger lib (arg_value 2 w));
     (case s of
        None \<Rightarrow> lua_raise ''arg 1 is not a session'' w
      | Some p \<Rightarrow> do { w \<leftarrow> set_session p (\<lambda>s. s\<lparr>utag := word_of_int n\<rparr>) w; Some (Returned 1, w) }) }"

definition lua_get_utag :: "'l c_function" where
  "lua_get_utag w = do {
     s \<leftarrow> arg_session 1 w;
     (case s of
        None \<Rightarrow> lua_raise ''arg 1 is not a session'' w
      | Some p \<Rightarrow> do { s \<leftarrow> sessions w p; Some (Returned 1, lua_push (LInteger (uint (utag s))) w) }) }"

definition lua_set_uid :: "lua_lib \<Rightarrow> 'l c_function" where
  "lua_set_uid lib w = do {
     s \<leftarrow> arg_session 1 w;
     let n = int32 (lua_tointeger lib (arg_value 2 w));
     (case s of
        None \<Rightarrow> lua_raise ''arg 1 is not a session'' w
      | Some p \<Rightarrow> do { w \<leftarrow> set_session p (\<lambda>s. s\<lparr>uid := word_of_int n\<rparr>) w; Some (Returned 1, w) }) }"

definition lua_get_uid :: "'l c_function" where
  "lua_get_uid w = do {
     s \<leftarrow> arg_session 1 w;
     (case s of
        None \<Rightarrow> lua_raise ''arg 1 is not a session'' w
      | Some p \<Rightarrow> do { s \<leftarrow> sessions w p; Some (Returned 1, lua_push (LInteger (uint (uid s))) w) }) }"

definition lua_session_get_address :: "'l c_function" where
  "lua_session_get_address w = do {
     s \<leftarrow> arg_session 1 w;
     (case s of
        None \<Rightarrow> lua_raise ''arg 1 is not a session'' w
      | Some p \<Rightarrow> do {
          (address, port) \<leftarrow> get_address p w;
          Some (Returned 2, lua_push (LInteger port) (lua_push (lua_str address) w)) }) }"

definition lua_as_client :: "'l c_function" where
  "lua_as_client w = do {
     s \<leftarrow> arg_session 1 w;
     (case s of
        None \<Rightarrow> lua_raise ''arg 1 is not a session'' w
      | Some p \<Rightarrow> do { s \<leftarrow> sessions w p; Some (Returned 1, lua_push (LBoolean (as_client s \<noteq> 0)) w) }) }"

section \<open>Sending\<close>

text \<open>The fields of the table at index \<open>i\<close> are pushed; type, command and user tag are read back from the stack.\<close>

definition lua_cmd_fields :: "nat \<Rightarrow> 'l lworld \<Rightarrow> 'l lworld option" where
  "lua_cmd_fields i w = do {
     w \<leftarrow> lua_getfield i ''stype'' w;
     w \<leftarrow> lua_getfield i ''ctype'' w;
     w \<leftarrow> lua_getfield i ''utag'' w;
     lua_getfield i ''body'' w }"

text \<open>
  The body, by protocol: the text of a string (owned by Lua, with its terminating NUL), the message made of a
  table, or none. \<open>None\<close>: neither protocol is set, and nothing is sent. A table that cannot be
  converted gives a message without a body.
\<close>

datatype 'm lua_body = Text_Body "byte list option" | Message_Body "'m option" | No_Protocol

definition lua_cmd_body ::
    "lua_lib \<Rightarrow> ('d, 'm) protobuf \<Rightarrow> ('d, 'm) reflection \<Rightarrow> int \<Rightarrow> 'l lworld \<Rightarrow> ('m lua_body lua_result \<times> 'l lworld) option" where
  "lua_cmd_body lib pb R ctype w = do {
     v \<leftarrow> lua_index (- 1) w;
     if g_proto_type (proto w) = proto_json then
       Some (Returned (Text_Body (map_option (\<lambda>s. s @ [0]) (lua_tostring lib v))), w)
     else if g_proto_type (proto w) = proto_buf then
       if \<not> is_table v then Some (Returned (Message_Body None), w)
       else (case pb_type2name ctype (proto w) of
               None \<Rightarrow> Some (Lua_Error ''Ctype not found'', w)
             | Some name \<Rightarrow> do {
                 (r, stk, m) \<leftarrow> lua_table_to_protobuf lib pb R (length (stack_of w)) name (stack_of w, mem w);
                 Some (map_lua_result Message_Body r, with_stack stk (w\<lparr>mem := m\<rparr>)) })
     else Some (Returned No_Protocol, w) }"

text \<open>The message is an object of the C function (its address is 0 here, it is never freed).\<close>

definition lua_cmd_msg :: "int \<Rightarrow> int \<Rightarrow> int \<Rightarrow> 'm body option \<Rightarrow> 'm cmd_msg" where
  "lua_cmd_msg st ct ut b = \<lparr>msg_addr = 0, c_stype = st, c_ctype = ct, c_utag = word_of_int ut, c_body = b\<rparr>"

definition lua_session_send_msg ::
    "lua_lib \<Rightarrow> ('d, 'm) reflection \<Rightarrow> ('d, 'm, 'l lua_state) env \<Rightarrow> 'l c_function" where
  "lua_session_send_msg lib R e w = do {
     s \<leftarrow> arg_session 1 w;
     (case s of
        None \<Rightarrow> lua_raise ''arg 1 is not a session'' w
      | Some p \<Rightarrow>
          if \<not> arg_is_table 2 w then lua_raise ''arg 2 is not a table'' w
          else do {
            w \<leftarrow> lua_cmd_fields 2 w;
            st \<leftarrow> map_option (\<lambda>v. int32 (lua_tointeger lib v)) (lua_index (- 4) w);
            if st = 0 then lua_raise ''stype is not a key in cmd_msg'' w
            else do {
              ct \<leftarrow> map_option (\<lambda>v. int32 (lua_tointeger lib v)) (lua_index (- 3) w);
              if ct = 0 then lua_raise ''ctype is not a key in cmd_msg'' w
              else do {
                ut \<leftarrow> map_option (lua_tointeger lib) (lua_index (- 2) w);
                (b, w) \<leftarrow> lua_cmd_body lib (pb_lib e) R ct w;
                (case b of
                   Returned (Text_Body t) \<Rightarrow> do {
                     w \<leftarrow> send_msg e p (lua_cmd_msg st ct ut (map_option (Json_Body 0) t)) w;
                     Some (Returned 1, w) }
                 | Returned (Message_Body x) \<Rightarrow> do {
                     w \<leftarrow> send_msg e p (lua_cmd_msg st ct ut (map_option Pb_Body x)) w;
                     Some (Returned 1, w\<lparr>mem := free_protobuf_message x (mem w)\<rparr>) }
                 | Returned No_Protocol \<Rightarrow> Some (Returned 1, w)
                 | Lua_Error x \<Rightarrow> Some (Lua_Error x, w)
                 | Bad_Argument \<Rightarrow> Some (Bad_Argument, w)) } } }) }"

definition lua_session_send_raw_msg :: "('d, 'm, 'l lua_state) env \<Rightarrow> 'l c_function" where
  "lua_session_send_raw_msg e w = do {
     s \<leftarrow> arg_session 1 w;
     (case s of
        None \<Rightarrow> lua_raise ''arg 1 is not a session'' w
      | Some p \<Rightarrow> do {
          q \<leftarrow> arg_raw 2 w;
          (case q of
             None \<Rightarrow> lua_raise ''arg 2 is not a raw_cmd_msg'' w
           | Some q \<Rightarrow> do {
               raw \<leftarrow> lent_raws (app w) q;
               w \<leftarrow> send_raw_cmd e p raw w;
               Some (Returned 1, w) }) }) }"

section \<open>Sending datagrams\<close>

text \<open>A C function that needs the network object, too.\<close>

type_synonym 'l net_function = "'l lua_state netbus \<Rightarrow> (nat lua_result \<times> 'l lua_state netbus) option"

definition net_raise :: "string \<Rightarrow> 'l net_function" where
  "net_raise e nb = Some (Lua_Error e, nb)"

definition udp_send_msg ::
    "('d, 'm, 'a) env \<Rightarrow> string \<Rightarrow> int \<Rightarrow> 'm cmd_msg \<Rightarrow> 'a netbus \<Rightarrow> 'a netbus option" where
  "udp_send_msg e ip port msg nb = do {
     (enc, m) \<leftarrow> encode_msg_to_raw (pb_lib e) msg (proto (nb_world nb)) (mem (nb_world nb));
     let nb = nb\<lparr>nb_world := (nb_world nb)\<lparr>mem := m\<rparr>\<rparr>;
     (case enc of
        None \<Rightarrow> Some nb
      | Some (q, bytes) \<Rightarrow> do {
          nb \<leftarrow> udp_sendto e ip port bytes nb;
          m \<leftarrow> raw_msg_free q (mem (nb_world nb));
          Some (nb\<lparr>nb_world := (nb_world nb)\<lparr>mem := m\<rparr>\<rparr>) }) }"

definition lua_session_udp_send_msg ::
    "lua_lib \<Rightarrow> ('d, 'm) reflection \<Rightarrow> ('d, 'm, 'l lua_state) env \<Rightarrow> 'l net_function" where
  "lua_session_udp_send_msg lib R e nb =
     (let w = nb_world nb in
      case lua_tostring lib (arg_value 1 w) of
        None \<Rightarrow> net_raise ''arg 1 is not a string'' nb
      | Some ip \<Rightarrow> do {
          port \<leftarrow> c_int32 (arg_number lib 2 w);
          if port \<le> 0 \<or> port > 65535 then net_raise ''arg 2 is not a valid port'' nb
          else if \<not> arg_is_table 3 w then net_raise ''arg 3 is not a table'' nb
          else do {
            w \<leftarrow> lua_cmd_fields 3 w;
            st \<leftarrow> map_option (\<lambda>v. int32 (lua_tointeger lib v)) (lua_index (- 4) w);
            if st = 0 then net_raise ''stype is not a key in cmd_msg'' (nb\<lparr>nb_world := w\<rparr>)
            else do {
              ct \<leftarrow> map_option (\<lambda>v. int32 (lua_tointeger lib v)) (lua_index (- 3) w);
              if ct = 0 then net_raise ''ctype is not a key in cmd_msg'' (nb\<lparr>nb_world := w\<rparr>)
              else do {
                ut \<leftarrow> map_option (lua_tointeger lib) (lua_index (- 2) w);
                (b, w) \<leftarrow> lua_cmd_body lib (pb_lib e) R ct w;
                let nb = nb\<lparr>nb_world := w\<rparr>;
                (case b of
                   Returned (Text_Body t) \<Rightarrow> do {
                     nb \<leftarrow> udp_send_msg e (c_string ip) port (lua_cmd_msg st ct ut (map_option (Json_Body 0) t)) nb;
                     Some (Returned 1, nb) }
                 | Returned (Message_Body x) \<Rightarrow> do {
                     nb \<leftarrow> udp_send_msg e (c_string ip) port (lua_cmd_msg st ct ut (map_option Pb_Body x)) nb;
                     Some (Returned 1, nb\<lparr>nb_world := (nb_world nb)\<lparr>mem := free_protobuf_message x (mem (nb_world nb))\<rparr>\<rparr>) }
                 | Returned No_Protocol \<Rightarrow> Some (Returned 1, nb)
                 | Lua_Error x \<Rightarrow> Some (Lua_Error x, nb)
                 | Bad_Argument \<Rightarrow> Some (Bad_Argument, nb)) } } } })"

section \<open>Lemmas\<close>

lemma arg_simps:
  assumes "stack_of w = rev args"
  shows "arg_value i w = lua_arg args i"
  using assms by (auto simp: arg_value_def stack_at_def lua_arg_def)

lemma arg_session_ptr: "arg_value i w = LUserdata (Session_Ptr p) \<Longrightarrow> arg_session i w = Some (Some p)"
  by (simp add: arg_session_def tolua_touserdata_def)

text \<open>The table a script passes for a command.\<close>

definition cmd_table :: "int \<Rightarrow> int \<Rightarrow> int \<Rightarrow> lua_val \<Rightarrow> (lua_val \<times> lua_val) list \<Rightarrow> bool" where
  "cmd_table st ct ut b t \<longleftrightarrow> table_get (lua_str ''stype'') t = LInteger st \<and> table_get (lua_str ''ctype'') t = LInteger ct \<and>
     table_get (lua_str ''utag'') t = LInteger ut \<and> table_get (lua_str ''body'') t = b"

lemma lua_cmd_fields_run:
  assumes "stack_of w = [LTable t, u]" "cmd_table st ct ut b t"
  shows "lua_cmd_fields 2 w = Some (with_stack [b, LInteger ut, LInteger ct, LInteger st, LTable t, u] w)"
  using assms by (simp add: lua_cmd_fields_def lua_getfield_def stack_at_def cmd_table_def lua_push_def)

lemma lua_index_four:
  "lua_index (- 1) (with_stack (a # b # c # d # r) w) = Some a" "lua_index (- 2) (with_stack (a # b # c # d # r) w) = Some b"
  "lua_index (- 3) (with_stack (a # b # c # d # r) w) = Some c" "lua_index (- 4) (with_stack (a # b # c # d # r) w) = Some d"
  by (simp_all add: lua_index_def)

lemma word_of_int_int32: "(word_of_int (int32 n) :: u32) = word_of_int n"
proof -
  have "int32 n mod 2 ^ 32 = (n + 2 ^ 31 - 2 ^ 31) mod 2 ^ 32" unfolding int32_def by (rule mod_diff_left_eq)
  then have "take_bit 32 (int32 n) = take_bit 32 n" by (simp only: take_bit_eq_mod) simp
  then show ?thesis by (simp only: word_of_int_eq_iff) simp
qed

lemma with_stack_mem: "(with_stack s w)\<lparr>mem := m\<rparr> = with_stack s (w\<lparr>mem := m\<rparr>)"
  by (simp add: with_stack_def)

lemma lua_tointeger_int [simp]: "lua_tointeger lib (LInteger n) = n"
  by (simp add: lua_tointeger_def to_number_def number_integer_def)

text \<open>The call with two proper arguments comes down to the body and the sending.\<close>

lemma lua_session_send_msg_run:
  assumes st: "stack_of w = [LTable t, LUserdata (Session_Ptr p)]" "cmd_table stype ctype ut b t"
    and "int_args [stype, ctype]" "stype \<noteq> 0" "ctype \<noteq> 0"
    and v: "v = with_stack [b, LInteger ut, LInteger ctype, LInteger stype, LTable t, LUserdata (Session_Ptr p)] w"
  shows "lua_session_send_msg lib R e w = do {
     (r, w) \<leftarrow> lua_cmd_body lib (pb_lib e) R ctype v;
     (case r of
        Returned (Text_Body s) \<Rightarrow> do {
          w \<leftarrow> send_msg e p (lua_cmd_msg stype ctype ut (map_option (Json_Body 0) s)) w; Some (Returned 1, w) }
      | Returned (Message_Body x) \<Rightarrow> do {
          w \<leftarrow> send_msg e p (lua_cmd_msg stype ctype ut (map_option Pb_Body x)) w;
          Some (Returned 1, w\<lparr>mem := free_protobuf_message x (mem w)\<rparr>) }
      | Returned No_Protocol \<Rightarrow> Some (Returned 1, w)
      | Lua_Error x \<Rightarrow> Some (Lua_Error x, w)
      | Bad_Argument \<Rightarrow> Some (Bad_Argument, w)) }"
proof -
  have "arg_session 1 w = Some (Some p)" "arg_is_table 2 w"
    using st(1) by (simp_all add: arg_session_def arg_value_def arg_is_table_def stack_at_def tolua_touserdata_def)
  moreover have "int32 stype = stype" "int32 ctype = ctype" using assms(3) by (simp_all add: int_args_def int32_id)
  ultimately show ?thesis using assms(4,5) lua_cmd_fields_run [OF st] unfolding v
    by (simp add: lua_session_send_msg_def lua_index_four)
qed

text \<open>The conversion of a table fails, and the command is sent all the same, without a body.\<close>

lemma failed_conversion_sends_empty:
  assumes st: "stack_of w = [LTable t, LUserdata (Session_Ptr p)]" "cmd_table stype ctype ut (LTable b) t"
    and "int_args [stype, ctype]" "stype \<noteq> 0" "ctype \<noteq> 0"
    and "g_proto_type (proto w) = proto_buf" "pb_type2name ctype (proto w) = Some name"
    and "lua_table_to_protobuf lib (pb_lib e) R 6 name
      ([LTable b, LInteger ut, LInteger ctype, LInteger stype, LTable t, LUserdata (Session_Ptr p)], mem w) =
        Some (Returned None, stk, m)"
  shows "lua_session_send_msg lib R e w =
    map_option (Pair (Returned 1)) (send_msg e p (lua_cmd_msg stype ctype ut None) (with_stack stk (w\<lparr>mem := m\<rparr>)))"
proof -
  let ?v = "with_stack [LTable b, LInteger ut, LInteger ctype, LInteger stype, LTable t, LUserdata (Session_Ptr p)] w"
  have "proto_buf \<noteq> proto_json" by (simp add: proto_buf_def proto_json_def)
  then have "lua_cmd_body lib (pb_lib e) R ctype ?v = Some (Returned (Message_Body None), with_stack stk (w\<lparr>mem := m\<rparr>))"
    using assms(6-8) by (simp add: lua_cmd_body_def lua_index_four with_stack_mem eval_nat_numeral)
  then show ?thesis
    by (simp add: lua_session_send_msg_run [OF assms(1-5) refl] free_protobuf_message_def map_option_bind comp_def
        split: bind_splits)
qed

section \<open>Properties\<close>

text \<open>\<open>Session.get_utag\<close> after \<open>Session.set_utag\<close> gives back the number modulo 2 ^ 32, so every user tag
  survives, although it passes through a signed \<open>int\<close>; nothing else of any session changes.\<close>

theorem lua_utag_roundtrip:
  assumes "sessions w p = Some s" "stack_of w = [v, LUserdata (Session_Ptr p)]" "lua_tointeger lib v = n"
  shows "\<exists>w'. lua_set_utag lib w = Some (Returned 1, w') \<and>
    sessions w' = (sessions w)(p \<mapsto> s\<lparr>utag := word_of_int n\<rparr>) \<and>
    lua_get_utag (with_stack [LUserdata (Session_Ptr p)] w') =
      Some (Returned 1, with_stack [LInteger (n mod 2 ^ 32), LUserdata (Session_Ptr p)] w')"
proof -
  have "arg_session 1 w = Some (Some p)" "arg_value 2 w = v"
    using assms(2) by (simp_all add: arg_session_def arg_value_def stack_at_def tolua_touserdata_def)
  moreover have "arg_session 1 (with_stack [LUserdata (Session_Ptr p)] w') = Some (Some p)" for w' :: "'a lworld"
    by (simp add: arg_session_def arg_value_def stack_at_def tolua_touserdata_def)
  moreover have "(word_of_int (int32 n) :: u32) = word_of_int n"
    by (rule word_of_int_int32)
  moreover have "uint (word_of_int n :: u32) = n mod 2 ^ 32" by (simp add: uint_word_of_int)
  ultimately show ?thesis using assms(1,3)
    by (simp add: lua_set_utag_def lua_get_utag_def set_session_def lua_push_def)
qed


text \<open>The sender of the witness: session 40 is a TCP session.\<close>

definition sender_world :: "lua_val list \<Rightarrow> (lua_val list) list lworld" where
  "sender_world stk = (lworld0 stk)\<lparr>sessions := [40 \<mapsto> fresh_session]\<rparr>"

lemma sender_simps [simp]:
  "sessions (sender_world stk) = [40 \<mapsto> fresh_session]" "proto (sender_world stk) = ps_json"
  "mem (sender_world stk) = mem0" "stack_of (sender_world stk) = stk" "calls (sender_world stk) = []"
  by (simp_all add: sender_world_def lworld0_def lworld_with_def)

theorem lua_utag_roundtrip_witness:
  "\<exists>w'. lua_set_utag lib_example (sender_world [LInteger 4000000000, LUserdata (Session_Ptr 40)]) = Some (Returned 1, w') \<and>
    lua_get_utag (with_stack [LUserdata (Session_Ptr 40)] w') =
      Some (Returned 1, with_stack [LInteger 4000000000, LUserdata (Session_Ptr 40)] w')"
  using lua_utag_roundtrip [of "sender_world [LInteger 4000000000, LUserdata (Session_Ptr 40)]" 40 fresh_session
      "LInteger 4000000000" lib_example 4000000000] by auto

definition greeting :: "(lua_val \<times> lua_val) list" where
  "greeting = [(lua_str ''stype'', LInteger 3), (lua_str ''ctype'', LInteger 2), (lua_str ''utag'', LInteger 7),
     (lua_str ''body'', LString [104, 105])]"


end
