(* ===== verification/Lua_Proto_Manager.thy ===== *)
theory Lua_Proto_Manager
  imports Lua_Session
begin

text \<open>
  The protocol manager and raw commands as scripts see them (lua_wrapper/proto_manager_export_to_lua.cc): the
  modules \<open>ProtoManager\<close> and \<open>RawCmd\<close>. A raw command is lent to the script for the time of its handler;
  it is changed in place.
\<close>

section \<open>The module ProtoManager\<close>

definition gettop :: "'l lworld \<Rightarrow> nat" where
  "gettop w = length (stack_of w)"

definition set_proto :: "(proto_state \<Rightarrow> proto_state) \<Rightarrow> 'l lworld \<Rightarrow> 'l lworld" where
  "set_proto f w = w\<lparr>proto := f (proto w)\<rparr>"

text \<open>All paths return 1, with nothing pushed.\<close>

definition lua_protomanager_init :: "lua_lib \<Rightarrow> 'l c_function" where
  "lua_protomanager_init lib w =
     (if gettop w \<noteq> 1 then Some (Returned 1, w)
      else let t = int32 (lua_tointeger lib (arg_value 1 w)) in
        if t \<noteq> proto_json \<and> t \<noteq> proto_buf then Some (Returned 1, w)
        else Some (Returned 1, set_proto (proto_init t) w))"

definition lua_proto_type :: "'l c_function" where
  "lua_proto_type w = Some (Returned 1, lua_push (LInteger (g_proto_type (proto w))) w)"

text \<open>\<open>luaL_len\<close> of a value that is no table: a string has a length, for other values it raises an error.\<close>

definition luaL_len :: "lua_lib \<Rightarrow> lua_val \<Rightarrow> int lua_result" where
  "luaL_len lib v = (case v of LTable t \<Rightarrow> Returned (int (table_len lib t))
     | LString s \<Rightarrow> Returned (int (length s)) | _ \<Rightarrow> Bad_Argument)"

text \<open>\<open>lua_gettable\<close>: a string has no entry with a number as its key.\<close>

definition lua_gettable :: "lua_val \<Rightarrow> lua_val \<Rightarrow> lua_val" where
  "lua_gettable v k = (case v of LTable t \<Rightarrow> table_get k t | _ \<Rightarrow> LNil)"

text \<open>
  The loop over the entries from \<open>i\<close>, \<open>n\<close> of them left: \<open>cmd_map[i] = cmd\<close>, or the error of \<open>luaL_checkstring\<close>.
\<close>

fun collect_cmds :: "lua_lib \<Rightarrow> lua_val \<Rightarrow> int \<Rightarrow> nat \<Rightarrow> (int \<rightharpoonup> string) \<Rightarrow> (int \<rightharpoonup> string) lua_result" where
  "collect_cmds lib v i 0 m = Returned m"
| "collect_cmds lib v i (Suc n) m =
     (case luaL_checklstring lib (lua_gettable v (LInteger i)) of
        Returned s \<Rightarrow> collect_cmds lib v (i + 1) n (m(i \<mapsto> c_string s))
      | Bad_Argument \<Rightarrow> Bad_Argument
      | Lua_Error e \<Rightarrow> Lua_Error e)"

text \<open>The failure path pushes false but returns no result.\<close>

definition lua_register_protobuf_cmd_map :: "lua_lib \<Rightarrow> 'l c_function" where
  "lua_register_protobuf_cmd_map lib w =
     (let v = arg_value 1 w in
      case luaL_len lib v of
        Returned n \<Rightarrow>
          let tsize = int32 n in
          if tsize \<le> 0 then Some (Returned 0, lua_push (LBoolean False) w)
          else (case collect_cmds lib v 1 (nat tsize) Map.empty of
                  Returned m \<Rightarrow> Some (Returned 1, lua_push (LBoolean True) (set_proto (register_protobuf_cmd_map m) w))
                | Bad_Argument \<Rightarrow> Some (Bad_Argument, w)
                | Lua_Error e \<Rightarrow> Some (Lua_Error e, w))
      | Bad_Argument \<Rightarrow> Some (Bad_Argument, w)
      | Lua_Error e \<Rightarrow> Some (Lua_Error e, w))"

section \<open>The module RawCmd\<close>

definition lua_raw_read_header :: "'l c_function" where
  "lua_raw_read_header w =
     (if gettop w \<noteq> 1 then lua_raise ''argument count not equal to 1'' w
      else do {
        q \<leftarrow> arg_raw 1 w;
        (case q of
           None \<Rightarrow> lua_raise ''argument is not a raw_cmd_msg'' w
         | Some q \<Rightarrow> do {
             raw \<leftarrow> lent_raws (app w) q;
             Some (Returned 3, lua_push (LInteger (uint (r_utag raw)))
               (lua_push (LInteger (r_ctype raw)) (lua_push (LInteger (r_stype raw)) w))) }) })"

text \<open>The tag is written to the field and over bytes 4 to 7 of the data; true is pushed, no result returned.\<close>

definition lua_raw_set_utag :: "lua_lib \<Rightarrow> 'l c_function" where
  "lua_raw_set_utag lib w =
     (if gettop w \<noteq> 2 then lua_raise ''argument count not equal to 2'' w
      else do {
        q \<leftarrow> arg_raw 1 w;
        (case q of
           None \<Rightarrow> lua_raise ''argument is not a raw_cmd_msg'' w
         | Some q \<Rightarrow>
             (case Option.bind (to_number lib (arg_value 2 w)) number_integer of
                None \<Rightarrow> Some (Bad_Argument, w)
              | Some n \<Rightarrow> do {
                  let t = (word_of_int n :: u32);
                  raw \<leftarrow> lent_raws (app w) q;
                  d \<leftarrow> store (raw_data raw) 4 (bytes32 t);
                  let w = set_lua (\<lambda>l. l\<lparr>lent_raws := (lent_raws l)(q \<mapsto> raw\<lparr>r_utag := t, raw_data := d\<rparr>)\<rparr>) w;
                  Some (Returned 0, lua_push (LBoolean True) w) })) })"

text \<open>The body of the decoded command; when decoding fails nothing is pushed, but one result returned.\<close>

definition lua_read_body :: "('d, 'm) reflection \<Rightarrow> ('d, 'm) protobuf \<Rightarrow> 'l c_function" where
  "lua_read_body R pb w =
     (if gettop w \<noteq> 1 then lua_raise ''argument count not equal to 1'' w
      else do {
        q \<leftarrow> arg_raw 1 w;
        (case q of
           None \<Rightarrow> lua_raise ''argument is not a raw_cmd_msg'' w
         | Some q \<Rightarrow> do {
             raw \<leftarrow> lent_raws (app w) q;
             (msg, ps, m) \<leftarrow> decode_cmd_msg pb (raw_data raw) (raw_len raw) (proto w) (mem w);
             let w = w\<lparr>proto := ps, mem := m\<rparr>;
             (case msg of
                None \<Rightarrow> Some (Returned 1, w)
              | Some msg \<Rightarrow> do {
                  w \<leftarrow> (case c_body msg of
                       None \<Rightarrow> Some (if g_proto_type ps = proto_json then lua_push LNil w else w)
                     | Some b \<Rightarrow>
                         if g_proto_type ps = proto_json \<or> g_proto_type ps = proto_buf then push_body R b w else Some w);
                  m \<leftarrow> cmd_msg_free msg (proto w) (mem w);
                  Some (Returned 1, w\<lparr>mem := m\<rparr>) }) }) })"

section \<open>Properties\<close>

lemma arg_raw_ptr: "arg_value i w = LUserdata (Raw_Ptr q) \<Longrightarrow> arg_raw i w = Some (Some q)"
  by (simp add: arg_raw_def tolua_touserdata_def)

lemma decode_header_set_utag:
  assumes "store d 4 (bytes32 t) = Some d'" "decode_header d = Some (st, ct, ut)" "8 \<le> length d"
  shows "decode_header d' = Some (st, ct, t)" "length d' = length d" "drop 8 d' = drop 8 d"
proof -
  have d': "d' = take 4 d @ bytes32 t @ drop 8 d" using assms(1) by (simp add: store_def split: if_splits)
  have "take 4 d = [d ! 0, d ! 1, d ! 2, d ! 3]"
    using assms(3) by (intro nth_equalityI) (auto simp: less_Suc_eq numeral_eq_Suc)
  then have d'': "d' = [d ! 0, d ! 1, d ! 2, d ! 3] @ bytes32 t @ drop 8 d" by (simp add: d')
  have rd: "rd d' 0 = Some (d ! 0)" "rd d' 1 = Some (d ! 1)" "rd d' 2 = Some (d ! 2)" "rd d' 3 = Some (d ! 3)"
    "rd d' 4 = Some (ucast t)" "rd d' 5 = Some (ucast (drop_bit 8 t))" "rd d' 6 = Some (ucast (drop_bit 16 t))"
    "rd d' 7 = Some (ucast (drop_bit 24 t))"
    unfolding d'' rd_def bytes32_def by simp_all
  have r8: "rd d 0 = Some (d ! 0)" "rd d (Suc 0) = Some (d ! Suc 0)" "rd d 2 = Some (d ! 2)" "rd d 3 = Some (d ! 3)"
    "rd d 4 = Some (d ! 4)" "rd d 5 = Some (d ! 5)" "rd d 6 = Some (d ! 6)" "rd d 7 = Some (d ! 7)"
    using assms(3) by (auto simp: rd_def)
  show "decode_header d' = Some (st, ct, t)"
    using assms(2) r8 by (simp add: decode_header_def rd [simplified] le32_bytes32)
  show "length d' = length d" by (rule length_store [OF assms(1)])
  show "drop 8 d' = drop 8 d" using assms(3) unfolding d' by simp
qed

text \<open>C40 (roundtrip): after \<open>RawCmd.set_utag(raw, n)\<close> the raw command, decoded again, has the same type and command, the
  user tag \<open>n\<close> modulo 2 ^ 32 and the same bytes from the eighth on: a gateway that forwards it changes the tag only.\<close>

theorem raw_set_utag_forwarded:
  assumes "stack_of w = [LInteger n, LUserdata (Raw_Ptr q)]" "lent_raws (app w) q = Some raw"
    and dec: "decode_raw_cmd (raw_data raw) (int (length (raw_data raw))) = Some (Some raw)"
  shows "\<exists>w' raw'. lua_raw_set_utag lib w = Some (Returned 0, w') \<and> lent_raws (app w') q = Some raw' \<and>
    decode_raw_cmd (raw_data raw') (int (length (raw_data raw'))) = Some (Some raw') \<and>
    raw' = raw\<lparr>r_utag := word_of_int n, raw_data := raw_data raw'\<rparr> \<and>
    length (raw_data raw') = length (raw_data raw) \<and> drop 8 (raw_data raw') = drop 8 (raw_data raw)"
proof -
  let ?d = "raw_data raw" and ?t = "word_of_int n :: u32"
  have len: "8 \<le> length ?d" using dec by (auto simp: decode_raw_cmd_def cmd_header_size_def split: if_splits)
  obtain d' where d': "store ?d 4 (bytes32 ?t) = Some d'" using len by (simp add: store_Some)
  obtain ut where h: "decode_header ?d = Some (r_stype raw, r_ctype raw, ut)" "raw_len raw = int (length ?d)"
    using dec len by (cases raw) (auto simp: decode_raw_cmd_def cmd_header_size_def bind_eq_Some_conv)
  note D = decode_header_set_utag [OF d' h(1) len]
  let ?raw = "raw\<lparr>r_utag := ?t, raw_data := d'\<rparr>"
  have "lua_raw_set_utag lib w = Some (Returned 0, lua_push (LBoolean True)
      (set_lua (\<lambda>l. l\<lparr>lent_raws := (lent_raws l)(q \<mapsto> ?raw)\<rparr>) w))"
    using assms(1,2) d'
    by (simp add: lua_raw_set_utag_def gettop_def arg_raw_def arg_value_def stack_at_def tolua_touserdata_def to_number_def number_integer_def)
  moreover have "decode_raw_cmd d' (int (length d')) = Some (Some ?raw)"
    using D len h(2) by (cases raw) (simp add: decode_raw_cmd_def cmd_header_size_def)
  ultimately show ?thesis using D by (simp add: lua_push_def)
qed

theorem raw_set_utag_forwarded_witness:
  "let raw = \<lparr>r_stype = 1, r_ctype = 2, r_utag = 3, raw_data = [1, 0, 2, 0, 3, 0, 0, 0, 9], raw_len = 9\<rparr>;
     w = set_lua (\<lambda>l. l\<lparr>lent_raws := [5 \<mapsto> raw]\<rparr>) (lworld0 [LInteger 258, LUserdata (Raw_Ptr 5)]) in
   \<exists>w' raw'. lua_raw_set_utag lib_example w = Some (Returned 0, w') \<and> lent_raws (app w') 5 = Some raw' \<and>
    decode_raw_cmd (raw_data raw') (int (length (raw_data raw'))) = Some (Some raw') \<and>
    raw' = raw\<lparr>r_utag := word_of_int 258, raw_data := raw_data raw'\<rparr> \<and>
    length (raw_data raw') = length (raw_data raw) \<and> drop 8 (raw_data raw') = drop 8 (raw_data raw)"
  unfolding Let_def
  by (rule raw_set_utag_forwarded)
     (simp_all add: lworld0_def lworld_with_def decode_raw_cmd_def cmd_header_size_def decode_header_def rd_def le16_def le32_def)

end
