(* ===== verification/Lua_Logger.thy ===== *)
theory Lua_Logger
  imports Logger Lua_Values
begin

text \<open>
  The logger as scripts see it (lua_wrapper/logger_export_to_lua.cc): the functions \<open>print\<close>, \<open>Logger.debug\<close>,
  \<open>Logger.warn\<close>, \<open>Logger.error\<close> and \<open>Logger.init\<close>, and \<open>lua_panic\<close> of lua_wrapper/lua_wrapper.cc. The call stack
  of the script, which Lua reports frame by frame, is an argument; a character list is a C string.
\<close>

section \<open>Messages\<close>

text \<open>
  The message is passed to \<open>Logger::log\<close> as its format, with no arguments: only \<open>%%\<close> is defined.
\<close>

fun c_format :: "string \<Rightarrow> string option" where
  "c_format [] = Some []"
| "c_format (c # s) =
     (if c = CHR ''%'' then
        (case s of d # s' \<Rightarrow> if d = CHR ''%'' then map_option ((#) c) (c_format s') else None | [] \<Rightarrow> None)
      else map_option ((#) c) (c_format s))"

definition log_message :: "logger_env \<Rightarrow> int \<Rightarrow> string \<Rightarrow> int \<Rightarrow> string \<Rightarrow> logger \<Rightarrow> logger option" where
  "log_message E level file_name line_num msg g = do {
     t \<leftarrow> c_format msg;
     logger_log E file_name (word_of_int line_num) level t g }"

definition print_error :: "logger_env \<Rightarrow> string \<Rightarrow> int \<Rightarrow> string \<Rightarrow> logger \<Rightarrow> logger option" where
  "print_error E = log_message E 2"

definition print_warn :: "logger_env \<Rightarrow> string \<Rightarrow> int \<Rightarrow> string \<Rightarrow> logger \<Rightarrow> logger option" where
  "print_warn E = log_message E 1"

definition print_debug :: "logger_env \<Rightarrow> string \<Rightarrow> int \<Rightarrow> string \<Rightarrow> logger \<Rightarrow> logger option" where
  "print_debug E = log_message E 0"

text \<open>A frame of the call stack, from \<open>depth\<close> on: its source begins with \<open>@\<close> for a file.\<close>

record lua_frame =
  fr_source :: string
  fr_currentline :: int

fun log_from :: "(string \<Rightarrow> int \<Rightarrow> string \<Rightarrow> logger \<Rightarrow> logger option) \<Rightarrow> nat \<Rightarrow> lua_frame list \<Rightarrow> string \<Rightarrow> logger \<Rightarrow> logger option" where
  "log_from out depth [] msg g = (if depth = 0 then out ''trunk'' 0 msg g else Some g)"
| "log_from out depth (f # frames) msg g =
     (case fr_source f of
        c # file \<Rightarrow> if c = CHR ''@'' then out file (fr_currentline f) msg g else log_from out (depth + 1) frames msg g
      | [] \<Rightarrow> log_from out (depth + 1) frames msg g)"

definition do_log_message ::
    "(string \<Rightarrow> int \<Rightarrow> string \<Rightarrow> logger \<Rightarrow> logger option) \<Rightarrow> lua_frame list \<Rightarrow> string \<Rightarrow> logger \<Rightarrow> logger option" where
  "do_log_message out frames msg g = log_from out 0 frames msg g"

section \<open>The functions of the module\<close>

text \<open>What is printed for an argument. The last branch, \<open>lua_typename\<close>, is for values the model has none of.\<close>

fun lua_typename :: "lua_val \<Rightarrow> string" where
  "lua_typename LNil = ''nil''"
| "lua_typename (LBoolean b) = ''boolean''"
| "lua_typename (LInteger n) = ''number''"
| "lua_typename (LNumber x) = ''number''"
| "lua_typename (LString s) = ''string''"
| "lua_typename (LFunction f) = ''function''"
| "lua_typename (LTable t) = ''table''"
| "lua_typename (LUserdata p) = ''userdata''"

definition log_arg :: "lua_lib \<Rightarrow> lua_val \<Rightarrow> string" where
  "log_arg lib v = (case v of
       LTable t \<Rightarrow> ''table''
     | LNil \<Rightarrow> ''nil''
     | LBoolean b \<Rightarrow> if lua_toboolean v then ''true'' else ''false''
     | LFunction f \<Rightarrow> ''function''
     | LUserdata p \<Rightarrow> ''lightuserdata''
     | _ \<Rightarrow> (case lua_tostring lib v of Some s \<Rightarrow> c_string s | None \<Rightarrow> lua_typename v))"

fun log_args :: "lua_lib \<Rightarrow> lua_val list \<Rightarrow> string" where
  "log_args lib [] = []"
| "log_args lib [v] = log_arg lib v"
| "log_args lib (v # vs) = log_arg lib v @ CHR 0x09 # log_args lib vs"

text \<open>A function of the module: the arguments, and the number of results with the new state.\<close>

type_synonym log_function = "lua_lib \<Rightarrow> lua_val list \<Rightarrow> logger \<Rightarrow> (nat \<times> logger) option"

definition lua_log_debug :: "logger_env \<Rightarrow> lua_frame list \<Rightarrow> log_function" where
  "lua_log_debug E frames lib args g = map_option (Pair 0) (do_log_message (print_debug E) frames (log_args lib args) g)"

definition lua_log_warn :: "logger_env \<Rightarrow> lua_frame list \<Rightarrow> log_function" where
  "lua_log_warn E frames lib args g = map_option (Pair 0) (do_log_message (print_warn E) frames (log_args lib args) g)"

definition lua_log_error :: "logger_env \<Rightarrow> lua_frame list \<Rightarrow> log_function" where
  "lua_log_error E frames lib args g = map_option (Pair 0) (do_log_message (print_error E) frames (log_args lib args) g)"

definition lua_logger_init :: log_function where
  "lua_logger_init lib args g =
     (case (lua_tostring lib (lua_arg args 1), lua_tostring lib (lua_arg args 2)) of
        (Some path, Some pre) \<Rightarrow>
          map_option (Pair 0) (logger_init (c_string path) (c_string pre) (lua_toboolean (lua_arg args 3))
            (int32 (lua_tointeger lib (lua_arg args 4))) g)
      | _ \<Rightarrow> Some (0, g))"

definition lua_panic :: "logger_env \<Rightarrow> lua_frame list \<Rightarrow> lua_lib \<Rightarrow> lua_val \<Rightarrow> logger \<Rightarrow> (nat \<times> logger) option" where
  "lua_panic E frames lib v g =
     (case lua_tostring lib v of
        None \<Rightarrow> Some (0, g)
      | Some err \<Rightarrow> map_option (Pair 0) (do_log_message (print_error E) frames (c_string err) g))"

section \<open>Formats and places\<close>

text \<open>The texts that are formats without conversions: those in which every percent sign is doubled.\<close>

definition escape :: "string \<Rightarrow> string" where
  "escape t = concat (map (\<lambda>c. if c = CHR ''%'' then ''%%'' else [c]) t)"

lemma escape_Cons: "escape (c # t) = (if c = CHR ''%'' then CHR ''%'' # CHR ''%'' # escape t else c # escape t)"
  by (simp add: escape_def)

lemma c_format_sound: "c_format s = Some t \<Longrightarrow> s = escape t"
proof (induction s arbitrary: t rule: c_format.induct)
  case 1
  then show ?case by (simp add: escape_def)
next
  case (2 c s)
  show ?case
  proof (cases "c = CHR ''%''")
    case True
    then obtain s' t' where "s = CHR ''%'' # s'" "c_format s' = Some t'" "t = CHR ''%'' # t'"
      using 2(3) by (cases s) (simp_all del: char.inject split: if_splits, blast)
    then show ?thesis using True 2(1) by (simp add: escape_Cons)
  next
    case False
    then obtain t' where "c_format s = Some t'" "t = c # t'" using 2(3) by auto
    then show ?thesis using False 2(2) by (simp add: escape_Cons)
  qed
qed

lemma c_format_escape: "c_format s = Some t \<longleftrightarrow> s = escape t"
proof -
  have "c_format (escape t) = Some t"
    by (induction t) (simp_all add: escape_Cons, simp add: escape_def)
  then show ?thesis using c_format_sound by blast
qed

lemma escape_plain: "CHR ''%'' \<notin> set t \<Longrightarrow> escape t = t"
  by (induction t) (auto simp: escape_def)

text \<open>The frame of a script file that is nearest to the call.\<close>

definition script_frame :: "lua_frame \<Rightarrow> bool" where
  "script_frame f \<longleftrightarrow> (case fr_source f of c # file \<Rightarrow> c = CHR ''@'' | [] \<Rightarrow> False)"

lemma log_from_place:
  "log_from out d frames msg g = (case List.find script_frame frames of
     Some f \<Rightarrow> out (tl (fr_source f)) (fr_currentline f) msg g
   | None \<Rightarrow> if d = 0 \<and> frames = [] then out ''trunk'' 0 msg g else Some g)"
  by (induction out d frames msg g rule: log_from.induct) (auto simp: script_frame_def split: list.splits)

lemmas do_log_message_place = do_log_message_def log_from_place

text \<open>
  A message that is no format is undefined behaviour; one logged from code that comes from no file is dropped
  (the frame of the logging function itself is always there).
\<close>

definition log_functions :: "(string \<times> (logger_env \<Rightarrow> lua_frame list \<Rightarrow> log_function)) list" where
  "log_functions = [(''[DEBUG]'', lua_log_debug), (''[WARN]'', lua_log_warn), (''[ERROR]'', lua_log_error)]"

lemmas log_function_defs = lua_log_debug_def lua_log_warn_def lua_log_error_def print_debug_def print_warn_def
  print_error_def log_message_def

lemma log_functions_cases:
  assumes "(tag, log_fn) \<in> set log_functions"
  obtains level where "level \<in> {0..2}" "tag = g_log_level ! nat level"
    "\<And>E frames lib args g. log_fn E frames lib args g =
       map_option (Pair 0) (do_log_message (log_message E level) frames (log_args lib args) g)"
  using assms that [of 0] that [of 1] that [of 2]
  by (auto simp: log_functions_def g_log_level_def nat_numeral lua_log_debug_def lua_log_warn_def lua_log_error_def
      print_debug_def print_warn_def print_error_def)

lemma log_percent_undefined:
  assumes "(tag, log_fn) \<in> set log_functions" "List.find script_frame frames = Some f"
    and "\<nexists>t. log_args lib args = escape t"
  shows "log_fn E frames lib args g = None"
proof -
  have "c_format (log_args lib args) = None" using assms(3) by (simp flip: c_format_escape)
  then show ?thesis using assms(2)
    by (rule_tac log_functions_cases [OF assms(1)]) (simp add: do_log_message_place log_message_def)
qed

lemma log_without_file_dropped:
  assumes "(tag, log_fn) \<in> set log_functions" "frames \<noteq> []" "List.find script_frame frames = None"
  shows "log_fn E frames lib args g = Some (0, g)"
  using assms(2,3) by (rule_tac log_functions_cases [OF assms(1)]) (simp add: do_log_message_place)

section \<open>The line a script logs\<close>



end
