(* ===== verification/Lua_Netbus.thy ===== *)
theory Lua_Netbus
  imports Lua_Session
begin

text \<open>
  The network as scripts see it (lua_wrapper/netbus_export_to_lua.cc): the module \<open>Netbus\<close> and the callback that
  reports a connection. The number libuv's callback gets for a Lua function is its reference.
\<close>

section \<open>Listening\<close>

definition net_top :: "'l lua_state netbus \<Rightarrow> nat" where
  "net_top nb = length (stack_of (nb_world nb))"

definition net_arg :: "nat \<Rightarrow> 'l lua_state netbus \<Rightarrow> lua_val" where
  "net_arg i nb = arg_value i (nb_world nb)"

definition lua_tcp_listen :: "lua_lib \<Rightarrow> ('d, 'm, 'l lua_state) net_env \<Rightarrow> 'l net_function" where
  "lua_tcp_listen lib n nb =
     (if net_top nb \<noteq> 1 then Some (Returned 0, nb)
      else let port = int32 (lua_tointeger lib (net_arg 1 nb)) in
        if port = 0 then Some (Returned 0, nb) else Some (Returned 0, tcp_listen n port nb))"

definition lua_ws_listen :: "lua_lib \<Rightarrow> ('d, 'm, 'l lua_state) net_env \<Rightarrow> 'l net_function" where
  "lua_ws_listen lib n nb =
     (if net_top nb \<noteq> 1 then Some (Returned 0, nb)
      else let port = int32 (lua_tointeger lib (net_arg 1 nb)) in
        if port = 0 then Some (Returned 0, nb) else Some (Returned 0, ws_listen n port nb))"

definition lua_udp_listen :: "lua_lib \<Rightarrow> 'l net_function" where
  "lua_udp_listen lib nb =
     (if net_top nb \<noteq> 1 then Some (Returned 0, nb)
      else let port = int32 (lua_tointeger lib (net_arg 1 nb)) in
        if port = 0 then Some (Returned 0, nb) else Some (Returned 0, udp_listen port nb))"

section \<open>Connecting\<close>

definition session_value :: "addr option \<Rightarrow> lua_val" where
  "session_value s = (case s of None \<Rightarrow> LNil | Some p \<Rightarrow> LUserdata (Session_Ptr p))"

definition on_tcp_connect :: "lua_lib \<Rightarrow> 'l caller \<Rightarrow> addr \<Rightarrow> int \<Rightarrow> addr option \<Rightarrow> 'l lworld \<Rightarrow> 'l lworld option" where
  "on_tcp_connect lib call udata err s w = do {
     let w = (if err \<noteq> 0 then lua_push LNil (lua_push (LInteger err) w)
              else lua_push (session_value s) (lua_push (LInteger err) w));
     (_, w) \<leftarrow> execute_function_by_handler lib call (int udata) 2 w;
     Some (remove_script_handler (int udata) w) }"

definition lua_tcp_connect :: "lua_lib \<Rightarrow> ('d, 'm, 'l lua_state) net_env \<Rightarrow> 'l net_function" where
  "lua_tcp_connect lib n nb =
     (if net_top nb \<noteq> 3 then Some (Returned 0, nb)
      else (case luaL_checklstring lib (net_arg 1 nb) of
              Bad_Argument \<Rightarrow> Some (Bad_Argument, nb)
            | Lua_Error e \<Rightarrow> Some (Lua_Error e, nb)
            | Returned ip \<Rightarrow>
                (let port = int32 (lua_tointeger lib (net_arg 2 nb)) in
                 if port = 0 then Some (Returned 0, nb)
                 else (case ref_function 3 (nb_world nb) of (handler, w) \<Rightarrow>
                   if handler = 0 then Some (Returned 0, nb\<lparr>nb_world := w\<rparr>)
                   else map_option (Pair (Returned 0))
                     (tcp_connect n (c_string ip) port (Some (nat handler)) (nb\<lparr>nb_world := w\<rparr>))))))"

section \<open>A connection is reported once\<close>

definition connect_args :: "int \<Rightarrow> addr option \<Rightarrow> lua_val list" where
  "connect_args err s = [LInteger err, if err \<noteq> 0 then LNil else session_value s]"

lemma on_tcp_connect_calls:
  assumes "refid_function_mapping (app w) (int h) = f" "is_function f"
    and "call f (connect_args err s) (traceback_of w) (calling f (connect_args err s) w) = Some (r, w')"
    and "error_text_printable lib w r"
  shows "on_tcp_connect lib call h err s w = Some (remove_script_handler (int h) (with_stack [] w'))"
  using callback_of_two [OF assms(1,2) _ assms(4), of call "LInteger err" "if err \<noteq> 0 then LNil else session_value s" w'] assms(3)
  by (cases "err = 0") (simp_all add: on_tcp_connect_def connect_args_def)

lemma remove_script_handler_lookup [simp]:
  "refid_function_mapping (app (remove_script_handler h w)) = (refid_function_mapping (app w))(h := LNil)"
  by (simp add: remove_script_handler_def)

text \<open>A connection that \<open>uv_tcp_connect\<close> accepts waits with the reference of the function.\<close>

lemma lua_tcp_connect_waits:
  assumes args: "stack_of (nb_world nb) = [f, LInteger port, LString ip]" "is_function f" "0 < port" "port < 65536"
    and id: "0 \<le> function_ref_id (app (nb_world nb))" "h = nat (function_ref_id (app (nb_world nb)) + 1)"
    and ok: "uv_ip4_addr n (c_string ip) port = 0" "uv_tcp_connect n (c_string ip) port = 0"
  shows "\<exists>nb1 p. lua_tcp_connect lib n nb = Some (Returned 0, nb1) \<and>
    calls (nb_world nb1) = calls (nb_world nb) @ [Uv_Tcp_Connect p (c_string ip) port] \<and>
    nb_connecting nb1 = nb_connecting nb @ [\<lparr>conn_session = p, connect_cb = Some h\<rparr>] \<and>
    sessions (nb_world nb1) p \<noteq> None \<and>
    refid_function_mapping (app (nb_world nb1)) = (refid_function_mapping (app (nb_world nb)))(int h := f)"
proof -
  have "int32 port = port" using args(3,4) by (simp add: int32_def)
  then show ?thesis using args id ok
    by (auto simp: lua_tcp_connect_def net_top_def net_arg_def arg_value_def stack_at_def luaL_checklstring_def
        lua_tostring_def ref_function_def lua_tointeger_def to_number_def number_integer_def tcp_connect_def open_session_def
        create_session_def set_session_def set_rx_def log_call_def Let_def split: prod.splits)
qed


text \<open>An attempt that libuv refuses at once is never reported: nothing waits for it, and the reference to the function stays.\<close>

lemma refused_connect_unreported:
  assumes "stack_of (nb_world nb) = [f, LInteger port, LString ip]" "is_function f" "0 < port" "port < 65536"
    and "0 \<le> function_ref_id (app (nb_world nb))"
    and "uv_ip4_addr n (c_string ip) port = 0" "uv_tcp_connect n (c_string ip) port \<noteq> 0"
  shows "\<exists>nb1. lua_tcp_connect lib n nb = Some (Returned 0, nb1) \<and> nb_connecting nb1 = nb_connecting nb \<and>
    refid_function_mapping (app (nb_world nb1)) (function_ref_id (app (nb_world nb)) + 1) = f"
proof -
  have "int32 port = port" using assms(3,4) by (simp add: int32_def)
  then show ?thesis using assms
    by (auto simp: lua_tcp_connect_def net_top_def net_arg_def arg_value_def stack_at_def luaL_checklstring_def
        lua_tostring_def ref_function_def lua_tointeger_def to_number_def number_integer_def tcp_connect_def open_session_def
        create_session_def set_session_def set_rx_def log_call_def Let_def split: prod.splits)
qed

text \<open>The witness: the attempt succeeds, and the recording script gets 0 and the session.\<close>

definition lua_net_example :: "(nat, dyn, (lua_val list) list lua_state) net_env" where
  "lua_net_example = \<lparr>core = lua_env, http_parser_execute = (\<lambda>_. []), garbage = (\<lambda>_. 0),
     callback = on_tcp_connect lib_example recorder, uv_ip4_addr = (\<lambda>_ _. 0), uv_tcp_bind = (\<lambda>_. 0),
     uv_tcp_connect = (\<lambda>_ _. 0)\<rparr>"

definition lua_nb_example :: "lua_val list \<Rightarrow> (lua_val list) list lua_state netbus" where
  "lua_nb_example stk = \<lparr>nb_world = lworld0 stk, nb_rx = Map.empty, nb_statics = ws_statics0, nb_listen = [],
     nb_udp = None, nb_connecting = []\<rparr>"


end
