(* ===== verification/Lua_Client.thy ===== *)
theory Lua_Client
  imports Lua_Session
begin

text \<open>
  What the database clients share in the world of a script. The state of a client is one part of what the interpreter
  works on; the locale \<open>client_slot\<close> states how that part is read and written, and that writing it
  leaves the stack, the global variables and the function references alone. Inside it, the callback of two
  values that every client makes is followed once.
\<close>

locale client_slot =
  fixes get :: "'l lworld \<Rightarrow> 'c"
    and put :: "'c \<Rightarrow> 'l lworld \<Rightarrow> 'l lworld"
  assumes get_put: "get (put c w) = c"
    and put_get: "put (get w) w = w"
    and put_put: "put c (put d w) = put c w"
    and put_stack: "stack_of (put c w) = stack_of w"
    and put_globals: "lua_globals (app (put c w)) = lua_globals (app w)"
    and put_references: "refid_function_mapping (app (put c w)) = refid_function_mapping (app w)"
    and get_stack: "get (with_stack s w) = get w"
    and get_remove: "get (remove_script_handler h w) = get w"
begin

lemma traceback_put: "traceback_of (put c w) = traceback_of w"
  by (simp add: traceback_of_def put_globals)

lemma put_all: "get w = c \<Longrightarrow> put c w = w"
  using put_get by blast

text \<open>
  The function is called once with the two values; the world is then the one it left, with an empty stack
  and without the reference, and the client is in the state it left it in.
\<close>

lemma called_once:
  assumes "refid_function_mapping (app w) h = f" "is_function f"
    and tells: "\<forall>k. \<exists>r u. call f [x, y] (traceback_of w) (calling f [x, y] (put k w)) = Some (r, u) \<and>
      error_text_printable lib w r \<and> get u = k"
  shows "\<exists>r u. call f [x, y] (traceback_of w) (calling f [x, y] (put k w)) = Some (r, u) \<and>
    execute_function_by_handler lib call h 2 (lua_push y (lua_push x (put k w))) = Some (c_result lib r, with_stack [] u) \<and>
    get (remove_script_handler h (with_stack [] u)) = k"
proof -
  obtain r u where u: "call f [x, y] (traceback_of w) (calling f [x, y] (put k w)) = Some (r, u)"
      "error_text_printable lib w r" "get u = k"
    using tells by blast
  have "error_text_printable lib (put k w) r" using u(2) by (simp add: error_text_printable_def traceback_put)
  then have "execute_function_by_handler lib call h 2 (lua_push y (lua_push x (put k w))) = Some (c_result lib r, with_stack [] u)"
    using callback_of_two [of "put k w" h f call x y r u lib] assms(1,2) u(1) by (simp add: traceback_put put_references)
  then show ?thesis using u(1,3) by (auto simp: get_stack get_remove)
qed

end

text \<open>The slot: the first component of the state the interpreter works on.\<close>

definition client :: "('c \<times> 'l) lworld \<Rightarrow> 'c" where
  "client w = fst (interpreter (app w))"

definition with_client :: "'c \<Rightarrow> ('c \<times> 'l) lworld \<Rightarrow> ('c \<times> 'l) lworld" where
  "with_client c = set_lua (\<lambda>l. l\<lparr>interpreter := (c, snd (interpreter l))\<rparr>)"

interpretation slot: client_slot client with_client
  by unfold_locales
    (simp_all add: client_def with_client_def set_lua_def with_stack_def remove_script_handler_def)

lemmas slot_simps [simp] = slot.get_put slot.put_get slot.put_put slot.put_stack slot.put_references slot.traceback_put
  slot.get_stack slot.get_remove

text \<open>A function that, called in this world, returns and leaves the client alone, whatever state the client is in.\<close>

definition tells :: "lua_lib \<Rightarrow> ('c \<times> 'l) caller \<Rightarrow> lua_val \<Rightarrow> lua_val list \<Rightarrow> ('c \<times> 'l) lworld \<Rightarrow> bool" where
  "tells lib call f args w \<longleftrightarrow> (\<forall>k. \<exists>r u. call f args (traceback_of w) (calling f args (with_client k w)) = Some (r, u) \<and>
     error_text_printable lib w r \<and> client u = k)"

text \<open>A script that records what it is told, for the witnesses.\<close>

definition client_recorder :: "('c \<times> (lua_val list) list) caller" where
  "client_recorder f args tb w = Some (Call_Ok LNil, set_lua (interpreter_update (apsnd (\<lambda>l. l @ [args]))) w)"

lemma client_recorder_tells: "tells lib client_recorder f args w"
  by (simp add: tells_def client_recorder_def error_text_printable_def client_def with_client_def set_lua_def calling_def
      with_stack_def)

end
