(* ===== verification/Lua_Redis.thy ===== *)
theory Lua_Redis
  imports Lua_Client Redis
begin

text \<open>
  The Redis client as scripts see it (lua_wrapper/redis_export_to_lua.cc): the module \<open>Redis\<close> and the callbacks
  that hand errors, contexts and replies to Lua functions. The client state is a part of what the interpreter
  works on, so that a script called back may use the client again. A reply of hiredis, which the client
  model knows by a number, is a \<open>redis_reply\<close>, given by the parameter \<open>replies\<close>.
\<close>

section \<open>The client in the world of a script\<close>

type_synonym 'l redis_world = "(unit redis \<times> 'l) lworld"

text \<open>The client with the whole world as its user state, and back.\<close>

definition redis_of :: "'l redis_world \<Rightarrow> 'l redis_world redis" where
  "redis_of w = \<lparr>rmem = rmem (client w), asyncs = asyncs (client w), commands = commands (client w),
     disconnects = disconnects (client w), answers = answers (client w), ruser = w\<rparr>"

definition client_of :: "'u redis \<Rightarrow> unit redis" where
  "client_of R = \<lparr>rmem = rmem R, asyncs = asyncs R, commands = commands R, disconnects = disconnects R,
     answers = answers R, ruser = ()\<rparr>"

definition put_redis :: "'l redis_world redis \<Rightarrow> 'l redis_world" where
  "put_redis R = with_client (client_of R) (ruser R)"

definition with_redis :: "('l redis_world redis \<Rightarrow> 'l redis_world redis option) \<Rightarrow> 'l redis_world \<Rightarrow> 'l redis_world option" where
  "with_redis f w = map_option put_redis (f (redis_of w))"

section \<open>Replies\<close>

datatype redis_reply = Reply_Integer int | Reply_Status "byte list" | Reply_String "byte list"
  | Reply_Array "redis_reply list" | Reply_Nil | Reply_Error "byte list" | Reply_Other

text \<open>\<open>lua_pushstring\<close> stops at the first NUL byte of the reply, whose length is not used.\<close>

definition pushed_string :: "byte list \<Rightarrow> lua_val" where
  "pushed_string s = LString (takeWhile (\<lambda>b. b \<noteq> 0) s)"

fun push_result_to_lua :: "redis_reply \<Rightarrow> lua_val list \<Rightarrow> lua_val list option"
  and push_elements :: "nat \<Rightarrow> redis_reply list \<Rightarrow> lua_val list \<Rightarrow> lua_val list option" where
  "push_result_to_lua (Reply_Integer n) stk = Some (LInteger n # stk)"
| "push_result_to_lua (Reply_Status s) stk = Some (pushed_string s # stk)"
| "push_result_to_lua (Reply_String s) stk = Some (pushed_string s # stk)"
| "push_result_to_lua (Reply_Array rs) stk = push_elements 0 rs (LTable [] # stk)"
| "push_result_to_lua Reply_Nil stk = Some (LNil # stk)"
| "push_result_to_lua (Reply_Error s) stk = Some (pushed_string s # stk)"
| "push_result_to_lua Reply_Other stk = Some (LNil # stk)"
| "push_elements i [] stk = Some stk"
| "push_elements i (r # rs) stk = do {
     stk \<leftarrow> push_result_to_lua r stk;
     stk \<leftarrow> lua_rawseti (int i + 1) stk;
     push_elements (i + 1) rs stk }"

section \<open>Callbacks\<close>

definition redis_on_connect_cb ::
    "lua_lib \<Rightarrow> (unit redis \<times> 'l) caller \<Rightarrow> string option \<Rightarrow> addr \<Rightarrow> addr \<Rightarrow> 'l redis_world \<Rightarrow> 'l redis_world option" where
  "redis_on_connect_cb lib call erro context udata w = do {
     let w = (case erro of
         Some e \<Rightarrow> lua_push LNil (lua_push (lua_str e) w)
       | None \<Rightarrow> lua_push (LUserdata (Redis_Ptr context)) (lua_push LNil w));
     (_, w) \<leftarrow> execute_function_by_handler lib call (int udata) 2 w;
     Some (remove_script_handler (int udata) w) }"

definition redis_on_query_cb ::
    "lua_lib \<Rightarrow> (unit redis \<times> 'l) caller \<Rightarrow> string option \<Rightarrow> redis_reply option \<Rightarrow> addr \<Rightarrow> 'l redis_world \<Rightarrow>
     'l redis_world option" where
  "redis_on_query_cb lib call erro result udata w = do {
     w \<leftarrow> (case erro of
         Some e \<Rightarrow> Some (lua_push LNil (lua_push (lua_str e) w))
       | None \<Rightarrow> (case result of
             Some r \<Rightarrow> on_stack (push_result_to_lua r) (lua_push LNil w)
           | None \<Rightarrow> Some (lua_push LNil (lua_push LNil w))));
     (_, w) \<leftarrow> execute_function_by_handler lib call (int udata) 2 w;
     Some (remove_script_handler (int udata) w) }"

text \<open>The two callbacks by the numbers the client model knows them by.\<close>

definition connect_cb_id :: nat where "connect_cb_id = 1"
definition query_cb_id :: nat where "query_cb_id = 2"

definition lua_redis_run ::
    "lua_lib \<Rightarrow> (unit redis \<times> 'l) caller \<Rightarrow> (nat \<Rightarrow> redis_reply) \<Rightarrow> 'l redis_world redis_run" where
  "lua_redis_run lib call replies cb x udata R = map_option redis_of
     (let w = put_redis R in
      if cb = connect_cb_id then
        (case x of Error e \<Rightarrow> redis_on_connect_cb lib call (Some e) 0 udata w
         | Connected c \<Rightarrow> redis_on_connect_cb lib call None c udata w
         | Reply n \<Rightarrow> None)
      else
        (case x of Error e \<Rightarrow> redis_on_query_cb lib call (Some e) None udata w
         | Reply n \<Rightarrow> redis_on_query_cb lib call None (Some (replies n)) udata w
         | Connected c \<Rightarrow> None))"

section \<open>The functions of the module\<close>

definition arg_redis :: "nat \<Rightarrow> 'l lworld \<Rightarrow> addr option option" where
  "arg_redis i w = (case tolua_touserdata (arg_value i w) of
     None \<Rightarrow> Some None | Some (Redis_Ptr p) \<Rightarrow> Some (Some p) | Some _ \<Rightarrow> None)"

text \<open>\<open>result\<close> is the outcome of \<open>redisAsyncConnect\<close>. A third argument that is no function is not noticed.\<close>

definition lua_redis_connect ::
    "lua_lib \<Rightarrow> (addr \<times> string option) option \<Rightarrow> (unit redis \<times> 'l) c_function" where
  "lua_redis_connect lib result w =
     (case lua_tostring lib (arg_value 1 w) of
        None \<Rightarrow> Some (Returned 0, w)
      | Some host \<Rightarrow> do {
          port \<leftarrow> c_int32 (arg_number lib 2 w);
          if port = 0 then Some (Returned 0, w)
          else do {
            let (handler, w) = ref_function 3 w;
            w \<leftarrow> with_redis (redis_connect result (c_string host) port connect_cb_id (nat handler)) w;
            Some (Returned 0, w) } })"

definition lua_redis_query :: "lua_lib \<Rightarrow> (unit redis \<times> 'l) c_function" where
  "lua_redis_query lib w = do {
     context \<leftarrow> arg_redis 1 w;
     (case context of
        None \<Rightarrow> lua_raise ''1st argument is not a valid redis context'' w
      | Some x \<Rightarrow>
          (case lua_tostring lib (arg_value 2 w) of
             None \<Rightarrow> lua_raise ''2nd argument is not a valid sql'' w
           | Some sql \<Rightarrow>
               (case ref_function 3 w of (handler, w) \<Rightarrow>
                  if handler = 0 then lua_raise ''3rd argument is not a valid handler'' w
                  else do {
                    w \<leftarrow> with_redis (redis_query x (c_string sql) query_cb_id (nat handler)) w;
                    Some (Returned 1, w) }))) }"

definition lua_redis_close :: "(unit redis \<times> 'l) c_function" where
  "lua_redis_close w = do {
     context \<leftarrow> arg_redis 1 w;
     (case context of
        None \<Rightarrow> Some (Returned 0, w)
      | Some x \<Rightarrow> do { w \<leftarrow> with_redis (redis_close x) w; Some (Returned 0, w) }) }"

section \<open>The value of a reply\<close>

text \<open>An array is the table of the values of its elements; those that are nil have no entry.\<close>

primrec redis_value :: "redis_reply \<Rightarrow> lua_val" where
  "redis_value (Reply_Integer n) = LInteger n"
| "redis_value (Reply_Status s) = pushed_string s"
| "redis_value (Reply_String s) = pushed_string s"
| "redis_value (Reply_Array rs) = LTable (fold array_set (List.enumerate 0 (map redis_value rs)) [])"
| "redis_value Reply_Nil = LNil"
| "redis_value (Reply_Error s) = pushed_string s"
| "redis_value Reply_Other = LNil"

lemma push_elements_values:
  "(\<And>r stk. r \<in> set rs \<Longrightarrow> push_result_to_lua r stk = Some (redis_value r # stk)) \<Longrightarrow>
   push_elements i rs (LTable t # stk) =
     Some (LTable (fold array_set (List.enumerate i (map redis_value rs)) t) # stk)"
  by (induction rs arbitrary: i t) (simp_all add: lua_rawseti_def array_set_def)

lemma push_result_value: "push_result_to_lua r stk = Some (redis_value r # stk)"
  by (induction r arbitrary: stk) (simp_all add: push_elements_values)

lemma array_get:
  "table_get (LInteger (int j + 1)) (fold array_set (List.enumerate k ws) t) =
    (if k \<le> j \<and> j < k + length ws then ws ! (j - k) else table_get (LInteger (int j + 1)) t)"
  by (induction ws arbitrary: k t) (auto simp: array_set_def table_get_set nth_Cons' Suc_diff_le)

section \<open>A query made by a script\<close>

lemma client_put_redis [simp]: "client (put_redis R) = client_of R"
  by (simp add: put_redis_def)

lemma redis_of_put [simp]: "redis_of (put_redis R) = R\<lparr>ruser := put_redis R\<rparr>"
  by (simp add: redis_of_def client_of_def)

lemma put_redis_of [simp]: "put_redis (redis_of w) = w"
proof -
  have "client_of (redis_of w) = client w" by (cases "client w") (simp add: client_of_def redis_of_def)
  then show ?thesis by (simp add: put_redis_def redis_of_def)
qed

lemma redis_of_simps [simp]:
  "rmem (redis_of w) = rmem (client w)" "asyncs (redis_of w) = asyncs (client w)"
  "answers (redis_of w) = answers (client w)" "commands (redis_of w) = commands (client w)" "ruser (redis_of w) = w"
  by (simp_all add: redis_of_def)

text \<open>What a query tells its function: the error and nil, or nil and the value of the reply.\<close>

definition query_args :: "(nat \<Rightarrow> redis_reply) \<Rightarrow> string \<Rightarrow> nat option \<Rightarrow> lua_val list" where
  "query_args replies err reply = (case reply of None \<Rightarrow> [lua_str err, LNil] | Some n \<Rightarrow> [LNil, redis_value (replies n)])"

lemma on_query_cb_tells:
  assumes "refid_function_mapping (app w) (int h) = f" "is_function f"
    and "tells lib call f (query_args replies err reply) w"
  shows "\<exists>r u. call f (query_args replies err reply) (traceback_of w)
      (calling f (query_args replies err reply) (with_client k w)) = Some (r, u) \<and> client u = k \<and>
    redis_on_query_cb lib call (if reply = None then Some err else None) (map_option replies reply) h (with_client k w) =
      Some (remove_script_handler (int h) (with_stack [] u))"
proof -
  let ?args = "query_args replies err reply" and ?w = "with_client k w"
  obtain x y where xy: "?args = [x, y]" by (cases reply) (simp_all add: query_args_def)
  obtain r u where u: "call f ?args (traceback_of w) (calling f ?args ?w) = Some (r, u)" "client u = k"
      "execute_function_by_handler lib call (int h) 2 (lua_push y (lua_push x ?w)) = Some (c_result lib r, with_stack [] u)"
    using slot.called_once [OF assms(1,2), of call x y lib k] assms(3) xy by (auto simp: tells_def)
  moreover have "lua_push y (lua_push x ?w) = (case reply of None \<Rightarrow> lua_push LNil (lua_push (lua_str err) ?w)
      | Some n \<Rightarrow> lua_push (redis_value (replies n)) (lua_push LNil ?w))"
    using xy by (auto simp: query_args_def split: option.splits)
  ultimately show ?thesis
    by (cases reply) (auto simp: redis_on_query_cb_def on_stack_def push_result_value lua_push_def)
qed

text \<open>The run of the callback in the client model.\<close>

lemma lua_redis_run_tells:
  assumes "refid_function_mapping (app w) (int h) = f" "is_function f"
    and "tells lib call f (query_args replies err reply) w" "ruser R = w"
    and "x = (case reply of None \<Rightarrow> Error err | Some n \<Rightarrow> Reply n)"
  shows "\<exists>r u. call f (query_args replies err reply) (traceback_of w)
      (calling f (query_args replies err reply) (with_client (client_of R) w)) = Some (r, u) \<and>
    lua_redis_run lib call replies query_cb_id x h R = Some (R\<lparr>ruser := remove_script_handler (int h) (with_stack [] u)\<rparr>)"
proof -
  obtain r u where u: "call f (query_args replies err reply) (traceback_of w)
      (calling f (query_args replies err reply) (with_client (client_of R) w)) = Some (r, u)" "client u = client_of R"
    "redis_on_query_cb lib call (if reply = None then Some err else None) (map_option replies reply) h (with_client (client_of R) w) =
      Some (remove_script_handler (int h) (with_stack [] u))"
    using on_query_cb_tells [OF assms(1-3)] by blast
  have "redis_of (remove_script_handler (int h) (with_stack [] u)) =
      R\<lparr>ruser := remove_script_handler (int h) (with_stack [] u)\<rparr>"
    using u(2) by (simp add: redis_of_def client_of_def)
  then show ?thesis using u(1,3) assms(4,5)
    by (cases reply) (auto simp: lua_redis_run_def put_redis_def query_cb_id_def connect_cb_id_def)
qed


text \<open>
  On a context that is being closed nothing is sent, nor is a connection attempt followed that fails at once: in both
  cases the function is never called, and its reference stays.
\<close>

lemma closed_query_unanswered:
  assumes "stack_of w = [f, LString sql, LUserdata (Redis_Ptr x)]" "is_function f" "0 \<le> function_ref_id (app w)"
    and "context_at x (redis_of w) = Some rc" "rc_is_closing rc"
  shows "\<exists>w1. lua_redis_query lib w = Some (Returned 1, w1) \<and> client w1 = client w \<and>
    refid_function_mapping (app w1) (function_ref_id (app w) + 1) = f"
proof -
  have r: "ref_function 3 w = (function_ref_id (app w) + 1, w\<lparr>app := (app w)\<lparr>function_ref_id := function_ref_id (app w) + 1,
      refid_function_mapping := (refid_function_mapping (app w))(function_ref_id (app w) + 1 := f)\<rparr>\<rparr>)"
    using assms(1,2) by (intro ref_function_run) (simp_all add: stack_at_def)
  then show ?thesis using assms
    by (simp add: lua_redis_query_def arg_redis_def arg_value_def stack_at_def tolua_touserdata_def lua_tostring_def
        with_redis_def redis_query_def context_at_def client_def)
qed

lemma refused_connect_unanswered:
  assumes "stack_of w = [f, LInteger port, LString host]" "is_function f" "0 < port" "port < 65536"
    and "lua_documented lib"
  shows "\<exists>w1. lua_redis_connect lib (Some (c, Some err)) w = Some (Returned 0, w1) \<and> client w1 = client w \<and>
    refid_function_mapping (app w1) (function_ref_id (app w) + 1) = f"
proof -
  have "c_int32 (arg_number lib 2 w) = Some port"
    using assms c_int32_arg [OF assms(5), of port] by (simp add: arg_number_def stack_at_def)
  moreover have "ref_function 3 w = (function_ref_id (app w) + 1, w\<lparr>app := (app w)\<lparr>function_ref_id := function_ref_id (app w) + 1,
      refid_function_mapping := (refid_function_mapping (app w))(function_ref_id (app w) + 1 := f)\<rparr>\<rparr>)"
    using assms(1,2) by (intro ref_function_run) (simp_all add: stack_at_def)
  ultimately show ?thesis using assms(1,3)
    by (simp add: lua_redis_connect_def arg_value_def stack_at_def lua_tostring_def with_redis_def redis_connect_def client_def)
qed

definition redis_world0 :: "lua_val list \<Rightarrow> (lua_val list) list redis_world" where
  "redis_world0 = lworld_with (open_redis, [])"

definition pair_reply :: "nat \<Rightarrow> redis_reply" where
  "pair_reply n = Reply_Array [Reply_Integer (int n), Reply_String [104, 105, 0, 33]]"


end
