(* ===== verification/Lua_Mysql.thy ===== *)
theory Lua_Mysql
  imports Lua_Client Mysql
begin

text \<open>
  The MySQL client as scripts see it (lua_wrapper/mysql_export_to_lua.cc): the module \<open>MySQL\<close> and the callbacks that
  hand errors, contexts and result sets to Lua functions. The state of the client is a part of what
  the interpreter works on. A result set, which the client model knows by a number, is given by the
  parameter \<open>results\<close>.
\<close>

section \<open>The client in the world of a script\<close>

type_synonym 'l mysql_world = "(unit mysql \<times> 'l) lworld"

text \<open>The client with the whole world as its user state, and back.\<close>

definition mysql_of :: "'l mysql_world \<Rightarrow> 'l mysql_world mysql" where
  "mysql_of w = \<lparr>mmem = mmem (client w), submitted = submitted (client w), worked = worked (client w),
     closed_cons = closed_cons (client w), manswers = manswers (client w), muser = w\<rparr>"

definition mclient_of :: "'u mysql \<Rightarrow> unit mysql" where
  "mclient_of M = \<lparr>mmem = mmem M, submitted = submitted M, worked = worked M, closed_cons = closed_cons M,
     manswers = manswers M, muser = ()\<rparr>"

definition put_mysql :: "'l mysql_world mysql \<Rightarrow> 'l mysql_world" where
  "put_mysql M = with_client (mclient_of M) (muser M)"

definition with_mysql :: "('l mysql_world mysql \<Rightarrow> 'l mysql_world mysql option) \<Rightarrow> 'l mysql_world \<Rightarrow> 'l mysql_world option" where
  "with_mysql f w = map_option put_mysql (f (mysql_of w))"

section \<open>Result sets\<close>

record result_set =
  column_labels :: "string list"
  result_rows :: "string list list"

text \<open>\<open>lua_pushstring(s.c_str())\<close> stops at the first NUL character.\<close>

definition pushed_text :: "string \<Rightarrow> lua_val" where
  "pushed_text s = lua_str (takeWhile (\<lambda>c. c \<noteq> CHR 0x00) s)"

text \<open>The loop over the columns; a row with fewer values makes \<open>getString\<close> throw. \<open>lua_settable\<close> on a new table is \<open>lua_rawset\<close>.\<close>

fun push_columns :: "string list \<Rightarrow> string list \<Rightarrow> lua_val list \<Rightarrow> lua_val list option" where
  "push_columns [] vs stk = Some stk"
| "push_columns (l # ls) [] stk = None"
| "push_columns (l # ls) (v # vs) stk = do {
     stk \<leftarrow> lua_rawset (pushed_text v # pushed_text l # stk);
     push_columns ls vs stk }"

fun push_rows :: "nat \<Rightarrow> string list \<Rightarrow> string list list \<Rightarrow> lua_val list \<Rightarrow> lua_val list option" where
  "push_rows index ls [] stk = Some stk"
| "push_rows index ls (r # rs) stk = do {
     stk \<leftarrow> push_columns ls r (LTable [] # stk);
     stk \<leftarrow> lua_rawseti (int index) stk;
     push_rows (index + 1) ls rs stk }"

section \<open>Callbacks\<close>

definition mysql_on_connect_cb ::
    "lua_lib \<Rightarrow> (unit mysql \<times> 'l) caller \<Rightarrow> string option \<Rightarrow> addr \<Rightarrow> addr \<Rightarrow> 'l mysql_world \<Rightarrow> 'l mysql_world option" where
  "mysql_on_connect_cb lib call erro context udata w = do {
     let w = (case erro of
         Some e \<Rightarrow> lua_push LNil (lua_push (lua_str e) w)
       | None \<Rightarrow> lua_push (if context = 0 then LNil else LUserdata (Mysql_Ptr context)) (lua_push LNil w));
     (_, w) \<leftarrow> execute_function_by_handler lib call (int udata) 2 w;
     Some (remove_script_handler (int udata) w) }"

text \<open>The error text of a query is gone when it is pushed.\<close>

definition mysql_on_query_cb ::
    "lua_lib \<Rightarrow> (unit mysql \<times> 'l) caller \<Rightarrow> err_ptr \<Rightarrow> result_set option \<Rightarrow> addr \<Rightarrow> 'l mysql_world \<Rightarrow>
     'l mysql_world option" where
  "mysql_on_query_cb lib call erro result udata w =
     (case erro of
        Dangling_err \<Rightarrow> None
      | Null_err \<Rightarrow> do {
          w \<leftarrow> (case result of
              Some r \<Rightarrow> on_stack (push_rows 1 (column_labels r) (result_rows r)) (lua_push (LTable []) (lua_push LNil w))
            | None \<Rightarrow> Some (lua_push LNil (lua_push LNil w)));
          (_, w) \<leftarrow> execute_function_by_handler lib call (int udata) 2 w;
          Some (remove_script_handler (int udata) w) })"

text \<open>The two callbacks by the numbers the client model knows them by.\<close>

definition mconnect_cb_id :: nat where "mconnect_cb_id = 1"
definition mquery_cb_id :: nat where "mquery_cb_id = 2"

definition lua_mysql_run ::
    "lua_lib \<Rightarrow> (unit mysql \<times> 'l) caller \<Rightarrow> (nat \<Rightarrow> result_set) \<Rightarrow> 'l mysql_world mysql_run" where
  "lua_mysql_run lib call results cb x udata M = map_option mysql_of
     (let w = put_mysql M in
      if cb = mconnect_cb_id then
        (case x of MOpened e c \<Rightarrow> mysql_on_connect_cb lib call e c udata w | MAnswered e r \<Rightarrow> None)
      else
        (case x of MAnswered e r \<Rightarrow> mysql_on_query_cb lib call e (map_option results r) udata w | MOpened e c \<Rightarrow> None))"

section \<open>The functions of the module\<close>

definition arg_mysql :: "nat \<Rightarrow> 'l lworld \<Rightarrow> addr option option" where
  "arg_mysql i w = (case tolua_touserdata (arg_value i w) of
     None \<Rightarrow> Some None | Some (Mysql_Ptr p) \<Rightarrow> Some (Some p) | Some _ \<Rightarrow> None)"

text \<open>The handler is not tested.\<close>

definition lua_mysql_connect :: "lua_lib \<Rightarrow> (unit mysql \<times> 'l) c_function" where
  "lua_mysql_connect lib w =
     (case lua_tostring lib (arg_value 1 w) of None \<Rightarrow> lua_raise ''host is nil'' w | Some host \<Rightarrow> do {
        port \<leftarrow> c_int32 (arg_number lib 2 w);
        if port = 0 then lua_raise ''port is nil'' w
        else
         (case lua_tostring lib (arg_value 3 w) of None \<Rightarrow> lua_raise ''user is nil'' w | Some usr \<Rightarrow>
         (case lua_tostring lib (arg_value 4 w) of None \<Rightarrow> lua_raise ''pass is nil'' w | Some pass \<Rightarrow>
         (case lua_tostring lib (arg_value 5 w) of None \<Rightarrow> lua_raise ''db_name is nil'' w | Some db_name \<Rightarrow> do {
            let (handler, w) = ref_function 6 w;
            w \<leftarrow> with_mysql (mysql_connect (c_string host) port (c_string usr) (c_string pass) (c_string db_name)
              mconnect_cb_id (nat handler)) w;
            Some (Returned 0, w) }))) })"

definition lua_mysql_query :: "lua_lib \<Rightarrow> (unit mysql \<times> 'l) c_function" where
  "lua_mysql_query lib w = do {
     context \<leftarrow> arg_mysql 1 w;
     (case context of
        None \<Rightarrow> Some (Returned 0, w)
      | Some x \<Rightarrow>
          (case lua_tostring lib (arg_value 2 w) of
             None \<Rightarrow> Some (Returned 0, w)
           | Some sql \<Rightarrow> do {
               let (handler, w) = ref_function 3 w;
               w \<leftarrow> with_mysql (mysql_query x (c_string sql) mquery_cb_id (nat handler)) w;
               Some (Returned 0, w) })) }"

definition lua_mysql_close :: "(unit mysql \<times> 'l) c_function" where
  "lua_mysql_close w = do {
     context \<leftarrow> arg_mysql 1 w;
     (case context of
        None \<Rightarrow> Some (Returned 0, w)
      | Some x \<Rightarrow> do { w \<leftarrow> with_mysql (mysql_close x) w; Some (Returned 0, w) }) }"

section \<open>The table of a result set\<close>

text \<open>A row is the table of its values by column label.\<close>

definition row_value :: "string list \<Rightarrow> string list \<Rightarrow> lua_val" where
  "row_value ls r = LTable (fold (\<lambda>(l, v). table_set (pushed_text l) (pushed_text v)) (zip ls r) [])"

definition rows_value :: "result_set \<Rightarrow> lua_val" where
  "rows_value s = LTable (fold array_set (List.enumerate 0 (map (row_value (column_labels s)) (result_rows s))) [])"

text \<open>Every row has a value for every column.\<close>

definition rectangular :: "result_set \<Rightarrow> bool" where
  "rectangular s \<longleftrightarrow> (\<forall>r \<in> set (result_rows s). length r = length (column_labels s))"

lemma push_columns_table:
  "length ls = length vs \<Longrightarrow> push_columns ls vs (LTable t # stk) =
     Some (LTable (fold (\<lambda>(l, v). table_set (pushed_text l) (pushed_text v)) (zip ls vs) t) # stk)"
  by (induction ls vs "LTable t # stk" arbitrary: t rule: push_columns.induct) (auto simp: lua_rawset_def)

lemma push_rows_table:
  "\<forall>r \<in> set rs. length r = length ls \<Longrightarrow> push_rows (Suc k) ls rs (LTable t # stk) =
     Some (LTable (fold array_set (List.enumerate k (map (row_value ls) rs)) t) # stk)"
proof (induction rs arbitrary: k t)
  case (Cons r rs)
  have "push_columns ls r (LTable [] # LTable t # stk) = Some (row_value ls r # LTable t # stk)"
    using Cons(2) push_columns_table [of ls r "[]" "LTable t # stk"] by (simp add: row_value_def)
  then show ?case using Cons by (simp add: lua_rawseti_def array_set_def add.commute)
qed simp

lemma push_rows_value:
  "rectangular s \<Longrightarrow> push_rows (Suc 0) (column_labels s) (result_rows s) (LTable [] # stk) = Some (rows_value s # stk)"
  using push_rows_table [of "result_rows s" "column_labels s" 0 "[]" stk] by (simp add: rectangular_def rows_value_def)

section \<open>One query on the thread pool\<close>

definition querying :: "addr \<Rightarrow> addr \<Rightarrow> string \<Rightarrow> nat \<Rightarrow> addr \<Rightarrow> nat option \<Rightarrow> err_ptr \<Rightarrow> (addr \<rightharpoonup> mblock) \<Rightarrow> addr \<rightharpoonup> mblock" where
  "querying b x sql cb ud res err m = m(b \<mapsto> MWork (b + 1),
     b + 1 \<mapsto> MQuery \<lparr>mq_context = x, mq_sql = b + 2, mq_query_cb = cb, mq_result = res, mq_err = err, mq_udata = ud\<rparr>,
     b + 2 \<mapsto> MString sql)"

lemma query_submitted:
  assumes "mem_wf (mmem w)" "b = brk (mmem w)"
    and "blocks (mmem w) x = Some (MContext \<lparr>mx_context = con, mx_is_closing = False\<rparr>)"
  shows "\<exists>w1. mysql_query x sql cb ud w = Some w1 \<and>
     blocks (mmem w1) = querying b x sql cb ud None Null_err (blocks (mmem w)) \<and>
     submitted w1 = submitted w @ [(WQuery, b)] \<and> worked w1 = worked w \<and> muser w1 = muser w"
  using assms by (simp add: mysql_query_def mysql_mem querying_def uv_queue_work_def fun_eq_iff Let_def)

lemma query_worked:
  assumes "blocks (mmem w) = querying b x sql cb ud None Null_err m" "x < b" "(WQuery, b) \<in> set (submitted w)"
    and "m x = Some (MContext \<lparr>mx_context = con, mx_is_closing = False\<rparr>)" "query_answer D con sql = MAnswered err res"
  shows "\<exists>w1. run_event D run (Work WQuery b) w = Some w1 \<and> blocks (mmem w1) = querying b x sql cb ud res err m \<and>
     worked w1 = worked w @ [(WQuery, b)] \<and> muser w1 = muser w"
  using assms
  by (cases "d_execute D con sql")
    (auto simp: query_work_def mysql_mem querying_def query_answer_def fun_eq_iff Let_def split: if_splits)

text \<open>The completion, for a callback that leaves the memory as it is.\<close>

lemma query_completed:
  assumes "blocks (mmem w) = querying b x sql cb ud res err m" "(WQuery, b) \<in> set (worked w)"
    and m: "\<And>a. b \<le> a \<Longrightarrow> m a = None"
    and run: "\<And>v. muser v = muser w \<Longrightarrow> run cb (MAnswered err res) ud v = Some (v\<lparr>muser := f v\<rparr>)"
  shows "\<exists>v w1. muser v = muser w \<and> run_event D run (Complete WQuery b) w = Some w1 \<and> blocks (mmem w1) = m \<and> muser w1 = f v"
proof -
  let ?v = "w\<lparr>worked := remove1 (WQuery, b) (worked w), manswers := manswers w @ [(cb, MAnswered err res, ud)]\<rparr>"
  have "run cb (MAnswered err res) ud ?v = Some (?v\<lparr>muser := f ?v\<rparr>)" by (rule run) simp
  then have "\<exists>w1. run_event D run (Complete WQuery b) w = Some w1 \<and> blocks (mmem w1) = m \<and> muser w1 = f ?v"
    using assms(1,2) m
    by (auto simp: on_query_work_complete_def mcall_user_def mysql_mem querying_def fun_eq_iff)
  moreover have "muser ?v = muser w" by simp
  ultimately show ?thesis by blast
qed

section \<open>A query made by a script\<close>

lemma client_put_mysql [simp]: "client (put_mysql M) = mclient_of M"
  by (simp add: put_mysql_def)

lemma mysql_of_simps [simp]:
  "mmem (mysql_of w) = mmem (client w)" "submitted (mysql_of w) = submitted (client w)"
  "worked (mysql_of w) = worked (client w)" "muser (mysql_of w) = w"
  by (simp_all add: mysql_of_def)

lemma mysql_of_same: "client w = mclient_of M \<Longrightarrow> mysql_of w = M\<lparr>muser := w\<rparr>"
  by (simp add: mysql_of_def mclient_of_def)

text \<open>What the world is after the callback: that of the function, without the reference and with an empty stack.\<close>

definition after_call :: "(unit mysql \<times> 'l) caller \<Rightarrow> lua_val \<Rightarrow> lua_val list \<Rightarrow> addr \<Rightarrow> 'l mysql_world \<Rightarrow> unit mysql \<Rightarrow> 'l mysql_world" where
  "after_call call f args h w k = remove_script_handler (int h)
     (with_stack [] (snd (the (call f args (traceback_of w) (calling f args (with_client k w))))))"

definition answer_value :: "result_set option \<Rightarrow> lua_val" where
  "answer_value s = (case s of None \<Rightarrow> LNil | Some s \<Rightarrow> rows_value s)"

lemma lua_mysql_run_tells:
  assumes "refid_function_mapping (app w) (int h) = f" "is_function f" "muser M = w"
    and s: "s = map_option results res" "\<And>x. s = Some x \<Longrightarrow> rectangular x"
    and "tells lib call f [LNil, answer_value s] w"
  shows "lua_mysql_run lib call results mquery_cb_id (MAnswered Null_err res) h M =
     Some (M\<lparr>muser := after_call call f [LNil, answer_value s] h w (mclient_of M)\<rparr>)"
proof -
  let ?args = "[LNil, answer_value s]" and ?w = "with_client (mclient_of M) w"
  obtain r u where u: "call f ?args (traceback_of w) (calling f ?args ?w) = Some (r, u)"
      "execute_function_by_handler lib call (int h) 2 (lua_push (answer_value s) (lua_push LNil ?w)) = Some (c_result lib r, with_stack [] u)"
      "client (remove_script_handler (int h) (with_stack [] u)) = mclient_of M"
    using slot.called_once [OF assms(1,2), of call LNil "answer_value s" lib "mclient_of M"] assms(6) by (auto simp: tells_def)
  have "lua_push (rows_value x) (lua_push LNil ?w) =
      with_stack (rows_value x # LNil # stack_of ?w) (lua_push (LTable []) (lua_push LNil ?w))" for x
    by (simp add: lua_push_def)
  then have "mysql_on_query_cb lib call Null_err s h ?w = Some (remove_script_handler (int h) (with_stack [] u))"
    using s(2) u(2) by (cases s) (auto simp: mysql_on_query_cb_def on_stack_def push_rows_value answer_value_def)
  then show ?thesis using u(1,3) s(1) assms(3)
    by (simp add: lua_mysql_run_def put_mysql_def mquery_cb_id_def mconnect_cb_id_def mysql_of_same after_call_def)
qed

text \<open>C14 (functional): a query a script makes with \<open>MySQL.query(context, sql, f)\<close> is submitted once, and when the pool has
  worked on it, however the rest of the world has changed meanwhile, \<open>f\<close> is called once with nil and the table
  of the rows, or nil if there are none; the reference to \<open>f\<close> and the blocks of the query are released. But if the driver
  raised an exception, the callback reads an error text that no longer exists.\<close>

theorem lua_mysql_query_reported:
  fixes w :: "'l mysql_world"
  assumes args: "stack_of w = [f, LString sql, LUserdata (Mysql_Ptr x)]" "is_function f"
    and id: "0 \<le> function_ref_id (app w)" "h = nat (function_ref_id (app w) + 1)"
    and mem: "mem_wf (mmem (client w))" "b = brk (mmem (client w))"
    and ctx: "blocks (mmem (client w)) x = Some (MContext \<lparr>mx_context = con, mx_is_closing = False\<rparr>)"
  shows "\<exists>w1. lua_mysql_query lib w = Some (Returned 0, w1) \<and>
     submitted (client w1) = submitted (client w) @ [(WQuery, b)] \<and>
     (\<forall>(w2 :: 'l mysql_world) D res s. client w2 = client w1 \<and>
        refid_function_mapping (app w2) (int h) = refid_function_mapping (app w1) (int h) \<and>
        query_answer D con (c_string sql) = MAnswered Null_err res \<and>
        s = map_option results res \<and> (\<forall>y. s = Some y \<longrightarrow> rectangular y) \<and> tells lib call f [LNil, answer_value s] w2 \<longrightarrow>
       (\<exists>k w3. with_mysql (pool_events D (lua_mysql_run lib call results) [Work WQuery b, Complete WQuery b]) w2 = Some w3 \<and>
          w3 = with_client (client w3) (after_call call f [LNil, answer_value s] h w2 k) \<and>
          blocks (mmem (client w3)) = blocks (mmem (client w)))) \<and>
     (\<forall>(w2 :: 'l mysql_world) D. client w2 = client w1 \<and>
        query_answer D con (c_string sql) = MAnswered Dangling_err None \<longrightarrow>
        with_mysql (pool_events D (lua_mysql_run lib call results) [Work WQuery b, Complete WQuery b]) w2 = None)"
proof -
  let ?m = "blocks (mmem (client w))" and ?run = "lua_mysql_run lib call results"
  define wr where "wr = snd (ref_function 3 w)"
  have wr: "ref_function 3 w = (int h, wr)" "client wr = client w" "refid_function_mapping (app wr) (int h) = f"
    using args id by (simp_all add: wr_def ref_function_def stack_at_def client_def Let_def)
  have m: "b \<le> a \<Longrightarrow> ?m a = None" for a using mem_wf_fresh [OF mem(1)] mem(2) by simp
  have x: "x < b" using mem_wf_bound [OF mem(1) ctx] mem(2) by simp
  obtain M1 where M1: "mysql_query x (c_string sql) mquery_cb_id h (mysql_of wr) = Some M1"
      "blocks (mmem M1) = querying b x (c_string sql) mquery_cb_id h None Null_err ?m"
      "submitted M1 = submitted (client w) @ [(WQuery, b)]" "muser M1 = wr"
    using query_submitted [of "mysql_of wr" b x con "c_string sql" mquery_cb_id h] mem ctx wr(2) by auto
  define w1 where "w1 = put_mysql M1"
  have run: "lua_mysql_query lib w = Some (Returned 0, w1)"
    using args wr(1) id M1(1)
    by (simp add: lua_mysql_query_def arg_mysql_def arg_value_def stack_at_def tolua_touserdata_def lua_tostring_def
        with_mysql_def w1_def)
  have work: "\<exists>M2. run_event D ?run (Work WQuery b) (mysql_of w2) = Some M2 \<and>
      blocks (mmem M2) = querying b x (c_string sql) mquery_cb_id h res err ?m \<and> (WQuery, b) \<in> set (worked M2) \<and> muser M2 = w2"
    if "client w2 = client w1" "query_answer D con (c_string sql) = MAnswered err res" for w2 :: "'l mysql_world" and D err res
  proof -
    have "mysql_of w2 = M1\<lparr>muser := w2\<rparr>" using that(1) by (simp add: w1_def mysql_of_same)
    then show ?thesis
      using query_worked [of "mysql_of w2" b x "c_string sql" mquery_cb_id h ?m con D err res ?run] M1(2,3) x ctx that(2) by auto
  qed
  have good: "\<exists>k w3. with_mysql (pool_events D ?run [Work WQuery b, Complete WQuery b]) w2 = Some w3 \<and>
      w3 = with_client (client w3) (after_call call f [LNil, answer_value s] h w2 k) \<and> blocks (mmem (client w3)) = ?m"
    if w2: "client w2 = client w1" "refid_function_mapping (app w2) (int h) = refid_function_mapping (app w1) (int h)"
      "query_answer D con (c_string sql) = MAnswered Null_err res" "s = map_option results res"
      "\<forall>y. s = Some y \<longrightarrow> rectangular y" "tells lib call f [LNil, answer_value s] w2"
    for w2 :: "'l mysql_world" and D res s
  proof -
    obtain M2 where M2: "run_event D ?run (Work WQuery b) (mysql_of w2) = Some M2"
        "blocks (mmem M2) = querying b x (c_string sql) mquery_cb_id h res Null_err ?m" "(WQuery, b) \<in> set (worked M2)" "muser M2 = w2"
      using work [OF w2(1,3)] by blast
    have f2: "refid_function_mapping (app w2) (int h) = f" using w2(2) wr(3) M1(4) by (simp add: w1_def put_mysql_def)
    have tell: "?run mquery_cb_id (MAnswered Null_err res) h v =
        Some (v\<lparr>muser := after_call call f [LNil, answer_value s] h w2 (mclient_of v)\<rparr>)" if "muser v = muser M2" for v
      by (rule lua_mysql_run_tells [OF f2 args(2) _ w2(4) _ w2(6)]) (use that M2(4) w2(5) in simp_all)
    have "\<exists>v M3. muser v = muser M2 \<and> run_event D ?run (Complete WQuery b) M2 = Some M3 \<and> blocks (mmem M3) = ?m \<and>
        muser M3 = after_call call f [LNil, answer_value s] h w2 (mclient_of v)"
      by (rule query_completed [OF M2(2,3)], erule m, erule tell)
    then obtain v M3 where M3: "run_event D ?run (Complete WQuery b) M2 = Some M3" "blocks (mmem M3) = ?m"
        "muser M3 = after_call call f [LNil, answer_value s] h w2 (mclient_of v)" "muser v = muser M2"
      by blast
    have "with_mysql (pool_events D ?run [Work WQuery b, Complete WQuery b]) w2 = Some (put_mysql M3)"
      using M2(1) M3(1) by (simp add: with_mysql_def del: run_event.simps)
    moreover have "put_mysql M3 = with_client (client (put_mysql M3)) (after_call call f [LNil, answer_value s] h w2 (mclient_of v))"
      using M3(3) by (simp add: put_mysql_def)
    moreover have "blocks (mmem (client (put_mysql M3))) = ?m" using M3(2) by (simp add: mclient_of_def)
    ultimately show ?thesis by blast
  qed
  have bad: "with_mysql (pool_events D ?run [Work WQuery b, Complete WQuery b]) w2 = None"
    if w2: "client w2 = client w1" "query_answer D con (c_string sql) = MAnswered Dangling_err None"
    for w2 :: "'l mysql_world" and D
  proof -
    obtain M2 where M2: "run_event D ?run (Work WQuery b) (mysql_of w2) = Some M2"
        "blocks (mmem M2) = querying b x (c_string sql) mquery_cb_id h None Dangling_err ?m" "(WQuery, b) \<in> set (worked M2)"
      using work [OF w2] by blast
    have "?run mquery_cb_id (MAnswered Dangling_err None) h v = None" for v
      by (simp add: lua_mysql_run_def mysql_on_query_cb_def mquery_cb_id_def mconnect_cb_id_def)
    then have "run_event D ?run (Complete WQuery b) M2 = None"
      using M2(2,3) by (simp add: on_query_work_complete_def mcall_user_def mysql_mem querying_def)
    then show ?thesis using M2(1) by (simp add: with_mysql_def del: run_event.simps)
  qed
  have "submitted (client w1) = submitted (client w) @ [(WQuery, b)]" using M1(3) by (simp add: w1_def mclient_of_def)
  then show ?thesis using run good bad by blast
qed

text \<open>The witness: a result set of two rows.\<close>

definition mysql_world0 :: "lua_val list \<Rightarrow> (lua_val list) list mysql_world" where
  "mysql_world0 = lworld_with (open_mysql, [])"

definition rows_driver :: driver where
  "rows_driver = example_driver\<lparr>d_execute := \<lambda>con sql. Rows 2 4\<rparr>"

definition two_rows :: "nat \<Rightarrow> result_set" where
  "two_rows n = \<lparr>column_labels = [''uid'', ''name''], result_rows = [[''1'', ''ann''], [''2'', ''bob'']]\<rparr>"

theorem lua_mysql_query_reported_witness:
  "\<exists>w1 w3. lua_mysql_query lib_example (mysql_world0 [LFunction 7, lua_str ''select'', LUserdata (Mysql_Ptr 1)]) =
      Some (Returned 0, w1) \<and> submitted (client w1) = [(WQuery, 2)] \<and>
    with_mysql (pool_events rows_driver (lua_mysql_run lib_example client_recorder two_rows) [Work WQuery 2, Complete WQuery 2]) w1 =
      Some w3 \<and>
    snd (interpreter (app w3)) = snd (interpreter (app w1)) @ [[LNil, LTable [
      (LInteger 2, LTable [(lua_str ''name'', lua_str ''bob''), (lua_str ''uid'', lua_str ''2'')]),
      (LInteger 1, LTable [(lua_str ''name'', lua_str ''ann''), (lua_str ''uid'', lua_str ''1'')])]]]"
proof -
  let ?w = "mysql_world0 [LFunction 7, lua_str ''select'', LUserdata (Mysql_Ptr 1)]"
  let ?call = client_recorder and ?run = "lua_mysql_run lib_example client_recorder two_rows"
  let ?args = "[LNil, answer_value (Some (two_rows 4))]" and ?h = "nat (function_ref_id (app ?w) + 1)"
  have w: "stack_of ?w = [LFunction 7, LString (ascii ''select''), LUserdata (Mysql_Ptr 1)]"
    "0 \<le> function_ref_id (app ?w)" "client ?w = open_mysql"
    by (simp_all add: mysql_world0_def lworld_with_def lua_str_def client_def)
  have mem: "mem_wf (mmem (client ?w))" "2 = brk (mmem (client ?w))"
    "blocks (mmem (client ?w)) 1 = Some (MContext \<lparr>mx_context = 77, mx_is_closing = False\<rparr>)"
    unfolding w(3) by (simp_all add: open_mysql_def mysql0_def mem_wf_def)
  have answer: "query_answer rows_driver 77 (c_string (ascii ''select'')) = MAnswered Null_err (Some 4)"
    by (simp add: query_answer_def rows_driver_def)
  have rect: "rectangular (two_rows n)" for n by (simp add: rectangular_def two_rows_def)
  obtain w1 where w1: "lua_mysql_query lib_example ?w = Some (Returned 0, w1)"
      "submitted (client w1) = submitted (client ?w) @ [(WQuery, 2)]"
    and later: "tells lib_example ?call (LFunction 7) ?args w1 \<Longrightarrow>
      \<exists>k w3. with_mysql (pool_events rows_driver ?run [Work WQuery 2, Complete WQuery 2]) w1 = Some w3 \<and>
        w3 = with_client (client w3) (after_call ?call (LFunction 7) ?args ?h w1 k)"
    using lua_mysql_query_reported [OF w(1) _ w(2) refl mem, of lib_example two_rows ?call] answer rect
    by (fastforce simp del: pool_events.simps)
  have "tells lib_example ?call (LFunction 7) ?args w1" by (rule client_recorder_tells)
  from later [OF this] obtain k w3 where w3: "with_mysql (pool_events rows_driver ?run [Work WQuery 2, Complete WQuery 2]) w1 = Some w3"
      "w3 = with_client (client w3) (after_call ?call (LFunction 7) ?args ?h w1 k)"
    by (auto simp del: pool_events.simps)
  have "snd (interpreter (app w3)) = snd (interpreter (app w1)) @ [?args]"
    by (subst w3(2)) (simp add: after_call_def client_recorder_def with_client_def set_lua_def remove_script_handler_def
        with_stack_def calling_def)
  moreover have "answer_value (Some (two_rows 4)) = LTable [
      (LInteger 2, LTable [(lua_str ''name'', lua_str ''bob''), (lua_str ''uid'', lua_str ''2'')]),
      (LInteger 1, LTable [(lua_str ''name'', lua_str ''ann''), (lua_str ''uid'', lua_str ''1'')])]"
    by (simp add: answer_value_def rows_value_def row_value_def two_rows_def array_set_def table_set_def pushed_text_def)
  moreover have "submitted (client w1) = [(WQuery, 2)]"
    using w1(2) w(3) by (simp add: open_mysql_def mysql0_def)
  ultimately show ?thesis using w1(1) w3(1) by auto
qed

end
