(* ===== verification/Lua_Start.thy ===== *)
theory Lua_Start
  imports Lua_Netbus
begin

text \<open>
  The start and the end of the server (apps/lua/main.cc) and of its Lua interpreter (\<open>LuaWrapper::init\<close>, \<open>exit\<close>,
  \<open>execute_script_file\<close>, \<open>add_search_path\<close> of lua_wrapper/lua_wrapper.cc), with the functions \<open>register_*_export\<close>
  that enter the C functions in the tables scripts find them in, and \<open>tolua_module\<close> and \<open>tolua_function\<close>
  (vendor/tolua/tolua_map.c), which they use.

  A C function is known by its name; the parameter \<open>code\<close> gives the Lua function it becomes. The globals Lua's
  own libraries define are the parameter \<open>libs\<close>. A chunk, a text or a file, is loaded and run by the
  parameter \<open>run\<close>: it may change the whole world and ends with results or with an error.
\<close>

section \<open>Modules\<close>

definition set_global :: "string \<Rightarrow> lua_val \<Rightarrow> 'l lworld \<Rightarrow> 'l lworld" where
  "set_global n v = set_lua (\<lambda>l. l\<lparr>lua_globals := (lua_globals l)(n := v)\<rparr>)"

definition register_function :: "(string \<Rightarrow> nat) \<Rightarrow> string \<Rightarrow> string \<Rightarrow> 'l lworld \<Rightarrow> 'l lworld" where
  "register_function code name func = set_global name (LFunction (code func))"

text \<open>The table of globals is the current module when \<open>tolua_module\<close> is called, the new module afterwards.\<close>

definition tolua_module :: "string \<Rightarrow> 'l lworld \<Rightarrow> 'l lworld" where
  "tolua_module name w = (if is_table (lua_globals (app w) name) then w else set_global name (LTable []) w)"

definition tolua_function :: "(string \<Rightarrow> nat) \<Rightarrow> string \<Rightarrow> string \<Rightarrow> string \<Rightarrow> 'l lworld \<Rightarrow> 'l lworld" where
  "tolua_function code m name func w =
     (case lua_globals (app w) m of
        LTable t \<Rightarrow> set_global m (LTable (table_set (lua_str name) (LFunction (code func)) t)) w
      | _ \<Rightarrow> w)"

text \<open>What the functions \<open>register_*_export\<close> share: \<open>_G\<close> is pushed, the module filled if it is a table, \<open>_G\<close> popped.\<close>

type_synonym 'l registration = "(string \<Rightarrow> nat) \<Rightarrow> 'l lworld \<Rightarrow> 'l lworld"

definition export_module :: "string \<Rightarrow> (string \<times> string) list \<Rightarrow> 'l registration" where
  "export_module m fs code w =
     (if is_table (lua_globals (app w) ''_G'')
      then fold (\<lambda>(name, func). tolua_function code m name func) fs (tolua_module m w) else w)"

definition logger_functions :: "(string \<times> string) list" where
  "logger_functions =
    [(''debug'', ''lua_log_debug''), (''warn'', ''lua_log_warn''), (''error'', ''lua_log_error''), (''init'', ''lua_logger_init'')]"

definition register_logger_export :: "'l registration" where
  "register_logger_export code w = export_module ''Logger'' logger_functions code (register_function code ''print'' ''lua_log_debug'' w)"

definition mysql_functions :: "(string \<times> string) list" where
  "mysql_functions =
    [(''connect'', ''lua_mysql_connect''), (''query'', ''lua_mysql_query''), (''close'', ''lua_mysql_close'')]"

definition register_mysql_export :: "'l registration" where
  "register_mysql_export = export_module ''MySQL'' mysql_functions"

definition redis_functions :: "(string \<times> string) list" where
  "redis_functions =
    [(''connect'', ''lua_redis_connect''), (''query'', ''lua_redis_query''), (''close'', ''lua_redis_close'')]"

definition register_redis_export :: "'l registration" where
  "register_redis_export = export_module ''Redis'' redis_functions"

definition service_functions :: "(string \<times> string) list" where
  "service_functions =
    [(''register'', ''lua_register_service''), (''register_with_raw'', ''lua_register_service_with_raw'')]"

definition register_service_export :: "'l registration" where
  "register_service_export code w = export_module ''Service'' service_functions code (init_service_function_map w)"

definition session_functions :: "(string \<times> string) list" where
  "session_functions =
    [(''close'', ''lua_session_close''), (''send_msg'', ''lua_session_send_msg''), (''send_raw_msg'', ''lua_session_send_raw_msg''),
     (''udp_send_msg'', ''lua_session_udp_send_msg''), (''get_address'', ''lua_session_get_address''),
     (''set_utag'', ''lua_set_utag''), (''get_utag'', ''lua_get_utag''), (''set_uid'', ''lua_set_uid''),
     (''get_uid'', ''lua_get_uid''), (''as_client'', ''lua_as_client'')]"

definition register_session_export :: "'l registration" where
  "register_session_export = export_module ''Session'' session_functions"

definition scheduler_functions :: "(string \<times> string) list" where
  "scheduler_functions =
    [(''schedule'', ''lua_scheduler_schedule''), (''cancel'', ''lua_scheduler_unschedule''),
     (''once'', ''lua_scheduler_schedule_once'')]"

definition register_scheduler_export :: "'l registration" where
  "register_scheduler_export = export_module ''Scheduler'' scheduler_functions"

definition netbus_functions :: "(string \<times> string) list" where
  "netbus_functions =
    [(''tcp_listen'', ''lua_tcp_listen''), (''ws_listen'', ''lua_ws_listen''), (''udp_listen'', ''lua_udp_listen''),
     (''tcp_connect'', ''lua_tcp_connect'')]"

definition register_netbus_export :: "'l registration" where
  "register_netbus_export = export_module ''Netbus'' netbus_functions"

definition proto_manager_functions :: "(string \<times> string) list" where
  "proto_manager_functions =
    [(''init'', ''lua_protomanager_init''), (''proto_type'', ''lua_proto_type''),
     (''register_protobuf_cmd_map'', ''lua_register_protobuf_cmd_map'')]"

definition register_proto_manager_export :: "'l registration" where
  "register_proto_manager_export = export_module ''ProtoManager'' proto_manager_functions"

definition raw_cmd_functions :: "(string \<times> string) list" where
  "raw_cmd_functions =
    [(''read_header'', ''lua_raw_read_header''), (''set_utag'', ''lua_raw_set_utag''), (''read_body'', ''lua_read_body'')]"

definition register_raw_cmd_export :: "'l registration" where
  "register_raw_cmd_export = export_module ''RawCmd'' raw_cmd_functions"

section \<open>The interpreter\<close>

text \<open>\<open>luaL_newstate\<close>, \<open>luaL_openlibs\<close> and \<open>toluafix_open\<close>; the counters of references are static and go on.\<close>

definition open_state :: "(string \<Rightarrow> lua_val) \<Rightarrow> 'l \<Rightarrow> 'l lworld \<Rightarrow> 'l lworld" where
  "open_state libs interp = set_lua (\<lambda>l. l\<lparr>lua_stack := [], lua_globals := libs, refid_function_mapping := (\<lambda>_. LNil),
     service_function_mapping := (\<lambda>_. LNil), interpreter := interp\<rparr>)"

definition lua_wrapper_init :: "(string \<Rightarrow> nat) \<Rightarrow> (string \<Rightarrow> lua_val) \<Rightarrow> 'l \<Rightarrow> 'l lworld \<Rightarrow> 'l lworld" where
  "lua_wrapper_init code libs interp w =
     (let w = open_state libs interp w;
          w = register_function code ''add_search_path'' ''lua_add_search_path'' w;
          w = register_logger_export code w;
          w = register_mysql_export code w;
          w = register_redis_export code w;
          w = register_service_export code w;
          w = register_session_export code w;
          w = register_scheduler_export code w;
          w = register_netbus_export code w;
          w = register_proto_manager_export code w
      in register_raw_cmd_export code w)"

datatype chunk = Chunk_Text string | Chunk_File string

type_synonym 'l runner = "chunk \<Rightarrow> 'l lworld \<Rightarrow> ((lua_val list + lua_val) \<times> 'l lworld) option"

text \<open>\<open>luaL_dostring\<close> and \<open>luaL_dofile\<close>: all results, or the error, are left on the stack; true is failure.\<close>

definition do_chunk :: "'l runner \<Rightarrow> chunk \<Rightarrow> 'l lworld \<Rightarrow> (bool \<times> 'l lworld) option" where
  "do_chunk run c w = map_option (\<lambda>(r, w'). case r of
       Inl vs \<Rightarrow> (False, with_stack (rev vs @ stack_of w) w')
     | Inr e \<Rightarrow> (True, with_stack (e # stack_of w) w')) (run c w)"

definition execute_script_file :: "lua_lib \<Rightarrow> 'l runner \<Rightarrow> string \<Rightarrow> 'l lworld \<Rightarrow> (bool \<times> 'l lworld) option" where
  "execute_script_file lib run file_path w = do {
     (failed, w) \<leftarrow> do_chunk run (Chunk_File (c_str file_path)) w;
     if failed then do {
       e \<leftarrow> lua_index (- 1) w;
       _ \<leftarrow> log_lua_error lib e;
       w \<leftarrow> lua_pop 1 w;
       Some (False, w) }
     else Some (True, w) }"

text \<open>The text printed into the buffer \<open>script\<close> of 1024 bytes; a longer one is written past its end.\<close>

definition search_script :: "string \<Rightarrow> string" where
  "search_script path = ''local path = string.match([['' @ path @ '']],[[(.*)/[^/]*$]])'' @ [CHR 0x0A] @
     '' package.path = package.path .. [[;]] .. path .. [[/?.lua;]] .. path .. [[/?/init.lua]]'' @ [CHR 0x0A]"

definition script_size :: nat where "script_size = 1024"

definition add_search_path :: "'l runner \<Rightarrow> string \<Rightarrow> 'l lworld \<Rightarrow> 'l lworld option" where
  "add_search_path run path w =
     (let script = search_script (c_str path) in
      if length script < script_size then map_option snd (do_chunk run (Chunk_Text script) w) else None)"

definition lua_add_search_path :: "lua_lib \<Rightarrow> 'l runner \<Rightarrow> 'l c_function" where
  "lua_add_search_path lib run w =
     (case luaL_checklstring lib (arg_value 1 w) of
        Bad_Argument \<Rightarrow> Some (Bad_Argument, w)
      | Lua_Error e \<Rightarrow> Some (Lua_Error e, w)
      | Returned path \<Rightarrow> map_option (Pair (Returned 0)) (add_search_path run (c_string path) w))"

section \<open>The server\<close>

text \<open>
  The network and the world, and whether \<open>g_lua_state\<close> points to an interpreter. After \<open>lua_close\<close> no Lua
  value is left.
\<close>

record 'l server =
  net :: "'l lua_state netbus"
  g_lua_state :: bool

definition lua_close :: "'l lworld \<Rightarrow> 'l lworld" where
  "lua_close = set_lua (\<lambda>l. l\<lparr>lua_stack := [], lua_globals := (\<lambda>_. LNil), refid_function_mapping := (\<lambda>_. LNil),
     service_function_mapping := (\<lambda>_. LNil)\<rparr>)"

definition lua_wrapper_exit :: "'l server \<Rightarrow> 'l server" where
  "lua_wrapper_exit s =
     (if g_lua_state s then s\<lparr>net := (net s)\<lparr>nb_world := lua_close (nb_world (net s))\<rparr>, g_lua_state := False\<rparr> else s)"

text \<open>
  The search path and the entry script for the arguments of the program (its name first). For an empty second
  argument \<open>search_path[search_path.length() - 1]\<close> is out of range.
\<close>

definition main_paths :: "string list \<Rightarrow> (string \<times> string) option" where
  "main_paths argv =
     (if length argv < 3 then
        let search_path = ''../../../apps/lua/scripts/'' in Some (search_path, search_path @ ''test/main.lua'')
      else
        let search_path = argv ! 1 in
        if search_path = [] then None
        else
          let search_path = (if last search_path \<noteq> CHR ''/'' then search_path @ ''/'' else search_path) in
          Some (search_path, search_path @ argv ! 2))"

text \<open>
  What the program is given: its Lua library, the addresses of its functions, the globals of Lua, the new
  interpreter, what running a chunk does, and the event loop \<open>uv_run\<close>, with the events it delivers.
\<close>

record ('d, 'm, 'l) program =
  pr_env :: "('d, 'm, 'l lua_state) env"
  pr_sizeof_ptr :: nat
  pr_memory :: "memory option"
  pr_lib :: lua_lib
  pr_code :: "string \<Rightarrow> nat"
  pr_libs :: "string \<Rightarrow> lua_val"
  pr_interp :: 'l
  pr_run :: "'l runner"
  pr_uv_run :: "'l server \<Rightarrow> 'l server option"

definition server_init :: "('d, 'm, 'l) program \<Rightarrow> 'l server \<Rightarrow> 'l server" where
  "server_init P s =
     (let nb = netbus_init (pr_sizeof_ptr P) (pr_env P) (pr_memory P) (net s) in
      s\<lparr>net := nb\<lparr>nb_world := lua_wrapper_init (pr_code P) (pr_libs P) (pr_interp P) (nb_world nb)\<rparr>,
        g_lua_state := True\<rparr>)"

definition with_world :: "'l lworld \<Rightarrow> 'l server \<Rightarrow> 'l server" where
  "with_world w s = s\<lparr>net := (net s)\<lparr>nb_world := w\<rparr>\<rparr>"

text \<open>The result of \<open>main\<close> is 0, whatever became of the script.\<close>

definition server_main :: "('d, 'm, 'l) program \<Rightarrow> string list \<Rightarrow> 'l server \<Rightarrow> (int \<times> 'l server) option" where
  "server_main P argv s = do {
     let s = server_init P s;
     (search_path, lua_entry) \<leftarrow> main_paths argv;
     w \<leftarrow> add_search_path (pr_run P) search_path (nb_world (net s));
     (_, w) \<leftarrow> execute_script_file (pr_lib P) (pr_run P) lua_entry w;
     s \<leftarrow> pr_uv_run P (with_world w s);
     Some (0, lua_wrapper_exit s) }"

section \<open>The command map of the C++ server\<close>

text \<open>apps/cpp/proto/pf_cmd_map.cc.\<close>

definition cmd_map :: "int \<rightharpoonup> string" where
  "cmd_map = [0 \<mapsto> ''LoginReq'', 1 \<mapsto> ''LoginRes'']"

definition pf_cmd_map_init :: "proto_state \<Rightarrow> proto_state" where
  "pf_cmd_map_init = register_protobuf_cmd_map cmd_map"

lemma pf_cmd_map_names:
  "pb_type2name c (pf_cmd_map_init s) =
     (if c = 0 then Some ''LoginReq'' else if c = 1 then Some ''LoginRes'' else pb_type2name c s)"
  by (simp add: pb_type2name_def pf_cmd_map_init_def register_protobuf_cmd_map_def cmd_map_def c_str_def)

section \<open>What the modules hold\<close>

lemma set_global_simps [simp]:
  "lua_globals (app (set_global n v w)) = (lua_globals (app w))(n := v)"
  "service_function_mapping (app (set_global n v w)) = service_function_mapping (app w)"
  "refid_function_mapping (app (set_global n v w)) = refid_function_mapping (app w)"
  "stack_of (set_global n v w) = stack_of w"
  by (simp_all add: set_global_def)

text \<open>Registering touches nothing but the globals: \<open>with_globals\<close> is the world with other globals.\<close>

definition with_globals :: "(string \<Rightarrow> lua_val) \<Rightarrow> 'l lworld \<Rightarrow> 'l lworld" where
  "with_globals G = set_lua (\<lambda>l. l\<lparr>lua_globals := G\<rparr>)"

lemma with_globals_simps [simp]:
  "lua_globals (app (with_globals G w)) = G"
  "with_globals G (with_globals H w) = with_globals G w"
  "with_globals (lua_globals (app w)) w = w"
  "set_global n v (with_globals G w) = with_globals (G(n := v)) w"
  by (simp_all add: with_globals_def set_global_def set_lua_def)

lemma set_global_with: "set_global n v w = with_globals ((lua_globals (app w))(n := v)) w"
  by (simp add: with_globals_def set_global_def set_lua_def)

definition table_of :: "lua_val \<Rightarrow> (lua_val \<times> lua_val) list" where
  "table_of v = (case v of LTable t \<Rightarrow> t | _ \<Rightarrow> [])"

definition enter :: "(string \<Rightarrow> nat) \<Rightarrow> (string \<times> string) list \<Rightarrow> (lua_val \<times> lua_val) list \<Rightarrow> (lua_val \<times> lua_val) list" where
  "enter code = fold (\<lambda>(name, func). table_set (lua_str name) (LFunction (code func)))"

lemma enter_simps [simp]:
  "enter code [] t = t"
  "enter code ((n, f) # fs) t = enter code fs (table_set (lua_str n) (LFunction (code f)) t)"
  by (simp_all add: enter_def)

lemma table_get_enter:
  "distinct (map fst fs) \<Longrightarrow> table_get (lua_str n) (enter code fs t) =
     (case map_of fs n of Some f \<Rightarrow> LFunction (code f) | None \<Rightarrow> table_get (lua_str n) t)"
proof (induction fs arbitrary: t)
  case (Cons p fs)
  then have "n = fst p \<Longrightarrow> map_of fs n = None" by (auto simp: map_of_eq_None_iff)
  then show ?case using Cons by (cases p) (auto simp: table_get_set split: option.split)
qed simp

lemma fill_module:
  "lua_globals (app w) m = LTable t \<Longrightarrow>
   fold (\<lambda>(name, func). tolua_function code m name func) fs w =
     with_globals ((lua_globals (app w))(m := LTable (enter code fs t))) w"
proof (induction fs arbitrary: w t)
  case (Cons p fs)
  obtain n f where p: "p = (n, f)" by (cases p)
  let ?G = "(lua_globals (app w))(m := LTable (table_set (lua_str n) (LFunction (code f)) t))"
  have "tolua_function code m n f w = with_globals ?G w"
    using Cons(2) by (simp add: tolua_function_def set_global_with)
  moreover have "lua_globals (app (with_globals ?G w)) m = LTable (table_set (lua_str n) (LFunction (code f)) t)" by simp
  ultimately show ?case using Cons(1) p by (simp del: fun_upd_apply)
next
  case Nil
  then show ?case using with_globals_simps(3) [of w] by (simp add: fun_upd_idem del: with_globals_simps(3))
qed

lemma export_module_globals:
  "export_module m fs code w = (let G = lua_globals (app w) in
     if is_table (G ''_G'') then with_globals (G(m := LTable (enter code fs (table_of (G m))))) w else w)"
proof -
  obtain t where t: "tolua_module m w = with_globals ((lua_globals (app w))(m := LTable t)) w" "t = table_of (lua_globals (app w) m)"
    by (cases "lua_globals (app w) m")
      (simp_all add: tolua_module_def set_global_with table_of_def fun_upd_idem)
  then show ?thesis by (simp add: export_module_def fill_module Let_def)
qed

text \<open>The modules in the order in which they are registered.\<close>

definition modules :: "(string \<times> (string \<times> string) list) list" where
  "modules = [(''Logger'', logger_functions), (''MySQL'', mysql_functions), (''Redis'', redis_functions),
     (''Service'', service_functions), (''Session'', session_functions), (''Scheduler'', scheduler_functions),
     (''Netbus'', netbus_functions), (''ProtoManager'', proto_manager_functions), (''RawCmd'', raw_cmd_functions)]"

lemmas functions_defs = logger_functions_def mysql_functions_def redis_functions_def service_functions_def
  session_functions_def scheduler_functions_def netbus_functions_def proto_manager_functions_def raw_cmd_functions_def

lemmas register_defs = register_logger_export_def register_mysql_export_def register_redis_export_def
  register_service_export_def register_session_export_def register_scheduler_export_def register_netbus_export_def
  register_proto_manager_export_def register_raw_cmd_export_def

definition add_module :: "(string \<Rightarrow> nat) \<Rightarrow> string \<times> (string \<times> string) list \<Rightarrow> (string \<Rightarrow> lua_val) \<Rightarrow> string \<Rightarrow> lua_val" where
  "add_module code = (\<lambda>(m, fs) G. G(m := LTable (enter code fs (table_of (G m)))))"

definition start_globals :: "(string \<Rightarrow> nat) \<Rightarrow> (string \<Rightarrow> lua_val) \<Rightarrow> string \<Rightarrow> lua_val" where
  "start_globals code libs = libs(''add_search_path'' := LFunction (code ''lua_add_search_path''),
     ''print'' := LFunction (code ''lua_log_debug''))"

lemma export_module_with:
  "is_table (G ''_G'') \<Longrightarrow> export_module m fs code (with_globals G w) = with_globals (add_module code (m, fs) G) w"
  by (simp add: export_module_globals add_module_def Let_def)

lemma add_module_G [simp]: "is_table (G ''_G'') \<Longrightarrow> is_table (add_module code p G ''_G'')"
  by (cases p) (simp add: add_module_def)

lemma add_module_apply: "add_module code (m, fs) G k = (if k = m then LTable (enter code fs (table_of (G m))) else G k)"
  by (simp add: add_module_def)

lemma init_service_with: "init_service_function_map (with_globals G (open_state libs i w)) = with_globals G (open_state libs i w)"
  by (simp add: init_service_function_map_def with_globals_def open_state_def set_lua_def)

lemma lua_wrapper_init_globals:
  assumes "is_table (libs ''_G'')"
  shows "lua_wrapper_init code libs i w =
    with_globals (fold (add_module code) modules (start_globals code libs)) (open_state libs i w)"
proof -
  let ?W = "open_state libs i w" and ?S = "start_globals code libs"
  have "?W = with_globals libs ?W" by (simp add: open_state_def with_globals_def set_lua_def)
  then have "set_global n v ?W = with_globals (libs(n := v)) ?W" for n v by (metis with_globals_simps(4))
  then have start: "register_function code ''print'' ''lua_log_debug''
      (register_function code ''add_search_path'' ''lua_add_search_path'' ?W) = with_globals ?S ?W"
    by (simp only: register_function_def start_globals_def with_globals_simps(4))
  have S: "is_table (?S ''_G'')" using assms by (simp add: start_globals_def)
  have exports: "export_module m fs code (with_globals G ?W) = with_globals (add_module code (m, fs) G) ?W"
    if "is_table (G ''_G'')" for m fs G using that by (rule export_module_with)
  show ?thesis
    unfolding lua_wrapper_init_def register_defs Let_def start
    by (simp only: exports S add_module_G init_service_with modules_def fold_simps)
qed

lemma add_modules_elsewhere: "g \<notin> fst ` set ms \<Longrightarrow> fold (add_module code) ms G g = G g"
  by (induction ms arbitrary: G) (auto simp: add_module_def)

lemma add_modules_table:
  "distinct (map fst ms) \<Longrightarrow> (m, fs) \<in> set ms \<Longrightarrow>
   fold (add_module code) ms G m = LTable (enter code fs (table_of (G m)))"
proof (induction ms arbitrary: G)
  case (Cons p ms)
  show ?case
  proof (cases "p = (m, fs)")
    case True
    then have "m \<notin> fst ` set ms" using Cons(2) by simp
    then show ?thesis using True add_modules_elsewhere [of m ms code] by (simp add: add_module_def)
  next
    case False
    then have "(m, fs) \<in> set ms" "m \<in> fst ` set ms" using Cons(3) by force+
    then have "fst p \<noteq> m" using Cons(2) by auto
    then have "add_module code p G m = G m" by (cases p) (simp add: add_module_apply)
    moreover have "fold (add_module code) ms (add_module code p G) m = LTable (enter code fs (table_of (add_module code p G m)))"
      using Cons(1,2) \<open>(m, fs) \<in> set ms\<close> by simp
    ultimately show ?thesis by simp
  qed
qed simp

text \<open>
  What a script relies on: every function of every module is the C function of that name, entries of Lua's own
  tables with the name of a module are kept, \<open>print\<close> logs, and \<open>add_search_path\<close> is there.
\<close>

definition field :: "string \<Rightarrow> string \<Rightarrow> (string \<Rightarrow> lua_val) \<Rightarrow> lua_val" where
  "field m n G = table_get (lua_str n) (table_of (G m))"

definition exports_bound :: "(string \<Rightarrow> nat) \<Rightarrow> (string \<Rightarrow> lua_val) \<Rightarrow> (string \<Rightarrow> lua_val) \<Rightarrow> bool" where
  "exports_bound code libs G \<longleftrightarrow>
     (\<forall>(m, fs) \<in> set modules. \<forall>n. field m n G =
        (case map_of fs n of Some f \<Rightarrow> LFunction (code f) | None \<Rightarrow> field m n libs)) \<and>
     G ''print'' = LFunction (code ''lua_log_debug'') \<and>
     G ''add_search_path'' = LFunction (code ''lua_add_search_path'')"

lemma modules_distinct: "distinct (map fst modules)" "(m, fs) \<in> set modules \<Longrightarrow> distinct (map fst fs)"
  by (auto simp: modules_def functions_defs)

lemma modules_names: "''print'' \<notin> fst ` set modules" "''add_search_path'' \<notin> fst ` set modules" "''package'' \<notin> fst ` set modules"
  by (simp_all add: modules_def)

lemma init_exports_bound:
  assumes "is_table (libs ''_G'')"
  shows "exports_bound code libs (lua_globals (app (lua_wrapper_init code libs i w)))"
proof -
  let ?G = "fold (add_module code) modules (start_globals code libs)"
  have "field m n ?G = (case map_of fs n of Some f \<Rightarrow> LFunction (code f) | None \<Rightarrow> field m n libs)"
    if "(m, fs) \<in> set modules" for m fs n
  proof -
    have "m \<in> fst ` set modules" using that by force
    then have "m \<noteq> ''print''" "m \<noteq> ''add_search_path''" using modules_names(1,2) by metis+
    then have "start_globals code libs m = libs m" by (simp add: start_globals_def)
    then show ?thesis
      using add_modules_table [OF modules_distinct(1) that] modules_distinct(2) [OF that]
      by (simp add: field_def table_of_def table_get_enter split: option.split)
  qed
  moreover have "?G ''print'' = start_globals code libs ''print''" "?G ''add_search_path'' = start_globals code libs ''add_search_path''"
    using modules_names(1,2) by (simp_all only: add_modules_elsewhere not_False_eq_True)
  ultimately show ?thesis
    using assms by (auto simp: lua_wrapper_init_globals exports_bound_def start_globals_def)
qed

text \<open>Everything else of Lua's libraries is left as it is, and no reference to a function survives from before.\<close>

lemma init_keeps_libraries:
  assumes "is_table (libs ''_G'')" "g \<noteq> ''print''" "g \<noteq> ''add_search_path''" "g \<notin> fst ` set modules"
  shows "lua_globals (app (lua_wrapper_init code libs i w)) g = libs g"
  using assms add_modules_elsewhere [of g modules code] by (simp add: lua_wrapper_init_globals start_globals_def)

lemma init_no_references:
  assumes "is_table (libs ''_G'')"
  shows "refid_function_mapping (app (lua_wrapper_init code libs i w)) h = LNil"
    "service_function_mapping (app (lua_wrapper_init code libs i w)) h = LNil" "stack_of (lua_wrapper_init code libs i w) = []"
  using assms by (simp_all add: lua_wrapper_init_globals with_globals_def open_state_def)

section \<open>The search path\<close>

lemma length_search_script: "length (search_script path) = length path + 136"
  by (simp add: search_script_def)

text \<open>C24 (bounds): adding a search path is defined exactly for paths of at most 887 characters whose chunk is run
  without undefined behaviour; a longer one is printed past the end of the buffer of 1024 bytes.\<close>

theorem add_search_path_bound:
  "add_search_path run path w = None \<longleftrightarrow>
     887 < length (c_str path) \<or> run (Chunk_Text (search_script (c_str path))) w = None"
  by (auto simp: add_search_path_def length_search_script script_size_def do_chunk_def Let_def)

text \<open>A script can pass any string, so it can overflow the buffer.\<close>

lemma script_overflows_search_path:
  assumes "stack_of w = [LString (replicate (Suc 887) 97)]"
  shows "lua_add_search_path lib run w = None"
proof -
  have "c_string (replicate n 97) = replicate n (CHR ''a'')" for n
    by (simp add: c_string_def map_replicate_const char_of_def bit_0 flip: takeWhile_eq_all_conv)
  moreover have "c_str (replicate n (CHR ''a'')) = replicate n (CHR ''a'')" for n
    by (simp add: c_str_def)
  ultimately show ?thesis
    by (simp add: lua_add_search_path_def assms arg_value_def stack_at_def luaL_checklstring_def lua_tostring_def
        add_search_path_def length_search_script script_size_def Let_def del: replicate_Suc)
qed

text \<open>A path without a slash makes the chunk fail; the failure is ignored and its text left on the stack.\<close>

lemma failed_search_path_ignored:
  assumes "length (c_str path) \<le> 887" "run (Chunk_Text (search_script (c_str path))) w = Some (Inr e, w')"
  shows "add_search_path run path w = Some (with_stack (e # stack_of w) w')"
  using assms by (simp add: add_search_path_def length_search_script script_size_def do_chunk_def Let_def)

section \<open>Starting the server\<close>

text \<open>The slash between the directory and the file may be given or not.\<close>

lemma main_paths_slash:
  "d \<noteq> [] \<Longrightarrow> last d \<noteq> CHR ''/'' \<Longrightarrow> main_paths [prog, d, f] = Some (d @ ''/'', d @ ''/'' @ f)"
  "main_paths [prog, d @ ''/'', f] = Some (d @ ''/'', d @ ''/'' @ f)"
  by (simp_all add: main_paths_def)

definition no_nul :: "string \<Rightarrow> bool" where
  "no_nul s \<longleftrightarrow> CHR 0x00 \<notin> set s"

lemma c_str_id: "no_nul s \<Longrightarrow> c_str s = s"
  by (auto simp: c_str_def no_nul_def takeWhile_eq_all_conv)

text \<open>
  What the chunk of \<open>add_search_path\<close> does to the globals: nothing, but for \<open>package\<close>, whose \<open>path\<close> it sets.
\<close>

definition search_chunk_ok :: "'l runner \<Rightarrow> string \<Rightarrow> 'l lworld \<Rightarrow> bool" where
  "search_chunk_ok run path w \<longleftrightarrow>
     (\<exists>r w'. run (Chunk_Text (search_script path)) w = Some (r, w') \<and>
       (\<forall>g. g \<noteq> ''package'' \<longrightarrow> lua_globals (app w') g = lua_globals (app w) g))"

lemma exports_bound_keep:
  assumes "exports_bound code libs G" "\<forall>g. g \<noteq> ''package'' \<longrightarrow> H g = G g"
  shows "exports_bound code libs H"
proof -
  have "H m = G m" if "(m, fs) \<in> set modules" for m fs
  proof -
    have "m \<in> fst ` set modules" using that by force
    then show ?thesis using assms(2) modules_names(3) by metis
  qed
  then have "field m n H = field m n G" if "(m, fs) \<in> set modules" for m fs n using that by (simp add: field_def)
  then show ?thesis using assms by (auto simp: exports_bound_def)
qed


text \<open>A script that fails: it is recorded, and the server runs on without it.\<close>

definition run_example :: "(lua_val list) list runner" where
  "run_example c w = (case c of Chunk_Text t \<Rightarrow> Some (Inl [], w)
     | Chunk_File f \<Rightarrow> Some (Inr (lua_str ''no file''), set_lua (interpreter_update (\<lambda>l. l @ [[lua_str f]])) w))"

definition program_example :: "(nat, dyn, (lua_val list) list) program" where
  "program_example = \<lparr>pr_env = lua_env, pr_sizeof_ptr = 8, pr_memory = None, pr_lib = lib_example, pr_code = length,
     pr_libs = (\<lambda>_. LNil)(''_G'' := LTable []), pr_interp = [], pr_run = run_example, pr_uv_run = Some\<rparr>"


end
