(* ===== verification/Spec2Isabelle.thy ===== *)
theory Spec2Isabelle
  imports Prelude Cache_Alloc Tcp_Protocol Ws_Frame Proto_Manager Service_Manager Session
    Base64 Sha1 Md5 Ws_Handshake Netbus Timestamp Time_List Scheduler Logger Blocks Redis Mysql
    Lua_Values Lua_Proto Lua_Engine Lua_Service Lua_Session Lua_Proto_Manager
    Lua_Logger Lua_Netbus Lua_Client Lua_Redis Lua_Mysql Lua_Start
begin

text \<open>
  A model of the core of a game server: the network stack under \<open>netbus\<close>, the utilities under \<open>utils\<close>,
  the database clients under \<open>database\<close>, the codecs of \<open>vendor/crypto\<close> the stack uses, and the interface
  it offers to Lua scripts under \<open>lua_wrapper\<close>.

  How the parts interact. libuv delivers bytes to the callbacks of netbus.cc. They are collected in the
  receive buffer of a session, cut into packages by the TCP or the WebSocket protocol, decoded by
  the protocol manager and handed to the service registered for their type; services answer by
  \<open>send_msg\<close>, which encodes, frames and queues a write request, released again by the
  completion callback. A WebSocket connection first goes through the handshake, which uses SHA-1 and
  base64. All blocks come from the allocators of cache_alloc.c and small_alloc.c. The services are
  written in Lua: a script registers a table of functions, a decoded command is pushed as a Lua table and handed
  to one of them, and the script answers through the exports of sessions, which turn a table
  back into a command. The timers, the logger, the network and the database clients are reached through exports, too;
  the start of the server enters them all in the globals of the interpreter and runs the first script.

  Conventions. The value \<open>None\<close> of a result is behaviour that C or C++ leaves undefined; errors the code
  reports are values. Machine integers are words where their width matters, and the C \<open>int\<close>s whose
  range a theorem bounds are \<open>int\<close>. An operation takes the state it works on and returns
  the new one; a callback or handler of another part is an argument of the operation that calls it,
  and may change the whole state. Calls to libuv, hiredis and the C library whose effect lies outside
  the program are recorded in the state, or their results are parameters.

  The theories, in the order of imports, with the code they model:

  \<^item> Prelude: bytes, checked reads, writes and moves in buffers, printed numbers, list facts.
  \<^item> Cache_Alloc (utils/cache_alloc.c, utils/small_alloc.c): the free list threaded through the blocks of a
    pool, with the fallback to \<open>malloc\<close>. The locale \<open>block_pool\<close> states what a pool promises; both
    allocators interpret it, and the theorem on \<open>pool_spec\<close> shows that the small allocator refines the set of its
    live blocks.
  \<^item> Tcp_Protocol, Ws_Frame (netbus/tcp_protocol.cc, netbus/ws_protocol.cc): headers, masking, frames;
    round trips, and the exact lengths where they break.
  \<^item> Proto_Manager (netbus/proto_manager.cc): command header, command table, messages. The protobuf library is a
    parameter with the documented law that parsing inverts serialising; the memory each path takes
    and gives back is accounted for.
  \<^item> Service_Manager (netbus/service_manager.cc, netbus/service.cc): the table of 512 services, dispatch and
    notifications.
  \<^item> Session (netbus/session_uv.cc, netbus/udp_session.cc): creation, sending, completion, closing;
    conservation of write requests and buffers over any interleaving.
  \<^item> Base64, Sha1, Md5 (vendor/crypto): base64 round trip; the streaming SHA-1 and the MD5 that pads inside its
    loop equal the definitions of the standards. The program itself calls no MD5.
  \<^item> Ws_Handshake (netbus/ws_protocol.cc): the parser callbacks on the static buffers and the response; the HTTP
    parser is the list of callbacks it makes.
  \<^item> Netbus (netbus/netbus.cc): receive buffers, reassembly of TCP packages and WebSocket frames over read
    events, listening and connecting. The locale \<open>framing\<close> states once how a buffer is filled
    and consumed; TCP and WebSocket interpret it. \<open>tcp_received\<close> is the reachability relation of a TCP session.
  \<^item> Timestamp (utils/timestamp.c): the date parser \<open>my_strptime\<close> with its recursion, and the time stamps. The
    functions of the C library are the record \<open>libc_time\<close>.
  \<^item> Time_List (utils/time_list.c): timers on a libuv loop given by its documented effects; any sequence of
    expirations and cancellations is a list of events.
  \<^item> Scheduler (lua_wrapper/scheduler_export_to_lua.cc, the function references of vendor/tolua/tolua_fix.cc):
    Lua functions as timer callbacks; it rests on the lemmas of Time_List.
  \<^item> Logger (utils/logger.cc): directories, the file of the day, the cached time text, the line written.
  \<^item> Blocks, Redis, Mysql (database/redis_wrapper.cc, database/mysql_wrapper.cc): a heap of typed blocks, and the
    two clients as operations and callbacks over it; for MySQL the thread pool is a list of events,
    so that requests can be worked on in any order.

  \<^item> Lua_Values: Lua values, tables, the conversions of the C interface of Lua; the record \<open>lua_lib\<close> holds what
    depends on the Lua library (printing, rounding, the order of \<open>lua_next\<close>), \<open>lua_documented\<close> its laws.
  \<^item> Lua_Proto (\<open>push_proto_message_tolua\<close> of lua_wrapper/lua_wrapper.cc, \<open>lua_table_to_protobuf\<close> of
    lua_wrapper/session_export_to_lua.cc): messages as tables and back, over the reflection interface of
    protobuf given by the record \<open>reflection\<close> and the laws \<open>pb_documented\<close>.
  \<^item> Lua_Engine (lua_wrapper/lua_wrapper.cc, first part of lua_wrapper/service_export_to_lua.cc): the Lua stack
    and the calls of Lua functions by reference; what a function does is the parameter \<open>call\<close>.
  \<^item> Lua_Service (lua_wrapper/service_export_to_lua.cc): registration of a service by a script and its handlers,
    composed with the dispatch of Service_Manager.
  \<^item> Lua_Session (lua_wrapper/session_export_to_lua.cc): the module \<open>Session\<close> of scripts; a command sent by one
    script is followed through encoding, framing and decoding to the handler of another.
  \<^item> Lua_Proto_Manager (lua_wrapper/proto_manager_export_to_lua.cc): the modules \<open>ProtoManager\<close> and \<open>RawCmd\<close>.
  \<^item> Lua_Logger (lua_wrapper/logger_export_to_lua.cc): \<open>print\<close> and the module \<open>Logger\<close>, down to the line that Logger
    writes.
  \<^item> Lua_Netbus (lua_wrapper/netbus_export_to_lua.cc): the module \<open>Netbus\<close>, composed with listening and connecting.
  \<^item> Lua_Client, Lua_Redis, Lua_Mysql (lua_wrapper/redis_export_to_lua.cc, lua_wrapper/mysql_export_to_lua.cc): the
    modules \<open>Redis\<close> and \<open>MySQL\<close>, composed with the two clients. The client is a part of the world of the
    interpreter; the locale \<open>client_slot\<close> states what reading and writing that part promises. The contents
    of a reply and of a result set are parameters.
  \<^item> Lua_Start (lua_wrapper/lua_wrapper.cc, apps/lua/main.cc, \<open>register_*_export\<close> of all export files,
    apps/cpp/proto/pf_cmd_map.cc): the start and the end of the interpreter and of the server. The table of globals
    maps names to values, a module is a table in it; running a chunk is the parameter \<open>pr_run\<close>, the event loop
    the parameter \<open>pr_uv_run\<close>.

  What the groups of lemmas show. Functional: what reaches the services for any split of the input
  over read events, what a timer, a log call, a query does on every branch. Invariants and safety: the
  receive buffer lent to libuv is always within bounds, requests and blocks are conserved,
  a timer never runs more often than asked. Round trips: commands, frames, packages, base64, dates.
  Equivalence and refinement: SHA-1, MD5 and their standards, the directories made and the slashes of the
  path, the small allocator and the abstract pool. Errors: the inputs and orders of events on which
  the code misbehaves are theorems too, each with the states in which it does. Termination: a message is
  pushed as a table if and only if its nesting is well founded.

  Loops and bounds. Loops over a list or an index are structural; \<open>strptime_loop\<close> terminates because
  an abbreviation weighs more than the format it stands for, \<open>mkdir_loop\<close> because the slash found
  moves right, the loops of Netbus because every package consumed is not empty, \<open>md5_loop\<close> because an empty
  rest ends it. \<open>sha1_pad_loop\<close> is the only definition with fuel: 64 rounds, of which padding takes at most 63.
  The two conversions of Lua_Proto follow the nesting of their input without a bound and are
  \<open>partial_function (option)\<close>, so not returning is \<open>None\<close>; the round trip and the termination theorem give
  conditions under which they return.

  Not modelled. The overflow of the Lua stack; cyclic Lua tables, NaN and infinities, which the type of Lua values
  leaves out; the tolua++ runtime (third party) except the function
  references, \<open>tolua_module\<close> and \<open>tolua_function\<close>; the protobuf code (generated); apps/cpp/main.cc, which is compiled
  only under \<open>USE_CPP_MAIN\<close>, defined nowhere, and names classes that no longer exist; the Lua scripts.
  \<open>Netbus::run\<close> is the event loop whose events are the operations of the model. Addresses are never reused by
  the models of Time_List and Blocks, so a stale pointer is always seen.
\<close>

end
